(* ===== verification/Binder_Prelude.thy ===== *)
theory Binder_Prelude
  imports Main "HOL-Library.Word"
begin

text \<open>
  Shared vocabulary of the development: machine integers, the panics of the Rust
  code as values, arithmetic under the two build profiles, sequencing of state
  changing operations that may panic, slices, and the little-endian byte codecs.

  \<^item> \<open>usize\<close> values that are lengths or positions are \<open>nat\<close> with the 64-bit bound
    written out where a sum can exceed it; \<open>usize\<close> values that are data (pointers,
    cookies, identifiers, counters) are 64-bit words.
  \<^item> The target is a 64-bit little-endian one: \<open>to_ne_bytes\<close> is little-endian.
  \<^item> \<open>profile\<close> is cargo's overflow-check switch: \<open>Checked\<close> (debug builds and tests)
    panics on overflow, \<open>Wrapping\<close> (release builds) wraps around.
\<close>

unbundle bit_operations_syntax

named_theorems binder_sizes \<open>the sizes of the repr(C) structures\<close>
named_theorems seq_simps \<open>evaluation of sequenced operations\<close>

type_synonym byte = "8 word"
type_synonym u8 = "8 word"
type_synonym u32 = "32 word"
type_synonym i32 = "32 word"
type_synonym usize = "64 word"

section \<open>Panics and arithmetic\<close>

datatype panic =
    Arithmetic_Overflow
  | Slice_Out_Of_Range
  | Unwrap_Failed
  | Assert_Failed
  | Todo_Reached
  | Lock_Poisoned
  | Division_By_Zero

type_synonym 'a outcome = "panic + 'a"

datatype profile = Checked | Wrapping

definition bind_out :: "'a outcome \<Rightarrow> ('a \<Rightarrow> 'b outcome) \<Rightarrow> 'b outcome" where
  "bind_out m f = (case m of Inl p \<Rightarrow> Inl p | Inr x \<Rightarrow> f x)"

lemma bind_out_simps [simp]:
  "bind_out (Inl p) f = Inl p" "bind_out (Inr x) f = f x"
  by (simp_all add: bind_out_def)

lemma bind_out_eq_Inr: "bind_out m f = Inr y \<longleftrightarrow> (\<exists>x. m = Inr x \<and> f x = Inr y)"
  by (cases m) auto

text \<open>\<open>a + b\<close> and \<open>a - b\<close> of unsigned integers, as the profile compiles them.\<close>

definition add_checked :: "profile \<Rightarrow> 'a::len word \<Rightarrow> 'a word \<Rightarrow> 'a word outcome" where
  "add_checked prof a b =
     (if prof = Checked \<and> 2 ^ LENGTH('a) \<le> unat a + unat b then Inl Arithmetic_Overflow
      else Inr (a + b))"

definition sub_checked :: "profile \<Rightarrow> 'a::len word \<Rightarrow> 'a word \<Rightarrow> 'a word outcome" where
  "sub_checked prof a b =
     (if prof = Checked \<and> a < b then Inl Arithmetic_Overflow else Inr (a - b))"

definition saturating_sub :: "'a::len word \<Rightarrow> 'a word \<Rightarrow> 'a word" where
  "saturating_sub a b = (if a < b then 0 else a - b)"

text \<open>The same sum for \<open>usize\<close> positions, which are kept as \<open>nat\<close>.\<close>

definition usize_add :: "profile \<Rightarrow> nat \<Rightarrow> nat \<Rightarrow> nat outcome" where
  "usize_add prof a b =
     (if a + b < 2 ^ 64 then Inr (a + b)
      else if prof = Checked then Inl Arithmetic_Overflow
      else Inr ((a + b) mod 2 ^ 64))"

definition usize_sub :: "profile \<Rightarrow> nat \<Rightarrow> nat \<Rightarrow> nat outcome" where
  "usize_sub prof a b =
     (if b \<le> a then Inr (a - b)
      else if prof = Checked then Inl Arithmetic_Overflow
      else Inr (2 ^ 64 + a - b))"

lemma usize_add_small [simp]: "a + b < 2 ^ 64 \<Longrightarrow> usize_add prof a b = Inr (a + b)"
  by (simp add: usize_add_def)

lemma usize_sub_le [simp]: "b \<le> a \<Longrightarrow> usize_sub prof a b = Inr (a - b)"
  by (simp add: usize_sub_def)

lemma add_checked_Inr:
  "add_checked Checked a b = Inr c \<Longrightarrow> c = a + b \<and> unat c = unat a + unat (b :: 'a::len word)"
  by (auto simp: add_checked_def unat_word_ariths split: if_splits)

lemma add_checked_fits:
  "unat a + unat b < 2 ^ LENGTH('a) \<Longrightarrow> add_checked prof a b = Inr (a + b :: 'a::len word)"
  by (simp add: add_checked_def)

lemma sub_checked_fits:
  "b \<le> a \<Longrightarrow> sub_checked prof a b = Inr (a - b :: 'a::len word)"
  by (simp add: sub_checked_def not_less)

lemma counter_step: "w \<noteq> - 1 \<Longrightarrow> w < w + (1 :: usize)"
  using unatSuc [of w] by (simp add: word_less_nat_alt add.commute eq_neg_iff_add_eq_0)

lemma word_less_succ: "w \<noteq> - 1 \<Longrightarrow> (v :: usize) < w \<Longrightarrow> v < w + 1"
  using counter_step [of w] by simp

section \<open>Operations on a state that may panic\<close>

text \<open>
  An operation takes the state and gives the outcome with the state it leaves,
  also when it panics: a poisoned lock is visible to the other threads.
\<close>

type_synonym ('s, 'a) action = "'s \<Rightarrow> 'a outcome \<times> 's"

definition ret :: "'a \<Rightarrow> ('s, 'a) action" where
  "ret x = (\<lambda>s. (Inr x, s))"

definition panic_with :: "panic \<Rightarrow> ('s, 'a) action" where
  "panic_with p = (\<lambda>s. (Inl p, s))"

definition bind :: "('s, 'a) action \<Rightarrow> ('a \<Rightarrow> ('s, 'b) action) \<Rightarrow> ('s, 'b) action" where
  "bind m f = (\<lambda>s. case m s of (Inl p, s') \<Rightarrow> (Inl p, s') | (Inr x, s') \<Rightarrow> f x s')"

definition reads :: "('s \<Rightarrow> 'a) \<Rightarrow> ('s, 'a) action" where
  "reads f = (\<lambda>s. (Inr (f s), s))"

definition modify :: "('s \<Rightarrow> 's) \<Rightarrow> ('s, unit) action" where
  "modify f = (\<lambda>s. (Inr (), f s))"

definition of_outcome :: "'a outcome \<Rightarrow> ('s, 'a) action" where
  "of_outcome r = (\<lambda>s. (r, s))"

lemma action_simps [simp, seq_simps]:
  "ret x s = (Inr x, s)" "panic_with p s = (Inl p, s)"
  "reads g s = (Inr (g s), s)" "modify h s = (Inr (), h s)" "of_outcome r s = (r, s)"
  by (simp_all add: ret_def panic_with_def reads_def modify_def of_outcome_def)

lemma bind_panic [simp, seq_simps]: "m s = (Inl p, s') \<Longrightarrow> bind m f s = (Inl p, s')"
  by (simp add: bind_def)

lemma bind_return [simp, seq_simps]: "m s = (Inr x, s') \<Longrightarrow> bind m f s = f x s'"
  by (simp add: bind_def)

lemma bind_Inr_cases:
  assumes "bind m f s = (Inr y, t)"
  obtains x s' where "m s = (Inr x, s')" and "f x s' = (Inr y, t)"
  using assms by (auto simp: bind_def split: prod.splits sum.splits)

text \<open>
  The contract by which a property of the state is carried through a composite
  operation: every outcome, also a panic, leaves the property true.
\<close>

definition keeps :: "('s \<Rightarrow> bool) \<Rightarrow> ('s, 'a) action \<Rightarrow> bool" where
  "keeps I m \<longleftrightarrow> (\<forall>s. I s \<longrightarrow> I (snd (m s)))"

named_theorems keeps_intros \<open>composition rules for state properties\<close>

lemma keepsD: "keeps I m \<Longrightarrow> I s \<Longrightarrow> m s = (r, t) \<Longrightarrow> I t"
  by (metis keeps_def snd_conv)

lemma keeps_basic [keeps_intros]:
  "keeps I (ret x)" "keeps I (panic_with p)" "keeps I (reads g)" "keeps I (of_outcome r)"
  by (simp_all add: keeps_def)

lemma keeps_modify [keeps_intros]: "(\<And>s. I s \<Longrightarrow> I (h s)) \<Longrightarrow> keeps I (modify h)"
  by (simp add: keeps_def)

lemma keeps_bind [keeps_intros]:
  "keeps I m \<Longrightarrow> (\<And>x. keeps I (f x)) \<Longrightarrow> keeps I (bind m f)"
  by (fastforce simp: keeps_def bind_def split: prod.splits sum.splits)

section \<open>Slices and byte strings\<close>

text \<open>\<open>xs.get(a..b)\<close> gives \<open>None\<close> out of range, \<open>&xs[a..b]\<close> panics.\<close>

definition slice_get :: "'a list \<Rightarrow> nat \<Rightarrow> nat \<Rightarrow> 'a list option" where
  "slice_get xs a b =
     (if a \<le> b \<and> b \<le> length xs then Some (take (b - a) (drop a xs)) else None)"

definition slice_index :: "'a list \<Rightarrow> nat \<Rightarrow> nat \<Rightarrow> 'a list outcome" where
  "slice_index xs a b = (case slice_get xs a b of None \<Rightarrow> Inl Slice_Out_Of_Range | Some ys \<Rightarrow> Inr ys)"

lemma slice_get_length: "slice_get xs a b = Some ys \<Longrightarrow> length ys = b - a"
  by (auto simp: slice_get_def split: if_splits)

lemma slice_index_ok [simp]:
  "a \<le> b \<Longrightarrow> b \<le> length xs \<Longrightarrow> slice_index xs a b = Inr (take (b - a) (drop a xs))"
  by (simp add: slice_index_def slice_get_def)

lemma slice_index_Inr:
  "slice_index xs a b = Inr ys \<longleftrightarrow> a \<le> b \<and> b \<le> length xs \<and> ys = take (b - a) (drop a xs)"
  by (auto simp: slice_index_def slice_get_def)

primrec le_encode :: "nat \<Rightarrow> nat \<Rightarrow> byte list" where
  "le_encode 0 x = []"
| "le_encode (Suc n) x = word_of_nat x # le_encode n (x div 256)"

primrec le_decode :: "byte list \<Rightarrow> nat" where
  "le_decode [] = 0"
| "le_decode (b # bs) = unat b + 256 * le_decode bs"

lemma length_le_encode [simp]: "length (le_encode n x) = n"
  by (induction n arbitrary: x) simp_all

lemma unat_byte_of_nat: "unat (word_of_nat x :: byte) = x mod 256"
  by (simp add: unat_of_nat)

lemma le_decode_encode: "le_decode (le_encode n x) = x mod 256 ^ n"
proof (induction n arbitrary: x)
  case (Suc n)
  have "x mod (256 * 256 ^ n) = 256 * (x div 256 mod 256 ^ n) + x mod 256"
    by (rule mod_mult2_eq)
  with Suc show ?case by (simp add: unat_byte_of_nat)
qed simp

definition u32_bytes :: "u32 \<Rightarrow> byte list" where
  "u32_bytes w = le_encode 4 (unat w)"

definition u32_of :: "byte list \<Rightarrow> u32" where
  "u32_of bs = word_of_nat (le_decode (take 4 bs))"

definition u64_bytes :: "usize \<Rightarrow> byte list" where
  "u64_bytes w = le_encode 8 (unat w)"

definition u64_of :: "byte list \<Rightarrow> usize" where
  "u64_of bs = word_of_nat (le_decode (take 8 bs))"

lemma unat_u32_less: "unat (w :: u32) < 4294967296"
proof -
  have "unat w < 2 ^ LENGTH(32)" by (rule unsigned_less)
  then show ?thesis by simp
qed

lemma unat_u64_less: "unat (w :: usize) < 18446744073709551616"
proof -
  have "unat w < 2 ^ LENGTH(64)" by (rule unsigned_less)
  then show ?thesis by simp
qed

lemma unat_u32_of_nat:
  assumes "k < 2 ^ 32"
  shows "unat (word_of_nat k :: u32) = k"
proof -
  have "unat (word_of_nat k :: u32) = k mod 2 ^ LENGTH(32)"
    by (rule unat_of_nat)
  with assms show ?thesis by simp
qed

lemma length_u_bytes [simp]: "length (u32_bytes a) = 4" "length (u64_bytes b) = 8"
  by (simp_all add: u32_bytes_def u64_bytes_def)

lemma take_append_eq: "length xs = n \<Longrightarrow> take n (xs @ ys) = xs"
  by simp

lemma u32_of_bytes [simp]: "u32_of (u32_bytes w @ rest) = w"
proof -
  have "unat w mod 256 ^ 4 = unat w"
    using unat_u32_less [of w] by simp
  then show ?thesis
    by (simp add: u32_of_def take_append_eq u32_bytes_def le_decode_encode del: power_numeral)
qed

lemma u64_of_bytes [simp]: "u64_of (u64_bytes w @ rest) = w"
proof -
  have "unat w mod 256 ^ 8 = unat w"
    using unat_u64_less [of w] by simp
  then show ?thesis
    by (simp add: u64_of_def take_append_eq u64_bytes_def le_decode_encode del: power_numeral)
qed

lemma u_of_take [simp]:
  "4 \<le> n \<Longrightarrow> u32_of (take n xs) = u32_of xs" "8 \<le> n \<Longrightarrow> u64_of (take n xs) = u64_of xs"
  by (simp_all add: u32_of_def u64_of_def min_absorb1 min.commute)

text \<open>
  What the users of a structure rely on when its bytes are embedded in a larger
  buffer: a fixed width, and decoding that reads back what was encoded whatever
  follows it.
\<close>

locale byte_codec =
  fixes enc :: "'a \<Rightarrow> byte list"
    and dec :: "byte list \<Rightarrow> 'a"
    and width :: nat
  assumes enc_width: "length (enc x) = width"
    and dec_enc: "dec (enc x @ rest) = x"
begin

lemma dec_exact: "dec (enc x) = x"
  using dec_enc [of x "[]"] by simp

lemma enc_inj: "enc x = enc y \<Longrightarrow> x = y"
  by (metis dec_exact)

lemma read_at:
  assumes "length pre = k" and "k + width \<le> m" and "m \<le> length (pre @ enc x @ post)"
  shows "dec (take (m - k) (drop k (pre @ enc x @ post))) = x"
proof -
  have "take (m - k) (drop k (pre @ enc x @ post)) = enc x @ take (m - k - width) post"
    using assms by (simp add: enc_width)
  then show ?thesis by (simp add: dec_enc)
qed

lemma slice_read_at:
  assumes "length pre = k"
  shows "slice_index (pre @ enc x @ post) k (k + width) = Inr (enc x)"
  using assms by (simp add: enc_width)

end

interpretation u32_codec: byte_codec u32_bytes u32_of 4
  by unfold_locales simp_all

interpretation u64_codec: byte_codec u64_bytes u64_of 8
  by unfold_locales simp_all

end
