(* ===== verification/Binder_Sys.thy ===== *)
theory Binder_Sys
  imports Binder_Prelude
begin

text \<open>
  The kernel interface of \<open>src/src/sys.rs\<close>: the packed object types, the structures
  with their repr(C) layout and their bytes, and the command and return codes.

  Each structure is a record of its fields; a Rust union is the 8 bytes it occupies,
  as one word, with the writes and reads of its members. A structure is encoded to
  the bytes \<open>slice::from_raw_parts(&raw const x, size_of::<T>())\<close> shows and decoded
  as \<open>ptr::read_unaligned\<close> does.

  The opcode functions \<open>none\<close>, \<open>read\<close>, \<open>write\<close> of the rustix crate are not part of
  the program: they are the parameter \<open>ioc\<close>, from the direction, the group, the
  number and the size of the argument to the code. What the code relies on is that
  different requests have different codes (locale \<open>ioctl_opcode\<close>).
\<close>

section \<open>Object types\<close>

definition b_pack_chars :: "u8 \<Rightarrow> u8 \<Rightarrow> u8 \<Rightarrow> u8 \<Rightarrow> u32" where
  "b_pack_chars c1 c2 c3 c4 =
     (push_bit 24 (ucast c1) OR push_bit 16 (ucast c2)) OR push_bit 8 (ucast c3) OR ucast c4"

definition B_TYPE_LARGE :: u8 where "B_TYPE_LARGE = 0x85"

text \<open>\<open>BinderType\<close> is a transparent \<open>u32\<close>, so any value may come from a buffer.\<close>

type_synonym binder_type = u32

definition BINDER :: binder_type where "BINDER = b_pack_chars 115 98 42 B_TYPE_LARGE"
definition WEAK_BINDER :: binder_type where "WEAK_BINDER = b_pack_chars 119 98 42 B_TYPE_LARGE"
definition HANDLE :: binder_type where "HANDLE = b_pack_chars 115 104 42 B_TYPE_LARGE"
definition WEAK_HANDLE :: binder_type where "WEAK_HANDLE = b_pack_chars 119 104 42 B_TYPE_LARGE"
definition FD :: binder_type where "FD = b_pack_chars 102 100 42 B_TYPE_LARGE"
definition FDA :: binder_type where "FDA = b_pack_chars 102 100 97 B_TYPE_LARGE"
definition PTR :: binder_type where "PTR = b_pack_chars 112 116 42 B_TYPE_LARGE"

lemma binder_type_values:
  "BINDER = 0x73622a85" "WEAK_BINDER = 0x77622a85" "HANDLE = 0x73682a85"
  "WEAK_HANDLE = 0x77682a85" "FD = 0x66642a85" "FDA = 0x66646185" "PTR = 0x70742a85"
  by (simp_all add: BINDER_def WEAK_BINDER_def HANDLE_def WEAK_HANDLE_def FD_def FDA_def
      PTR_def b_pack_chars_def B_TYPE_LARGE_def)

definition binder_types :: "binder_type list" where
  "binder_types = [BINDER, WEAK_BINDER, HANDLE, WEAK_HANDLE, FD, FDA, PTR]"

lemma distinct_binder_types: "distinct binder_types"
  by (simp add: binder_types_def binder_type_values)

lemma binder_type_neqs [simp]:
  "BINDER \<noteq> WEAK_BINDER" "BINDER \<noteq> HANDLE" "BINDER \<noteq> WEAK_HANDLE" "BINDER \<noteq> FD"
  "BINDER \<noteq> FDA" "BINDER \<noteq> PTR"
  "WEAK_BINDER \<noteq> BINDER" "WEAK_BINDER \<noteq> HANDLE" "WEAK_BINDER \<noteq> WEAK_HANDLE"
  "WEAK_BINDER \<noteq> FD" "WEAK_BINDER \<noteq> FDA" "WEAK_BINDER \<noteq> PTR"
  "HANDLE \<noteq> BINDER" "HANDLE \<noteq> WEAK_BINDER" "HANDLE \<noteq> WEAK_HANDLE" "HANDLE \<noteq> FD"
  "HANDLE \<noteq> FDA" "HANDLE \<noteq> PTR"
  "WEAK_HANDLE \<noteq> BINDER" "WEAK_HANDLE \<noteq> WEAK_BINDER" "WEAK_HANDLE \<noteq> HANDLE"
  "WEAK_HANDLE \<noteq> FD" "WEAK_HANDLE \<noteq> FDA" "WEAK_HANDLE \<noteq> PTR"
  "FD \<noteq> BINDER" "FD \<noteq> WEAK_BINDER" "FD \<noteq> HANDLE" "FD \<noteq> WEAK_HANDLE" "FD \<noteq> FDA" "FD \<noteq> PTR"
  "FDA \<noteq> BINDER" "FDA \<noteq> WEAK_BINDER" "FDA \<noteq> HANDLE" "FDA \<noteq> WEAK_HANDLE" "FDA \<noteq> FD"
  "FDA \<noteq> PTR"
  "PTR \<noteq> BINDER" "PTR \<noteq> WEAK_BINDER" "PTR \<noteq> HANDLE" "PTR \<noteq> WEAK_HANDLE" "PTR \<noteq> FD"
  "PTR \<noteq> FDA"
  by (simp_all add: binder_type_values)

section \<open>Layout\<close>

text \<open>
  The repr(C) layout rule on the sizes and alignments of the fields: each field starts
  at the next multiple of its alignment, the whole is rounded up to the largest one.
\<close>

definition round_up :: "nat \<Rightarrow> nat \<Rightarrow> nat" where
  "round_up n a = (n + a - 1) div a * a"

type_synonym field_layout = "nat \<times> nat"

fun layout_end :: "nat \<Rightarrow> field_layout list \<Rightarrow> nat" where
  "layout_end o1 [] = o1"
| "layout_end o1 ((s, a) # fs) = layout_end (round_up o1 a + s) fs"

definition layout_align :: "field_layout list \<Rightarrow> nat" where
  "layout_align fs = foldr max (map snd fs) 1"

definition layout_size :: "field_layout list \<Rightarrow> nat" where
  "layout_size fs = round_up (layout_end 0 fs) (layout_align fs)"

definition layout_size_packed :: "field_layout list \<Rightarrow> nat" where
  "layout_size_packed fs = sum_list (map fst fs)"

text \<open>A structure as a field of another one.\<close>

definition nested :: "field_layout list \<Rightarrow> field_layout" where
  "nested fs = (layout_size fs, layout_align fs)"

definition f32 :: field_layout where "f32 = (4, 4)"
definition f64 :: field_layout where "f64 = (8, 8)"

definition BinderObjectHeader :: "field_layout list" where "BinderObjectHeader = [f32]"
definition FlatBinderObject :: "field_layout list" where
  "FlatBinderObject = [nested BinderObjectHeader, f32, f64, f64]"
definition BinderFdObject :: "field_layout list" where
  "BinderFdObject = [nested BinderObjectHeader, f32, f64, f64]"
definition BinderBufferObject :: "field_layout list" where
  "BinderBufferObject = [nested BinderObjectHeader, f32, f64, f64, f64, f64]"
definition BinderFdArrayObject :: "field_layout list" where
  "BinderFdArrayObject = [nested BinderObjectHeader, f32, f64, f64, f64]"
definition BinderWriteRead :: "field_layout list" where
  "BinderWriteRead = [f64, f64, f64, f64, f64, f64]"
definition BinderVersion :: "field_layout list" where "BinderVersion = [f32]"
definition BinderExtendedError :: "field_layout list" where
  "BinderExtendedError = [f32, f32, f32]"
definition BinderTransactionDataPtrs :: "field_layout list" where
  "BinderTransactionDataPtrs = [f64, f64]"
definition BinderTransactionData :: "field_layout list" where
  "BinderTransactionData =
     [f64, f64, f32, f32, f32, f32, f64, f64, nested BinderTransactionDataPtrs]"
definition BinderTransactionDataSecCtx :: "field_layout list" where
  "BinderTransactionDataSecCtx = [nested BinderTransactionData, f64]"
definition BinderTransactionDataSg :: "field_layout list" where
  "BinderTransactionDataSg = [nested BinderTransactionData, f64]"
definition BinderPtrCookie :: "field_layout list" where "BinderPtrCookie = [f64, f64]"
definition BinderPriorityPtrCookie :: "field_layout list" where
  "BinderPriorityPtrCookie = [f32, f64, f64]"
definition BinderHandleCookie :: "field_layout list" where "BinderHandleCookie = [f32, f64]"
definition BinderfsDevice :: "field_layout list" where
  "BinderfsDevice = [(256, 1), f32, f32]"
definition BinderFrozenStateInfo :: "field_layout list" where
  "BinderFrozenStateInfo = [f64, f32, f32]"
definition BinderPriorityDesc :: "field_layout list" where "BinderPriorityDesc = [f32, f32]"

lemmas layout_defs =
  layout_size_def layout_size_packed_def layout_align_def round_up_def nested_def f32_def f64_def
  BinderObjectHeader_def FlatBinderObject_def BinderFdObject_def BinderBufferObject_def
  BinderFdArrayObject_def BinderWriteRead_def BinderVersion_def BinderExtendedError_def
  BinderTransactionDataPtrs_def BinderTransactionData_def BinderTransactionDataSecCtx_def
  BinderTransactionDataSg_def BinderPtrCookie_def BinderPriorityPtrCookie_def
  BinderHandleCookie_def BinderfsDevice_def BinderFrozenStateInfo_def BinderPriorityDesc_def

text \<open>\<open>BinderHandleCookie\<close> is \<open>repr(C, packed)\<close>, the others are \<open>repr(C)\<close>.\<close>

lemma struct_sizes [binder_sizes, simp]:
  "layout_size BinderObjectHeader = 4" "layout_size FlatBinderObject = 24"
  "layout_size BinderFdObject = 24" "layout_size BinderBufferObject = 40"
  "layout_size BinderFdArrayObject = 32" "layout_size BinderWriteRead = 48"
  "layout_size BinderVersion = 4" "layout_size BinderExtendedError = 12"
  "layout_size BinderTransactionData = 64" "layout_size BinderTransactionDataSecCtx = 72"
  "layout_size BinderTransactionDataSg = 72" "layout_size BinderPtrCookie = 16"
  "layout_size BinderPriorityPtrCookie = 24" "layout_size_packed BinderHandleCookie = 12"
  "layout_size BinderfsDevice = 264" "layout_size BinderFrozenStateInfo = 16"
  "layout_size BinderPriorityDesc = 8"
  by (simp_all add: layout_defs)

lemma struct_aligns [binder_sizes, simp]:
  "layout_align FlatBinderObject = 8" "layout_align BinderFdObject = 8"
  "layout_align BinderBufferObject = 8" "layout_align BinderFdArrayObject = 8"
  by (simp_all add: layout_defs)

section \<open>Unions\<close>

text \<open>
  A union of a \<open>usize\<close> and a 4-byte member is one word. Writing the small member
  leaves the upper half as whatever memory held, the argument \<open>junk\<close>.
\<close>

definition union_write32 :: "u32 \<Rightarrow> u32 \<Rightarrow> usize" where
  "union_write32 junk v = push_bit 32 (ucast junk) OR ucast v"

definition union_read32 :: "usize \<Rightarrow> u32" where
  "union_read32 w = ucast w"

lemma union_read_write32 [simp]: "union_read32 (union_write32 junk v) = v"
  unfolding union_read32_def union_write32_def
  by (rule bit_word_eqI) (auto simp: bit_simps)

section \<open>Structures and their bytes\<close>

record flat_binder_object =
  hdr_type :: binder_type
  flags :: u32
  obj_data :: usize
  cookie :: usize

definition enc_flat :: "flat_binder_object \<Rightarrow> byte list" where
  "enc_flat x = u32_bytes (hdr_type x) @ u32_bytes (flags x) @ u64_bytes (obj_data x) @
     u64_bytes (cookie x)"

definition dec_flat :: "byte list \<Rightarrow> flat_binder_object" where
  "dec_flat bs = \<lparr>hdr_type = u32_of bs, flags = u32_of (drop 4 bs),
     obj_data = u64_of (drop 8 bs), cookie = u64_of (drop 16 bs)\<rparr>"

text \<open>Reading only the header of an object.\<close>

definition dec_header :: "byte list \<Rightarrow> binder_type" where
  "dec_header bs = u32_of bs"

record binder_fd_object =
  fd_hdr_type :: binder_type
  pad_flags :: u32
  fd_data :: usize
  fd_cookie :: usize

definition enc_fd :: "binder_fd_object \<Rightarrow> byte list" where
  "enc_fd x = u32_bytes (fd_hdr_type x) @ u32_bytes (pad_flags x) @ u64_bytes (fd_data x) @
     u64_bytes (fd_cookie x)"

definition dec_fd :: "byte list \<Rightarrow> binder_fd_object" where
  "dec_fd bs = \<lparr>fd_hdr_type = u32_of bs, pad_flags = u32_of (drop 4 bs),
     fd_data = u64_of (drop 8 bs), fd_cookie = u64_of (drop 16 bs)\<rparr>"

record binder_buffer_object =
  buf_hdr_type :: binder_type
  buf_flags :: u32
  buffer :: usize
  buf_length :: usize
  buf_parent :: usize
  buf_parent_offset :: usize

definition enc_buffer :: "binder_buffer_object \<Rightarrow> byte list" where
  "enc_buffer x = u32_bytes (buf_hdr_type x) @ u32_bytes (buf_flags x) @ u64_bytes (buffer x) @
     u64_bytes (buf_length x) @ u64_bytes (buf_parent x) @ u64_bytes (buf_parent_offset x)"

record binder_fd_array_object =
  fda_hdr_type :: binder_type
  fda_pad :: u32
  num_fds :: usize
  fda_parent :: usize
  fda_parent_offset :: usize

definition enc_fd_array :: "binder_fd_array_object \<Rightarrow> byte list" where
  "enc_fd_array x = u32_bytes (fda_hdr_type x) @ u32_bytes (fda_pad x) @ u64_bytes (num_fds x) @
     u64_bytes (fda_parent x) @ u64_bytes (fda_parent_offset x)"

record transaction_data =
  target :: usize
  td_cookie :: usize
  code :: u32
  td_flags :: u32
  sender_pid :: i32
  sender_euid :: u32
  data_size :: usize
  offsets_size :: usize
  data_buffer :: usize
  data_offsets :: usize

definition enc_transaction :: "transaction_data \<Rightarrow> byte list" where
  "enc_transaction t = u64_bytes (target t) @ u64_bytes (td_cookie t) @ u32_bytes (code t) @
     u32_bytes (td_flags t) @ u32_bytes (sender_pid t) @ u32_bytes (sender_euid t) @
     u64_bytes (data_size t) @ u64_bytes (offsets_size t) @
     u64_bytes (data_buffer t) @ u64_bytes (data_offsets t)"

definition dec_transaction :: "byte list \<Rightarrow> transaction_data" where
  "dec_transaction bs = \<lparr>target = u64_of bs, td_cookie = u64_of (drop 8 bs),
     code = u32_of (drop 16 bs), td_flags = u32_of (drop 20 bs),
     sender_pid = u32_of (drop 24 bs), sender_euid = u32_of (drop 28 bs),
     data_size = u64_of (drop 32 bs), offsets_size = u64_of (drop 40 bs),
     data_buffer = u64_of (drop 48 bs), data_offsets = u64_of (drop 56 bs)\<rparr>"

record ptr_cookie =
  pc_ptr :: usize
  pc_cookie :: usize

definition enc_ptr_cookie :: "ptr_cookie \<Rightarrow> byte list" where
  "enc_ptr_cookie x = u64_bytes (pc_ptr x) @ u64_bytes (pc_cookie x)"

definition dec_ptr_cookie :: "byte list \<Rightarrow> ptr_cookie" where
  "dec_ptr_cookie bs = \<lparr>pc_ptr = u64_of bs, pc_cookie = u64_of (drop 8 bs)\<rparr>"

text \<open>\<open>BinderHandleCookie\<close> is packed: the cookie follows the handle directly.\<close>

record handle_cookie =
  hc_handle :: u32
  hc_cookie :: usize

definition enc_handle_cookie :: "handle_cookie \<Rightarrow> byte list" where
  "enc_handle_cookie x = u32_bytes (hc_handle x) @ u64_bytes (hc_cookie x)"

definition dec_handle_cookie :: "byte list \<Rightarrow> handle_cookie" where
  "dec_handle_cookie bs = \<lparr>hc_handle = u32_of bs, hc_cookie = u64_of (drop 4 bs)\<rparr>"

lemmas struct_codec_defs =
  enc_flat_def dec_flat_def enc_fd_def dec_fd_def enc_transaction_def dec_transaction_def
  enc_ptr_cookie_def dec_ptr_cookie_def enc_handle_cookie_def dec_handle_cookie_def

lemma length_enc [simp]:
  "length (enc_flat f) = 24" "length (enc_fd d) = 24" "length (enc_buffer b) = 40"
  "length (enc_fd_array a) = 32" "length (enc_transaction t) = 64"
  "length (enc_ptr_cookie p) = 16" "length (enc_handle_cookie h) = 12"
  by (simp_all add: struct_codec_defs enc_buffer_def enc_fd_array_def)

interpretation flat_codec: byte_codec enc_flat dec_flat 24
  by unfold_locales (simp_all add: struct_codec_defs)

interpretation fd_codec: byte_codec enc_fd dec_fd 24
  by unfold_locales (simp_all add: struct_codec_defs)

interpretation transaction_codec: byte_codec enc_transaction dec_transaction 64
  by unfold_locales (simp_all add: struct_codec_defs)

interpretation ptr_cookie_codec: byte_codec enc_ptr_cookie dec_ptr_cookie 16
  by unfold_locales (simp_all add: struct_codec_defs)

interpretation handle_cookie_codec: byte_codec enc_handle_cookie dec_handle_cookie 12
  by unfold_locales (simp_all add: struct_codec_defs)

lemma dec_header_enc [simp]:
  "dec_header (enc_flat f @ rest) = hdr_type f" "dec_header (enc_fd d @ rest) = fd_hdr_type d"
  "dec_header (enc_buffer b @ rest) = buf_hdr_type b"
  "dec_header (enc_fd_array a @ rest) = fda_hdr_type a"
  by (simp_all add: dec_header_def struct_codec_defs enc_buffer_def enc_fd_array_def)

lemma dec_header_take [simp]: "4 \<le> n \<Longrightarrow> dec_header (take n bs) = dec_header bs"
  by (simp add: dec_header_def)

section \<open>Command and return codes\<close>

datatype ioc_dir = Dir_None | Dir_Read | Dir_Write | Dir_Read_Write

text \<open>The opcode function: direction, group, number, size of the argument.\<close>

type_synonym ioc_fn = "ioc_dir \<Rightarrow> u8 \<Rightarrow> u8 \<Rightarrow> nat \<Rightarrow> u32"

datatype binder_command =
    BC_TRANSACTION | BC_REPLY | BC_ACQUIRE_RESULT | BC_FREE_BUFFER | BC_INCREFS | BC_ACQUIRE
  | BC_RELEASE | BC_DECREFS | BC_INCREFS_DONE | BC_ACQUIRE_DONE | BC_ATTEMPT_ACQUIRE
  | BC_REGISTER_LOOPER | BC_ENTER_LOOPER | BC_EXIT_LOOPER | BC_REQUEST_DEATH_NOTIFICATION
  | BC_CLEAR_DEATH_NOTIFICATION | BC_DEAD_BINDER_DONE | BC_TRANSACTION_SG | BC_REPLY_SG
  | BC_REQUEST_FREEZE_NOTIFICATION | BC_CLEAR_FREEZE_NOTIFICATION | BC_FREEZE_NOTIFICATION_DONE

text \<open>The arguments of \<open>write\<close> and \<open>none\<close> in the declaration; \<open>b'c'\<close> is 99.\<close>

fun command_spec :: "binder_command \<Rightarrow> ioc_dir \<times> u8 \<times> nat" where
  "command_spec BC_TRANSACTION = (Dir_Write, 0, layout_size BinderTransactionData)"
| "command_spec BC_REPLY = (Dir_Write, 1, layout_size BinderTransactionData)"
| "command_spec BC_ACQUIRE_RESULT = (Dir_Write, 2, 4)"
| "command_spec BC_FREE_BUFFER = (Dir_Write, 3, 8)"
| "command_spec BC_INCREFS = (Dir_Write, 4, 4)"
| "command_spec BC_ACQUIRE = (Dir_Write, 5, 4)"
| "command_spec BC_RELEASE = (Dir_Write, 6, 4)"
| "command_spec BC_DECREFS = (Dir_Write, 7, 4)"
| "command_spec BC_INCREFS_DONE = (Dir_Write, 8, layout_size BinderPtrCookie)"
| "command_spec BC_ACQUIRE_DONE = (Dir_Write, 9, layout_size BinderPtrCookie)"
| "command_spec BC_ATTEMPT_ACQUIRE = (Dir_Write, 10, layout_size BinderPriorityDesc)"
| "command_spec BC_REGISTER_LOOPER = (Dir_None, 11, 0)"
| "command_spec BC_ENTER_LOOPER = (Dir_None, 12, 0)"
| "command_spec BC_EXIT_LOOPER = (Dir_None, 13, 0)"
| "command_spec BC_REQUEST_DEATH_NOTIFICATION =
     (Dir_Write, 14, layout_size_packed BinderHandleCookie)"
| "command_spec BC_CLEAR_DEATH_NOTIFICATION =
     (Dir_Write, 15, layout_size_packed BinderHandleCookie)"
| "command_spec BC_DEAD_BINDER_DONE = (Dir_Write, 16, 8)"
| "command_spec BC_TRANSACTION_SG = (Dir_Write, 17, layout_size BinderTransactionDataSg)"
| "command_spec BC_REPLY_SG = (Dir_Write, 18, layout_size BinderTransactionDataSg)"
| "command_spec BC_REQUEST_FREEZE_NOTIFICATION =
     (Dir_Write, 19, layout_size_packed BinderHandleCookie)"
| "command_spec BC_CLEAR_FREEZE_NOTIFICATION =
     (Dir_Write, 20, layout_size_packed BinderHandleCookie)"
| "command_spec BC_FREEZE_NOTIFICATION_DONE = (Dir_Write, 21, 8)"

definition command_code :: "ioc_fn \<Rightarrow> binder_command \<Rightarrow> u32" where
  "command_code ioc c = (case command_spec c of (d, n, s) \<Rightarrow> ioc d 99 n s)"

datatype binder_return =
    BR_ERROR | BR_OK | BR_TRANSACTION_SEC_CTX | BR_TRANSACTION | BR_REPLY | BR_ACQUIRE_RESULT
  | BR_DEAD_REPLY | BR_TRANSACTION_COMPLETE | BR_INCREFS | BR_ACQUIRE | BR_RELEASE | BR_DECREFS
  | BR_ATTEMPT_ACQUIRE | BR_NOOP | BR_SPAWN_LOOPER | BR_FINISHED | BR_DEAD_BINDER
  | BR_CLEAR_DEATH_NOTIFICATION_DONE | BR_FAILED_REPLY | BR_FROZEN_REPLY
  | BR_ONEWAY_SPAM_SUSPECT | BR_TRANSACTION_PENDING_FROZEN | BR_FROZEN_BINDER
  | BR_CLEAR_FREEZE_NOTIFICATION_DONE

text \<open>\<open>b'r'\<close> is 114; both transaction returns have number 2 and differ in their size.\<close>

fun return_spec :: "binder_return \<Rightarrow> ioc_dir \<times> u8 \<times> nat" where
  "return_spec BR_ERROR = (Dir_Read, 0, 4)"
| "return_spec BR_OK = (Dir_None, 1, 0)"
| "return_spec BR_TRANSACTION_SEC_CTX = (Dir_Read, 2, layout_size BinderTransactionDataSecCtx)"
| "return_spec BR_TRANSACTION = (Dir_Read, 2, layout_size BinderTransactionData)"
| "return_spec BR_REPLY = (Dir_Read, 3, layout_size BinderTransactionData)"
| "return_spec BR_ACQUIRE_RESULT = (Dir_Read, 4, 4)"
| "return_spec BR_DEAD_REPLY = (Dir_None, 5, 0)"
| "return_spec BR_TRANSACTION_COMPLETE = (Dir_None, 6, 0)"
| "return_spec BR_INCREFS = (Dir_Read, 7, layout_size BinderPtrCookie)"
| "return_spec BR_ACQUIRE = (Dir_Read, 8, layout_size BinderPtrCookie)"
| "return_spec BR_RELEASE = (Dir_Read, 9, layout_size BinderPtrCookie)"
| "return_spec BR_DECREFS = (Dir_Read, 10, layout_size BinderPtrCookie)"
| "return_spec BR_ATTEMPT_ACQUIRE = (Dir_Read, 11, layout_size BinderPriorityPtrCookie)"
| "return_spec BR_NOOP = (Dir_None, 12, 0)"
| "return_spec BR_SPAWN_LOOPER = (Dir_None, 13, 0)"
| "return_spec BR_FINISHED = (Dir_None, 14, 0)"
| "return_spec BR_DEAD_BINDER = (Dir_Read, 15, 8)"
| "return_spec BR_CLEAR_DEATH_NOTIFICATION_DONE = (Dir_Read, 16, 8)"
| "return_spec BR_FAILED_REPLY = (Dir_None, 17, 0)"
| "return_spec BR_FROZEN_REPLY = (Dir_None, 18, 0)"
| "return_spec BR_ONEWAY_SPAM_SUSPECT = (Dir_None, 19, 0)"
| "return_spec BR_TRANSACTION_PENDING_FROZEN = (Dir_None, 20, 0)"
| "return_spec BR_FROZEN_BINDER = (Dir_Read, 21, layout_size BinderFrozenStateInfo)"
| "return_spec BR_CLEAR_FREEZE_NOTIFICATION_DONE = (Dir_Read, 22, 8)"

definition return_code :: "ioc_fn \<Rightarrow> binder_return \<Rightarrow> u32" where
  "return_code ioc r = (case return_spec r of (d, n, s) \<Rightarrow> ioc d 114 n s)"

definition all_returns :: "binder_return list" where
  "all_returns = [BR_ERROR, BR_OK, BR_TRANSACTION_SEC_CTX, BR_TRANSACTION, BR_REPLY,
     BR_ACQUIRE_RESULT, BR_DEAD_REPLY, BR_TRANSACTION_COMPLETE, BR_INCREFS, BR_ACQUIRE,
     BR_RELEASE, BR_DECREFS, BR_ATTEMPT_ACQUIRE, BR_NOOP, BR_SPAWN_LOOPER, BR_FINISHED,
     BR_DEAD_BINDER, BR_CLEAR_DEATH_NOTIFICATION_DONE, BR_FAILED_REPLY, BR_FROZEN_REPLY,
     BR_ONEWAY_SPAM_SUSPECT, BR_TRANSACTION_PENDING_FROZEN, BR_FROZEN_BINDER,
     BR_CLEAR_FREEZE_NOTIFICATION_DONE]"

text \<open>
  The \<open>match\<close> on a received code: the first constant it equals, in the order of the
  arms, or the catch-all arm.
\<close>

definition match_return :: "ioc_fn \<Rightarrow> u32 \<Rightarrow> binder_return option" where
  "match_return ioc v = find (\<lambda>r. return_code ioc r = v) all_returns"

lemma set_all_returns: "set all_returns = UNIV"
proof -
  have "r \<in> set all_returns" for r
    by (cases r) (simp_all add: all_returns_def)
  then show ?thesis by blast
qed

lemma return_spec_inj: "return_spec r = return_spec r' \<Longrightarrow> r = r'"
  by (cases r; cases r'; simp)

lemma command_spec_inj: "command_spec c = command_spec c' \<Longrightarrow> c = c'"
  by (cases c; cases c'; simp)

lemma spec_size_bounds: "snd (snd (return_spec r)) < 2 ^ 14" "snd (snd (command_spec c)) < 2 ^ 14"
  by (cases r; simp) (cases c; simp)

text \<open>
  What the program relies on of the opcode functions: they encode the direction, the
  group, the number and the size in separate bit fields (14 bits for the size), so
  different requests have different codes.
\<close>

locale ioctl_opcode =
  fixes ioc :: ioc_fn
  assumes ioc_inj: "s < 2 ^ 14 \<Longrightarrow> s' < 2 ^ 14 \<Longrightarrow> ioc d g n s = ioc d' g' n' s' \<Longrightarrow>
    d = d' \<and> g = g' \<and> n = n' \<and> s = s'"
begin

lemma return_code_inj: "return_code ioc r = return_code ioc r' \<Longrightarrow> r = r'"
proof -
  assume eq: "return_code ioc r = return_code ioc r'"
  obtain d n s d' n' s' where sp: "return_spec r = (d, n, s)" "return_spec r' = (d', n', s')"
    by (metis prod_cases3)
  with spec_size_bounds(1) [of r] spec_size_bounds(1) [of r'] have "s < 2 ^ 14" "s' < 2 ^ 14"
    by simp_all
  from ioc_inj [OF this] eq sp have "return_spec r = return_spec r'"
    by (auto simp: return_code_def)
  then show "r = r'" by (rule return_spec_inj)
qed

lemma command_code_inj: "command_code ioc c = command_code ioc c' \<Longrightarrow> c = c'"
proof -
  assume eq: "command_code ioc c = command_code ioc c'"
  obtain d n s d' n' s' where sp: "command_spec c = (d, n, s)" "command_spec c' = (d', n', s')"
    by (metis prod_cases3)
  with spec_size_bounds(2) [of c] spec_size_bounds(2) [of c'] have "s < 2 ^ 14" "s' < 2 ^ 14"
    by simp_all
  from ioc_inj [OF this] eq sp have "command_spec c = command_spec c'"
    by (auto simp: command_code_def)
  then show "c = c'" by (rule command_spec_inj)
qed

lemma match_return_code: "match_return ioc (return_code ioc r) = Some r"
proof -
  have "match_return ioc (return_code ioc r) \<noteq> None"
    using set_all_returns by (auto simp: match_return_def find_None_iff)
  then obtain r' where r': "match_return ioc (return_code ioc r) = Some r'" by blast
  then have "return_code ioc r' = return_code ioc r"
    by (auto simp: match_return_def find_Some_iff)
  then have "r' = r" by (rule return_code_inj)
  with r' show ?thesis by simp
qed

lemma match_return_Some_iff: "match_return ioc v = Some r \<longleftrightarrow> v = return_code ioc r"
  using match_return_code by (auto simp: match_return_def find_Some_iff)

end

text \<open>
  The encoding of \<open>asm-generic/ioctl.h\<close>, the one these functions document for the
  common Linux targets, as the instance of the parameter.
\<close>

fun dir_bits :: "ioc_dir \<Rightarrow> nat" where
  "dir_bits Dir_None = 0"
| "dir_bits Dir_Write = 1"
| "dir_bits Dir_Read = 2"
| "dir_bits Dir_Read_Write = 3"

definition linux_ioc :: ioc_fn where
  "linux_ioc d g n s = word_of_nat (dir_bits d * 2 ^ 30 + s * 2 ^ 16 + unat g * 2 ^ 8 + unat n)"

lemma dir_bits_less: "dir_bits d < 4"
  by (cases d) simp_all

lemma dir_bits_inj: "dir_bits d = dir_bits d' \<Longrightarrow> d = d'"
  by (cases d; cases d'; simp)

lemma unat_u8_less: "unat (b :: u8) < 256"
proof -
  have "unat b < 2 ^ LENGTH(8)" by (rule unsigned_less)
  then show ?thesis by simp
qed

lemma unat_linux_ioc:
  assumes "s < 2 ^ 14"
  shows "unat (linux_ioc d g n s) = dir_bits d * 2 ^ 30 + s * 2 ^ 16 + unat g * 2 ^ 8 + unat n"
proof -
  let ?k = "dir_bits d * 2 ^ 30 + s * 2 ^ 16 + unat g * 2 ^ 8 + unat n"
  have "?k < 2 ^ LENGTH(32)"
    using assms dir_bits_less [of d] unat_u8_less [of g] unat_u8_less [of n] by simp
  moreover have "unat (word_of_nat ?k :: u32) = ?k mod 2 ^ LENGTH(32)"
    by (rule unat_of_nat)
  ultimately show ?thesis
    unfolding linux_ioc_def by (metis mod_less)
qed

lemma linux_ioc_inj:
  assumes b: "s < 2 ^ 14" "s' < 2 ^ 14" and eq: "linux_ioc d g n s = linux_ioc d' g' n' s'"
  shows "d = d' \<and> g = g' \<and> n = n' \<and> s = s'"
proof -
  have e: "dir_bits d * 2 ^ 30 + s * 2 ^ 16 + unat g * 2 ^ 8 + unat n =
      dir_bits d' * 2 ^ 30 + s' * 2 ^ 16 + unat g' * 2 ^ 8 + unat n'"
    using b eq by (metis unat_linux_ioc)
  note less = b unat_u8_less [of g] unat_u8_less [of n] unat_u8_less [of g'] unat_u8_less [of n']
  have "dir_bits d = dir_bits d'" using e less by simp
  moreover have "s = s'" using e less calculation by simp
  moreover have "unat g = unat g'" using e less calculation by simp
  moreover have "unat n = unat n'" using e calculation by simp
  ultimately show ?thesis by (simp add: dir_bits_inj word_unat_eq_iff)
qed

interpretation linux: ioctl_opcode linux_ioc
  by unfold_locales (rule linux_ioc_inj)

end
