(* ===== verification/Device_Files.thy ===== *)
theory Device_Files
  imports Binder_Sys
begin

text \<open>
  Device files: \<open>src/src/fs.rs\<close>, which mounts binderfs and allocates devices on it, and
  \<open>src/src/test_pool.rs\<close>, which claims one of a pool of prepared devices.

  The file system is what its calls answer: an error or the value. The calls that change
  it are recorded in the order the code makes them. Names and paths are byte strings and
  character lists.
\<close>

section \<open>binderfs\<close>

datatype io_error = NotADirectory | InvalidInput | Os_Error nat

datatype fs_call = Create_Dir_All | Mount_Binder | Open_Control

record mount_env =
  path_exists :: bool
  create_dir_result :: "io_error option"
  path_is_dir :: bool
  findmnt_output :: "string option"
  mount_result :: "io_error option"
  control_open :: "io_error + nat"

text \<open>\<open>str.contains(pat)\<close>\<close>

fun starts_with :: "string \<Rightarrow> string \<Rightarrow> bool" where
  "starts_with [] s = True"
| "starts_with (p # ps) [] = False"
| "starts_with (p # ps) (c # cs) = (p = c \<and> starts_with ps cs)"

fun str_contains :: "string \<Rightarrow> string \<Rightarrow> bool" where
  "str_contains [] p = (p = [])"
| "str_contains (c # cs) p = (starts_with p (c # cs) \<or> str_contains cs p)"

definition dq :: char where "dq = CHR 0x22"

text \<open>\<open>findmnt\<close> that cannot be run is a panic of \<open>expect\<close>.\<close>

definition is_mounted :: "mount_env \<Rightarrow> bool outcome" where
  "is_mounted env = (case findmnt_output env of None \<Rightarrow> Inl Unwrap_Failed
     | Some str \<Rightarrow> Inr (str_contains str (''SOURCE='' @ [dq] @ ''binder'' @ [dq]) \<and>
         str_contains str (''FSTYPE='' @ [dq] @ ''binder'' @ [dq])))"

definition mount :: "mount_env \<Rightarrow> (io_error + nat) outcome \<times> fs_call list" where
  "mount env =
     (let calls1 = (if path_exists env then [] else [Create_Dir_All]);
          err1 = (if path_exists env then None else create_dir_result env) in
      case err1 of Some e \<Rightarrow> (Inr (Inl e), calls1)
      | None \<Rightarrow>
        if \<not> path_is_dir env then (Inr (Inl NotADirectory), calls1)
        else (case is_mounted env of Inl p \<Rightarrow> (Inl p, calls1)
          | Inr mounted \<Rightarrow>
            let calls2 = calls1 @ (if mounted then [] else [Mount_Binder]);
                err2 = (if mounted then None else mount_result env) in
            case err2 of Some e \<Rightarrow> (Inr (Inl e), calls2)
            | None \<Rightarrow> (Inr (control_open env), calls2 @ [Open_Control])))"

record binderfs_device =
  bfd_name :: "byte list"
  bfd_major :: u32
  bfd_minor :: u32

definition default_binderfs_device :: binderfs_device where
  "default_binderfs_device = \<lparr>bfd_name = replicate 256 0, bfd_major = 0, bfd_minor = 0\<rparr>"

text \<open>\<open>dst[..n].copy_from_slice(src)\<close> for a source of length n.\<close>

definition copy_prefix :: "byte list \<Rightarrow> byte list \<Rightarrow> byte list outcome" where
  "copy_prefix dst src = (if length src \<le> length dst then Inr (src @ drop (length src) dst)
     else Inl Slice_Out_Of_Range)"

text \<open>\<open>Path::join\<close>: an absolute name replaces the path, and no slash is doubled.\<close>

definition path_join :: "byte list \<Rightarrow> byte list \<Rightarrow> byte list" where
  "path_join path name = (if name \<noteq> [] \<and> hd name = 47 then name
     else if path = [] \<or> last path = 47 then path @ name else path @ [47] @ name)"

text \<open>
  The \<open>BINDER_CTL_ADD\<close> call gets the structure; the result is the descriptor of the opened
  device or an error, and the structure if the call was made.
\<close>

definition create_device :: "(binderfs_device \<Rightarrow> io_error option) \<Rightarrow> (byte list \<Rightarrow> io_error + nat) \<Rightarrow>
    byte list \<Rightarrow> byte list \<Rightarrow> ((io_error + nat) \<times> binderfs_device option) outcome" where
  "create_device ctl_add opened path name =
     (if length name > 255 then Inr (Inl InvalidInput, None)
      else bind_out (copy_prefix (bfd_name default_binderfs_device) name) (\<lambda>bytes.
        let device = default_binderfs_device\<lparr>bfd_name := bytes\<rparr> in
        case ctl_add device of Some e \<Rightarrow> Inr (Inl e, Some device)
        | None \<Rightarrow> Inr (opened (path_join path name), Some device)))"

text \<open>How the kernel reads the name: up to the first zero byte.\<close>

definition c_string :: "byte list \<Rightarrow> byte list" where
  "c_string bs = takeWhile (\<lambda>b. b \<noteq> 0) bs"

text \<open>A device is asked for by exactly its name: a name of up to 255 bytes without a zero byte
  fills the fixed buffer of 256 bytes so that the kernel reads back the very name, terminated; a
  longer name is refused before any call; the copy never goes out of range.\<close>

theorem create_device_name:
  "create_device ctl_add opened path name =
     (if 255 < length name then Inr (Inl InvalidInput, None)
      else let device = default_binderfs_device\<lparr>bfd_name := name @ replicate (256 - length name) 0\<rparr> in
        Inr (case ctl_add device of Some e \<Rightarrow> Inl e | None \<Rightarrow> opened (path_join path name), Some device)) \<and>
   (255 < length name \<or> 0 \<in> set name \<or>
     length (name @ replicate (256 - length name) 0) = 256 \<and>
     c_string (name @ replicate (256 - length name) 0) = name)"
proof -
  have "c_string (name @ replicate k 0) = name" if "0 \<notin> set name" for k
    using that by (induction name) (auto simp: c_string_def)
  then show ?thesis
    by (auto simp: create_device_def copy_prefix_def default_binderfs_device_def Let_def
        split: option.split)
qed

text \<open>Mounting is done only when needed and in order: the directory is created exactly when it
  does not exist; binderfs is mounted exactly when the path is a directory on which \<open>findmnt\<close>
  reports none; the control device is opened last, and a descriptor is returned only from there.\<close>

theorem mount_only_when_needed:
  "(Create_Dir_All \<in> set (snd (mount env)) \<longleftrightarrow> \<not> path_exists env) \<and>
   (Mount_Binder \<in> set (snd (mount env)) \<longleftrightarrow>
      (path_exists env \<or> create_dir_result env = None) \<and> path_is_dir env \<and> is_mounted env = Inr False) \<and>
   (fst (mount env) = Inr (Inr fd) \<longleftrightarrow>
      control_open env = Inr fd \<and> snd (mount env) \<noteq> [] \<and> last (snd (mount env)) = Open_Control)"
  by (auto simp: mount_def Let_def split: option.splits sum.splits if_splits)

section \<open>The pool of test devices\<close>

definition DEFAULT_POOL_SIZE :: nat where "DEFAULT_POOL_SIZE = 16"

definition digit_value :: "char \<Rightarrow> nat option" where
  "digit_value c = (let k = of_char c in if 48 \<le> k \<and> k \<le> (57 :: nat) then Some (k - 48) else None)"

text \<open>\<open>str::parse::<usize>\<close>: an optional plus, then digits, none on overflow.\<close>

primrec parse_digits :: "nat \<Rightarrow> string \<Rightarrow> nat option" where
  "parse_digits acc [] = Some acc"
| "parse_digits acc (c # cs) = (case digit_value c of None \<Rightarrow> None
     | Some v \<Rightarrow> if acc * 10 + v < 2 ^ 64 then parse_digits (acc * 10 + v) cs else None)"

definition parse_usize :: "string \<Rightarrow> nat option" where
  "parse_usize s = (case s of [] \<Rightarrow> None
     | c # cs \<Rightarrow> if c = CHR ''+'' then (if cs = [] then None else parse_digits 0 cs)
         else parse_digits 0 s)"

definition pool_size :: "string option \<Rightarrow> nat" where
  "pool_size var = (case Option.bind var parse_usize of None \<Rightarrow> DEFAULT_POOL_SIZE | Some n \<Rightarrow> n)"

datatype lock_answer = Lock_Taken | Would_Block | Lock_Error

text \<open>
  What \<open>acquire\<close> comes to: a node it holds, or a wait for the lock of a node. A missing
  node, mount or lock file is a panic of \<open>assert!\<close> or \<open>panic!\<close>.
\<close>

datatype claim = Claimed nat | Waiting_For nat

record pool_env =
  mount_exists :: bool
  node_exists :: "nat \<Rightarrow> bool"
  try_lock :: "nat \<Rightarrow> lock_answer"

definition try_claim :: "pool_env \<Rightarrow> nat \<Rightarrow> nat option outcome" where
  "try_claim env index =
     (if \<not> node_exists env index then Inr None
      else case try_lock env index of
        Lock_Taken \<Rightarrow> Inr (Some index)
      | Would_Block \<Rightarrow> Inr None
      | Lock_Error \<Rightarrow> Inl Assert_Failed)"

definition block_claim :: "pool_env \<Rightarrow> nat \<Rightarrow> claim outcome" where
  "block_claim env index =
     (if \<not> node_exists env index then Inl Assert_Failed
      else if try_lock env index = Lock_Error then Inl Assert_Failed
      else Inr (Waiting_For index))"

definition usize_rem :: "nat \<Rightarrow> nat \<Rightarrow> nat outcome" where
  "usize_rem a b = (if b = 0 then Inl Division_By_Zero else Inr (a mod b))"

primrec probe :: "profile \<Rightarrow> pool_env \<Rightarrow> nat \<Rightarrow> nat \<Rightarrow> nat list \<Rightarrow> nat option outcome" where
  "probe prof env start sz [] = Inr None"
| "probe prof env start sz (offset # offsets) =
     bind_out (usize_add prof start offset) (\<lambda>s.
     bind_out (usize_rem s sz) (\<lambda>index.
     bind_out (try_claim env index) (\<lambda>node. case node of
       Some i \<Rightarrow> Inr (Some i) | None \<Rightarrow> probe prof env start sz offsets)))"

definition pool_acquire :: "profile \<Rightarrow> pool_env \<Rightarrow> u32 \<Rightarrow> nat \<Rightarrow> claim outcome" where
  "pool_acquire prof env pid sz =
     (if \<not> mount_exists env then Inl Assert_Failed
      else let start = unat pid in
        bind_out (probe prof env start sz [0..<sz]) (\<lambda>found. case found of
          Some i \<Rightarrow> Inr (Claimed i)
        | None \<Rightarrow> bind_out (usize_rem start sz) (block_claim env)))"

text \<open>The nodes in the order they are probed.\<close>

definition probed :: "nat \<Rightarrow> nat \<Rightarrow> nat list" where
  "probed start sz = map (\<lambda>off. (start + off) mod sz) [0..<sz]"

lemma mod_shift_inj:
  assumes "(s + a) mod n = (s + b) mod n" and "a < n" and "b < n"
  shows "a = (b :: nat)"
proof -
  have "(int s + int a) mod int n = (int s + int b) mod int n"
    using assms(1) by (metis of_nat_add of_nat_mod)
  then have "int n dvd int a - int b"
    by (metis add_diff_cancel_left mod_eq_dvd_iff)
  then have "int a mod int n = int b mod int n" by (simp add: mod_eq_dvd_iff)
  with assms(2,3) show ?thesis by (metis mod_less of_nat_eq_iff of_nat_mod)
qed

lemma probed_perm: "distinct (probed start sz) \<and> set (probed start sz) = {0..<sz}"
proof -
  have d: "distinct (probed start sz)"
    unfolding probed_def distinct_map
    by (intro conjI distinct_upt inj_onI) (erule mod_shift_inj, simp_all)
  have "set (probed start sz) \<subseteq> {0..<sz}" by (auto simp: probed_def)
  moreover have "card (set (probed start sz)) = sz"
    using distinct_card [OF d] by (simp add: probed_def)
  ultimately have "set (probed start sz) = {0..<sz}"
    by (intro card_subset_eq) simp_all
  with d show ?thesis by simp
qed

lemma probe_eq:
  assumes "start + sz \<le> 2 ^ 64" and "set offs \<subseteq> {0..<sz}"
    and "\<forall>i < sz. node_exists env i \<longrightarrow> try_lock env i \<noteq> Lock_Error"
  shows "probe prof env start sz offs = Inr (find (\<lambda>i. node_exists env i \<and> try_lock env i = Lock_Taken)
    (map (\<lambda>off. (start + off) mod sz) offs))"
  using assms(2)
proof (induction offs)
  case (Cons off offs)
  then have o: "off < sz" "start + off < 2 ^ 64" using assms(1) by auto
  let ?i = "(start + off) mod sz"
  have "?i < sz" using o(1) by simp
  then have "node_exists env ?i \<longrightarrow> try_lock env ?i \<noteq> Lock_Error" using assms(3) by blast
  then have "try_claim env ?i = Inr (if node_exists env ?i \<and> try_lock env ?i = Lock_Taken then Some ?i else None)"
    by (cases "try_lock env ?i") (simp_all add: try_claim_def)
  moreover have "usize_rem (start + off) sz = Inr ?i" using o(1) by (simp add: usize_rem_def)
  ultimately show ?case using Cons o(2) by simp
qed simp

lemma pool_acquire_result:
  assumes "mount_exists env" and "0 < sz" and "sz \<le> 2 ^ 32"
    and "\<forall>i < sz. node_exists env i \<longrightarrow> try_lock env i \<noteq> Lock_Error"
  shows "case pool_acquire prof env pid sz of
      Inr (Claimed i) \<Rightarrow> i < sz \<and> node_exists env i \<and> try_lock env i = Lock_Taken
    | Inr (Waiting_For i) \<Rightarrow> i < sz \<and> node_exists env i \<and>
        (\<forall>j < sz. node_exists env j \<longrightarrow> try_lock env j = Would_Block)
    | Inl p \<Rightarrow> p = Assert_Failed \<and> (\<exists>i < sz. \<not> node_exists env i) \<and>
        (\<forall>j < sz. node_exists env j \<longrightarrow> try_lock env j = Would_Block)"
proof -
  let ?free = "\<lambda>i. node_exists env i \<and> try_lock env i = Lock_Taken"
  have bound: "unat pid + sz \<le> 2 ^ 64" using unat_u32_less [of pid] assms(3) by simp
  have probe: "probe prof env (unat pid) sz [0..<sz] = Inr (find ?free (probed (unat pid) sz))"
    using probe_eq [OF bound _ assms(4), of "[0..<sz]"] by (auto simp: probed_def)
  have set: "set (probed (unat pid) sz) = {0..<sz}" using probed_perm by blast
  show ?thesis
  proof (cases "find ?free (probed (unat pid) sz)")
    case None
    have none: "try_lock env j = Would_Block" if "j < sz" "node_exists env j" for j
    proof -
      have "try_lock env j \<noteq> Lock_Taken" using None set that by (auto simp: find_None_iff)
      moreover have "try_lock env j \<noteq> Lock_Error" using assms(4) that by blast
      ultimately show ?thesis by (cases "try_lock env j") simp_all
    qed
    have "unat pid mod sz < sz" using assms(2) by simp
    with none have "block_claim env (unat pid mod sz) = (if node_exists env (unat pid mod sz)
        then Inr (Waiting_For (unat pid mod sz)) else Inl Assert_Failed)"
      by (simp add: block_claim_def)
    moreover have "pool_acquire prof env pid sz = block_claim env (unat pid mod sz)"
      using None assms(1,2) probe by (simp add: pool_acquire_def usize_rem_def)
    ultimately show ?thesis using none \<open>unat pid mod sz < sz\<close> by (cases "node_exists env (unat pid mod sz)") auto
  next
    case (Some i)
    then have "?free i \<and> i \<in> set (probed (unat pid) sz)" by (auto simp: find_Some_iff)
    with Some set assms(1) probe show ?thesis by (simp add: pool_acquire_def)
  qed
qed

text \<open>The pool hands out a node whenever one is free: starting anywhere, each node is probed
  exactly once, so \<open>acquire\<close> claims a node exactly if some node of the pool exists and is not
  locked, the node it claims is such a node, and otherwise it waits for a node of the pool, or
  panics when that node is missing.\<close>

theorem pool_acquire_finds_free_node:
  assumes "mount_exists env" and "0 < sz" and "sz \<le> 2 ^ 32"
    and "\<forall>i < sz. node_exists env i \<longrightarrow> try_lock env i \<noteq> Lock_Error"
  shows "case pool_acquire prof env pid sz of
      Inr (Claimed i) \<Rightarrow> i < sz \<and> node_exists env i \<and> try_lock env i = Lock_Taken
    | Inr (Waiting_For i) \<Rightarrow> i < sz \<and> node_exists env i \<and>
        (\<forall>j < sz. node_exists env j \<longrightarrow> try_lock env j = Would_Block)
    | Inl p \<Rightarrow> p = Assert_Failed \<and> (\<exists>i < sz. \<not> node_exists env i) \<and>
        (\<forall>j < sz. node_exists env j \<longrightarrow> try_lock env j = Would_Block)"
  using assms by (rule pool_acquire_result)

theorem pool_acquire_finds_free_node_witness:
  "pool_acquire Checked \<lparr>mount_exists = True, node_exists = (\<lambda>i. True),
     try_lock = (\<lambda>i. if i = 2 then Lock_Taken else Would_Block)\<rparr> 5 4 = Inr (Claimed 2)"
proof -
  let ?env = "\<lparr>mount_exists = True, node_exists = (\<lambda>i. True),
     try_lock = (\<lambda>i. if i = 2 then Lock_Taken else Would_Block)\<rparr>"
  have c: "case pool_acquire Checked ?env 5 4 of
      Inr (Claimed i) \<Rightarrow> i < 4 \<and> node_exists ?env i \<and> try_lock ?env i = Lock_Taken
    | Inr (Waiting_For i) \<Rightarrow> i < 4 \<and> node_exists ?env i \<and>
        (\<forall>j < 4. node_exists ?env j \<longrightarrow> try_lock ?env j = Would_Block)
    | Inl p \<Rightarrow> p = Assert_Failed \<and> (\<exists>i < 4. \<not> node_exists ?env i) \<and>
        (\<forall>j < 4. node_exists ?env j \<longrightarrow> try_lock ?env j = Would_Block)"
    by (rule pool_acquire_finds_free_node) simp_all
  have "try_lock ?env 2 \<noteq> Would_Block" by simp
  with c show ?thesis
  proof (cases "pool_acquire Checked ?env 5 4")
    case (Inr r)
    with c show ?thesis by (cases r) (auto split: if_splits)
  qed auto
qed

text \<open>A pool of size zero, which the environment variable can ask for, is not reported as
  empty: \<open>acquire\<close> divides by the size and panics with a division by zero.\<close>

theorem empty_pool_divides_by_zero:
  "pool_size (Some ''0'') = 0 \<and>
   pool_acquire prof \<lparr>mount_exists = True, node_exists = ne, try_lock = lk\<rparr> pid 0 =
     Inl Division_By_Zero"
  by (simp add: pool_size_def parse_usize_def digit_value_def pool_acquire_def usize_rem_def)

end
