(* ===== verification/Command_Line.thy ===== *)
theory Command_Line
  imports Device_Files
begin

text \<open>
  Command lines: how the programs under \<open>src/examples\<close> look options up and read numbers,
  and the arguments of the benchmark (\<open>parse_args\<close> of \<open>bench.rs\<close>). A vector of arguments is a
  list of character lists; \<open>u64\<close> and \<open>usize\<close> are read by the same \<open>str::parse\<close>.
\<close>

section \<open>Numbers\<close>

text \<open>What \<open>{}\<close> prints for an unsigned number.\<close>

definition digit :: "nat \<Rightarrow> char" where
  "digit v = char_of (48 + v)"

fun decimal :: "nat \<Rightarrow> string" where
  "decimal n = (if n < 10 then [digit n] else decimal (n div 10) @ [digit (n mod 10)])"

declare decimal.simps [simp del]

lemma digit_value_digit [simp]: "v < 10 \<Longrightarrow> digit_value (digit v) = Some v"
  by (simp add: digit_value_def digit_def Let_def)

lemma digit_not_sign: "v < 10 \<Longrightarrow> digit v \<noteq> CHR ''+'' \<and> digit v \<noteq> CHR ''-''"
proof -
  assume "v < 10"
  then have code: "of_char (digit v) = 48 + v" by (simp add: digit_def)
  have "of_char CHR ''+'' = (43 :: nat)" "of_char CHR ''-'' = (45 :: nat)" by simp_all
  with code show ?thesis by (auto)
qed

lemma decimal_digits: "\<forall>c \<in> set (decimal n). \<exists>v < 10. c = digit v"
proof (induction n rule: decimal.induct)
  case (1 n)
  show ?case
    by (subst decimal.simps) (use 1 in \<open>auto intro: exI [of _ "n mod 10"]\<close>)
qed

lemma decimal_not_Nil [simp]: "decimal n \<noteq> []"
  by (subst decimal.simps) simp

lemma decimal_hd: "hd (decimal n) \<noteq> CHR ''+'' \<and> hd (decimal n) \<noteq> CHR ''-''"
  using decimal_digits [of n] digit_not_sign hd_in_set [OF decimal_not_Nil] by metis

lemma parse_digits_append:
  "parse_digits acc (xs @ ys) = Option.bind (parse_digits acc xs) (\<lambda>k. parse_digits k ys)"
  by (induction xs arbitrary: acc) (auto split: option.split)

lemma parse_digits_decimal: "n < 2 ^ 64 \<Longrightarrow> parse_digits 0 (decimal n) = Some n"
proof (induction n rule: decimal.induct)
  case (1 n)
  show ?case
  proof (cases "n < 10")
    case True
    then show ?thesis by (subst decimal.simps) simp
  next
    case False
    have "parse_digits 0 (decimal (n div 10)) = Some (n div 10)"
      using 1 False by simp
    then show ?thesis using False 1(2)
      by (subst decimal.simps) (simp add: parse_digits_append)
  qed
qed

lemma parse_usize_decimal: "n < 2 ^ 64 \<Longrightarrow> parse_usize (decimal n) = Some n"
  using parse_digits_decimal [of n] decimal_hd [of n]
  by (cases "decimal n") (auto simp: parse_usize_def)

lemma decimal_value: "foldl (\<lambda>k c. 10 * k + (of_char c - 48)) 0 (decimal n) = n"
proof (induction n rule: decimal.induct)
  case (1 n)
  then show ?case
    by (subst decimal.simps) (auto simp: digit_def)
qed

lemma decimal_inj [simp]: "decimal m = decimal n \<longleftrightarrow> m = n"
  by (metis decimal_value)

section \<open>Options\<close>

text \<open>
  \<open>argv.iter().position(|a| a == name).and_then(|i| argv.get(i + 1))\<close>: what follows the first
  occurrence, whatever it is.
\<close>

definition arg_value :: "string list \<Rightarrow> string \<Rightarrow> string option" where
  "arg_value argv name = (case dropWhile (\<lambda>a. a \<noteq> name) argv of
     a # v # rest \<Rightarrow> Some v | _ \<Rightarrow> None)"

definition has_flag :: "string list \<Rightarrow> string \<Rightarrow> bool" where
  "has_flag argv name \<longleftrightarrow> name \<in> set argv"

text \<open>\<open>num\<close> of \<open>parse_args\<close>: a value that is missing or does not parse is the default.\<close>

definition arg_num :: "string list \<Rightarrow> string \<Rightarrow> nat \<Rightarrow> nat" where
  "arg_num argv name def = (case Option.bind (arg_value argv name) parse_usize of
     None \<Rightarrow> def | Some n \<Rightarrow> n)"

record bench_args =
  device :: "string option"
  raw_device :: "string option"
  fd_limit :: "nat option"
  jobs :: nat
  loopers :: nat
  iters :: nat
  secs :: nat
  churn :: nat
  soak :: "nat option"

definition parse_args :: "string list \<Rightarrow> bench_args" where
  "parse_args argv = (let quick = has_flag argv ''--quick'' in
     \<lparr>device = arg_value argv ''--device'', raw_device = arg_value argv ''--raw-device'',
      fd_limit = Option.bind (arg_value argv ''--fd-limit'') parse_usize,
      jobs = arg_num argv ''--jobs'' 4, loopers = arg_num argv ''--loopers'' 5,
      iters = arg_num argv ''--iters'' (if quick then 2000 else 20000),
      secs = arg_num argv ''--secs'' (if quick then 1 else 3),
      churn = arg_num argv ''--churn'' (if quick then 5 else 30),
      soak = Option.bind (arg_value argv ''--soak'') parse_usize\<rparr>)"

text \<open>The arguments of a run, written out: each option with its value.\<close>

definition bench_options :: "string list" where
  "bench_options = [''--device'', ''--raw-device'', ''--fd-limit'', ''--jobs'', ''--loopers'',
     ''--iters'', ''--secs'', ''--churn'', ''--soak'']"

definition optional :: "string \<Rightarrow> string option \<Rightarrow> (string \<times> string) list" where
  "optional name v = (case v of None \<Rightarrow> [] | Some x \<Rightarrow> [(name, x)])"

definition option_pairs :: "bench_args \<Rightarrow> (string \<times> string) list" where
  "option_pairs a = optional ''--device'' (device a) @ optional ''--raw-device'' (raw_device a) @
     optional ''--fd-limit'' (map_option decimal (fd_limit a)) @
     [(''--jobs'', decimal (jobs a)), (''--loopers'', decimal (loopers a)),
      (''--iters'', decimal (iters a)), (''--secs'', decimal (secs a)),
      (''--churn'', decimal (churn a))] @ optional ''--soak'' (map_option decimal (soak a))"

definition words_of :: "(string \<times> string) list \<Rightarrow> string list" where
  "words_of kvs = concat (map (\<lambda>(n, v). [n, v]) kvs)"

definition in_range :: "bench_args \<Rightarrow> bool" where
  "in_range a \<longleftrightarrow> (\<forall>n \<in> {jobs a, loopers a, iters a, secs a, churn a} \<union> set_option (fd_limit a) \<union>
     set_option (soak a). n < 2 ^ 64)"

lemma arg_value_words:
  assumes "\<forall>(n, v) \<in> set kvs. v \<noteq> name"
  shows "arg_value (words_of kvs) name = map_of kvs name"
  using assms by (induction kvs) (auto simp: arg_value_def words_of_def)

lemma arg_value_skip: "p \<noteq> name \<Longrightarrow> arg_value (p # argv) name = arg_value argv name"
  by (simp add: arg_value_def)

lemma option_pairs_keys:
  "distinct (map fst (option_pairs a))" "fst ` set (option_pairs a) \<subseteq> set bench_options"
  by (auto simp: option_pairs_def optional_def bench_options_def split: option.splits)

lemma option_pairs_values:
  assumes "(n, v) \<in> set (option_pairs a)"
  shows "Some v = device a \<or> Some v = raw_device a \<or> (\<exists>k. v = decimal k)"
  using assms by (auto simp: option_pairs_def optional_def split: option.splits)

lemma option_pairs_map:
  "map_of (option_pairs a) ''--device'' = device a"
  "map_of (option_pairs a) ''--raw-device'' = raw_device a"
  "map_of (option_pairs a) ''--fd-limit'' = map_option decimal (fd_limit a)"
  "map_of (option_pairs a) ''--jobs'' = Some (decimal (jobs a))"
  "map_of (option_pairs a) ''--loopers'' = Some (decimal (loopers a))"
  "map_of (option_pairs a) ''--iters'' = Some (decimal (iters a))"
  "map_of (option_pairs a) ''--secs'' = Some (decimal (secs a))"
  "map_of (option_pairs a) ''--churn'' = Some (decimal (churn a))"
  "map_of (option_pairs a) ''--soak'' = map_option decimal (soak a)"
  by (simp_all add: option_pairs_def optional_def split: option.split)

lemma in_options:
  "''--device'' \<in> set bench_options" "''--raw-device'' \<in> set bench_options"
  "''--fd-limit'' \<in> set bench_options" "''--jobs'' \<in> set bench_options"
  "''--loopers'' \<in> set bench_options" "''--iters'' \<in> set bench_options"
  "''--secs'' \<in> set bench_options" "''--churn'' \<in> set bench_options"
  "''--soak'' \<in> set bench_options"
  by (simp_all add: bench_options_def)

lemma decimal_no_option: "decimal k \<notin> set (''--quick'' # bench_options)"
proof
  assume "decimal k \<in> set (''--quick'' # bench_options)"
  then have "hd (decimal k) = CHR ''-''" by (auto simp: bench_options_def)
  then show False using decimal_hd by blast
qed

text \<open>The benchmark runs with the arguments it was given: each option written with its value, in
  any order and with or without \<open>--quick\<close>, is read back as that value, as long as numbers fit
  64 bits and no path is itself the name of an option.\<close>

theorem arguments_read_back:
  assumes "set kvs = set (option_pairs a)" and "distinct (map fst kvs)" and "in_range a"
    and "\<forall>p \<in> set_option (device a) \<union> set_option (raw_device a). p \<notin> set bench_options"
    and "program \<notin> set bench_options"
  shows "parse_args (program # (if quick then [''--quick''] else []) @ words_of kvs) = a"
proof -
  have same: "map_of kvs = map_of (option_pairs a)"
    using map_of_inject_set [OF assms(2) option_pairs_keys(1)] assms(1) by blast
  have looked_up: "arg_value (program # (if quick then [''--quick''] else []) @ words_of kvs) name =
      map_of (option_pairs a) name" if name: "name \<in> set bench_options" for name
  proof -
    have vals: "v \<noteq> name" if "(n, v) \<in> set kvs" for n v
    proof -
      have "(n, v) \<in> set (option_pairs a)" using that assms(1) by simp
      then consider "Some v = device a \<or> Some v = raw_device a" | k where "v = decimal k"
        using option_pairs_values by blast
      then show ?thesis
      proof cases
        case 1
        then have "v \<in> set_option (device a) \<union> set_option (raw_device a)"
          by (metis Un_iff option.set_intros)
        with assms(4) name show ?thesis by blast
      next
        case 2
        with decimal_no_option [of k] name show ?thesis by auto
      qed
    qed
    have "arg_value (words_of kvs) name = map_of (option_pairs a) name"
      unfolding same [symmetric] by (rule arg_value_words) (use vals in blast)
    moreover have "program \<noteq> name" using assms(5) name by blast
    moreover have "''--quick'' \<noteq> name" using name by (auto simp: bench_options_def)
    ultimately show ?thesis by (cases quick) (simp_all add: arg_value_skip)
  qed
  have num: "parse_usize (decimal n) = Some n"
    if "n \<in> {jobs a, loopers a, iters a, secs a, churn a} \<union> set_option (fd_limit a) \<union> set_option (soak a)"
    for n using assms(3) that unfolding in_range_def by (intro parse_usize_decimal) blast
  have opt: "Option.bind (map_option decimal (fd_limit a)) parse_usize = fd_limit a"
    "Option.bind (map_option decimal (soak a)) parse_usize = soak a"
    by (cases "fd_limit a"; simp add: num) (cases "soak a"; simp add: num)
  have nums: "parse_usize (decimal (jobs a)) = Some (jobs a)"
    "parse_usize (decimal (loopers a)) = Some (loopers a)"
    "parse_usize (decimal (iters a)) = Some (iters a)"
    "parse_usize (decimal (secs a)) = Some (secs a)"
    "parse_usize (decimal (churn a)) = Some (churn a)"
    by (simp_all add: num)
  show ?thesis
    unfolding parse_args_def Let_def arg_num_def
    by (simp only: looked_up in_options option_pairs_map nums opt Option.bind.simps option.case)
      simp
qed

definition demo_args :: bench_args where
  "demo_args = \<lparr>device = Some ''/dev/binder'', raw_device = None, fd_limit = Some 1024, jobs = 8,
     loopers = 5, iters = 300, secs = 2, churn = 0, soak = None\<rparr>"

theorem arguments_read_back_witness:
  "parse_args (''bench'' # [''--quick''] @ words_of (rev (option_pairs demo_args))) = demo_args"
proof -
  have "distinct (map fst (rev (option_pairs demo_args)))"
    using option_pairs_keys(1) [of demo_args] by (simp add: rev_map [symmetric])
  from arguments_read_back [OF _ this, of demo_args "''bench''" True] show ?thesis
    by (simp add: in_range_def) (simp add: demo_args_def bench_options_def)
qed

end
