(* ===== verification/Pool_Setup.thy ===== *)
theory Pool_Setup
  imports Command_Line
begin

text \<open>
  Provisioning: \<open>examples/setup_test_pool.rs\<close> and \<open>examples/new_device.rs\<close>, which make the device
  nodes that \<open>src/src/test_pool.rs\<close> hands out.

  The file system is a state of its own. The calls the programs make on it are parameters;
  the locale \<open>node_calls\<close> says what is relied on: a call that succeeds does what its name says
  to the named path and nothing else to others. A failing call ends the program with a panic.
\<close>

section \<open>The file system\<close>

type_synonym path = "byte list"

record 'f node_ops =
  op_mount :: "fs_call list \<Rightarrow> 'f \<Rightarrow> 'f"
  op_exists :: "'f \<Rightarrow> path \<Rightarrow> bool"
  op_mode :: "'f \<Rightarrow> path \<Rightarrow> nat"
  op_remove :: "path \<Rightarrow> 'f \<Rightarrow> io_error option \<times> 'f"
  op_add :: "path \<Rightarrow> binderfs_device \<Rightarrow> 'f \<Rightarrow> io_error option \<times> 'f"
  op_open :: "path \<Rightarrow> io_error + nat"
  op_chmod :: "path \<Rightarrow> nat \<Rightarrow> 'f \<Rightarrow> io_error option \<times> 'f"

locale node_calls =
  fixes ops :: "'f node_ops"
  assumes remove_exists: "op_remove ops p f = (None, g) \<Longrightarrow>
      op_exists ops g q \<longleftrightarrow> q \<noteq> p \<and> op_exists ops f q"
    and remove_mode: "op_remove ops p f = (None, g) \<Longrightarrow> q \<noteq> p \<Longrightarrow> op_mode ops g q = op_mode ops f q"
    and add_exists: "op_add ops mnt dev f = (None, g) \<Longrightarrow>
      op_exists ops g q \<longleftrightarrow> q = path_join mnt (c_string (bfd_name dev)) \<or> op_exists ops f q"
    and add_mode: "op_add ops mnt dev f = (None, g) \<Longrightarrow>
      q \<noteq> path_join mnt (c_string (bfd_name dev)) \<Longrightarrow> op_mode ops g q = op_mode ops f q"
    and chmod_exists: "op_chmod ops p m f = (None, g) \<Longrightarrow> op_exists ops g q = op_exists ops f q"
    and chmod_mode: "op_chmod ops p m f = (None, g) \<Longrightarrow>
      op_mode ops g q = (if q = p then m else op_mode ops f q)"

section \<open>One node\<close>

text \<open>\<open>create_device\<close> on the file system: the \<open>BINDER_CTL_ADD\<close> call, then the open.\<close>

definition create_node :: "'f node_ops \<Rightarrow> path \<Rightarrow> byte list \<Rightarrow> ('f, io_error + nat) action" where
  "create_node ops mnt name f =
     (case create_device (\<lambda>dev. fst (op_add ops mnt dev f)) (op_open ops) mnt name of
        Inl p \<Rightarrow> (Inl p, f)
      | Inr (res, None) \<Rightarrow> (Inr res, f)
      | Inr (res, Some dev) \<Rightarrow> (Inr res, snd (op_add ops mnt dev f)))"

text \<open>\<open>expect\<close>, and \<open>unwrap_or_else\<close> with a \<open>panic!\<close>.\<close>

definition expect_call :: "('f \<Rightarrow> io_error option \<times> 'f) \<Rightarrow> ('f, unit) action" where
  "expect_call call f = (case call f of
     (None, g) \<Rightarrow> (Inr (), g) | (Some e, g) \<Rightarrow> (Inl Unwrap_Failed, g))"

text \<open>The mode \<open>0o666\<close>.\<close>

definition ALL_READ_WRITE :: nat where "ALL_READ_WRITE = 438"

definition provision_node :: "'f node_ops \<Rightarrow> path \<Rightarrow> byte list \<Rightarrow> ('f, unit) action" where
  "provision_node ops mnt name =
     (let p = path_join mnt name in
      bind (reads (\<lambda>f. op_exists ops f p)) (\<lambda>ex.
      bind (if ex then expect_call (op_remove ops p) else ret ()) (\<lambda>_.
      bind (create_node ops mnt name) (\<lambda>fd. case fd of
        Inl e \<Rightarrow> panic_with Unwrap_Failed
      | Inr _ \<Rightarrow> expect_call (op_chmod ops p ALL_READ_WRITE)))))"

section \<open>The pool\<close>

definition POOL_PREFIX :: string where "POOL_PREFIX = ''bb-test-''"

definition DEFAULT_BINDERFS_PATH :: path where
  "DEFAULT_BINDERFS_PATH = map of_char ''/dev/binderfs''"

definition node_name :: "nat \<Rightarrow> byte list" where
  "node_name i = map of_char (POOL_PREFIX @ decimal i)"

definition mount_path :: "path option \<Rightarrow> path" where
  "mount_path var = (case var of None \<Rightarrow> DEFAULT_BINDERFS_PATH | Some p \<Rightarrow> p)"

definition node_path :: "path option \<Rightarrow> nat \<Rightarrow> path" where
  "node_path var i = path_join (mount_path var) (node_name i)"

primrec provision_all :: "'f node_ops \<Rightarrow> path \<Rightarrow> nat list \<Rightarrow> ('f, unit) action" where
  "provision_all ops mnt [] = ret ()"
| "provision_all ops mnt (i # is) =
     bind (provision_node ops mnt (node_name i)) (\<lambda>_. provision_all ops mnt is)"

definition setup_size :: "string list \<Rightarrow> string option \<Rightarrow> nat" where
  "setup_size args var = arg_num args ''--pool-size'' (pool_size var)"

datatype exit = Exit nat | Finished

definition missing_nodes :: "'f node_ops \<Rightarrow> path option \<Rightarrow> nat \<Rightarrow> 'f \<Rightarrow> path list" where
  "missing_nodes ops var sz f = filter (\<lambda>p. \<not> op_exists ops f p) (map (node_path var) [0..<sz])"

definition mount_default :: "'f node_ops \<Rightarrow> mount_env \<Rightarrow> ('f, unit) action" where
  "mount_default ops env f = (case mount env of
     (Inl p, calls) \<Rightarrow> (Inl p, op_mount ops calls f)
   | (Inr (Inl e), calls) \<Rightarrow> (Inl Unwrap_Failed, op_mount ops calls f)
   | (Inr (Inr fd), calls) \<Rightarrow> (Inr (), op_mount ops calls f))"

text \<open>
  The message before the loop prints \<open>size - 1\<close>. \<open>root\<close> is the answer of \<open>is_root\<close>; the two
  variables are those of the environment.
\<close>

definition setup_test_pool :: "profile \<Rightarrow> 'f node_ops \<Rightarrow> mount_env \<Rightarrow> bool \<Rightarrow> string list \<Rightarrow>
    string option \<Rightarrow> path option \<Rightarrow> ('f, exit) action" where
  "setup_test_pool prof ops env root args size_var mount_var =
     (let sz = setup_size args size_var in
      if has_flag args ''--check''
      then reads (\<lambda>f. Exit (if missing_nodes ops mount_var sz f = [] then 0 else 1))
      else if \<not> root then ret (Exit 1)
      else bind (mount_default ops env) (\<lambda>_.
        bind (of_outcome (usize_sub prof sz 1)) (\<lambda>_.
        bind (provision_all ops DEFAULT_BINDERFS_PATH [0..<sz]) (\<lambda>_. ret Finished))))"

section \<open>A single device\<close>

definition testbinder :: "byte list" where "testbinder = map of_char ''testbinder''"

definition new_device_main :: "'f node_ops \<Rightarrow> mount_env \<Rightarrow> bool \<Rightarrow> string list \<Rightarrow> ('f, exit) action" where
  "new_device_main ops env root args =
     (if has_flag args ''--check''
      then reads (\<lambda>f. Exit (if op_exists ops f (path_join DEFAULT_BINDERFS_PATH testbinder) then 0 else 1))
      else if \<not> root then ret (Exit 1)
      else bind (mount_default ops env) (\<lambda>_.
        bind (provision_node ops DEFAULT_BINDERFS_PATH testbinder) (\<lambda>_. ret Finished)))"

section \<open>Names\<close>

lemma unat_of_char: "unat (of_char c :: byte) = of_char c"
proof -
  have "(of_char c :: byte) = word_of_nat (of_char c)" by (simp add: of_nat_of_char)
  moreover have "(of_char c :: nat) < 2 ^ 8" using nat_of_char_less_256 [of c] by simp
  ultimately show ?thesis by (simp add: unat_of_nat)
qed

lemma of_char_byte_eq [simp]: "(of_char c :: byte) = of_char e \<longleftrightarrow> c = e"
  using unat_of_char [of c] unat_of_char [of e] by (metis of_char_eqI)

lemma digit_byte: "v < 10 \<Longrightarrow> (of_char (digit v) :: byte) \<noteq> 0"
  using unat_of_char [of "digit v"] by (auto simp: digit_def)

lemma node_name_nonzero: "0 \<notin> set (node_name i)"
proof -
  have "(0 :: byte) \<notin> of_char ` set (decimal i)"
    using decimal_digits [of i] digit_byte by (metis imageE)
  moreover have "(0 :: byte) \<notin> of_char ` set POOL_PREFIX" by (simp add: POOL_PREFIX_def)
  ultimately show ?thesis by (auto simp: node_name_def)
qed

lemma node_name_bytes: "node_name i \<noteq> []" "hd (node_name i) \<noteq> 47"
  by (simp_all add: node_name_def POOL_PREFIX_def)

lemma path_join_inj:
  assumes "a \<noteq> []" "hd a \<noteq> 47" "b \<noteq> []" "hd b \<noteq> 47"
  shows "path_join mnt a = path_join mnt b \<longleftrightarrow> a = b"
  using assms by (simp add: path_join_def)

lemma node_name_inj: "node_name i = node_name j \<longleftrightarrow> i = j"
proof -
  have inj: "map (of_char :: char \<Rightarrow> byte) xs = map of_char ys \<longleftrightarrow> xs = ys" for xs ys
    by (rule inj_map_eq_map) (simp add: inj_on_def)
  show ?thesis by (simp add: node_name_def inj)
qed

lemma node_path_inj: "node_path var i = node_path var j \<longleftrightarrow> i = j"
  by (simp add: node_path_def path_join_inj node_name_bytes node_name_inj)

section \<open>What provisioning leaves behind\<close>

context node_calls begin

lemma node_created:
  assumes "create_node ops mnt name f = (Inr (Inr fd), g)" and "0 \<notin> set name"
  shows "op_exists ops g q \<longleftrightarrow> q = path_join mnt name \<or> op_exists ops f q"
    and "q \<noteq> path_join mnt name \<Longrightarrow> op_mode ops g q = op_mode ops f q"
proof -
  define dev where "dev = default_binderfs_device\<lparr>bfd_name := name @ replicate (256 - length name) 0\<rparr>"
  have made: "length name \<le> 255" "op_add ops mnt dev f = (None, g)"
    using assms(1) unfolding create_node_def create_device_name [THEN conjunct1] dev_def Let_def
    by (auto split: if_splits option.splits simp: prod_eq_iff)
  have "c_string (bfd_name dev) = name"
    using create_device_name [THEN conjunct2, of name] made(1) assms(2)
    by (auto simp: dev_def default_binderfs_device_def)
  with add_exists [OF made(2)] add_mode [OF made(2)]
  show "op_exists ops g q \<longleftrightarrow> q = path_join mnt name \<or> op_exists ops f q"
    "q \<noteq> path_join mnt name \<Longrightarrow> op_mode ops g q = op_mode ops f q" by simp_all
qed

lemma node_provisioned:
  assumes "provision_node ops mnt name f = (Inr u, g)" and "0 \<notin> set name"
  shows "(op_exists ops g q \<longleftrightarrow> q = path_join mnt name \<or> op_exists ops f q) \<and>
    op_mode ops g q = (if q = path_join mnt name then ALL_READ_WRITE else op_mode ops f q)"
proof -
  let ?p = "path_join mnt name"
  obtain f1 f2 fd where steps:
    "(if op_exists ops f ?p then expect_call (op_remove ops ?p) else ret ()) f = (Inr (), f1)"
    "create_node ops mnt name f1 = (Inr (Inr fd), f2)"
    "expect_call (op_chmod ops ?p ALL_READ_WRITE) f2 = (Inr u, g)"
    using assms(1) by (auto simp: provision_node_def Let_def reads_def elim!: bind_Inr_cases
        split: sum.splits)
  have rm: "(q = ?p \<or> op_exists ops f1 q \<longleftrightarrow> q = ?p \<or> op_exists ops f q) \<and>
      (q \<noteq> ?p \<longrightarrow> op_mode ops f1 q = op_mode ops f q)"
    using steps(1) by (auto simp: expect_call_def ret_def remove_exists remove_mode
        split: if_splits option.splits prod.splits)
  have ch: "op_chmod ops ?p ALL_READ_WRITE f2 = (None, g)"
    using steps(3) by (auto simp: expect_call_def split: option.splits prod.splits)
  show ?thesis
    using rm node_created [OF steps(2) assms(2)] chmod_exists [OF ch] chmod_mode [OF ch] by auto
qed

lemma all_provisioned:
  assumes "provision_all ops mnt is f = (Inr u, g)"
  shows "(op_exists ops g q \<longleftrightarrow> (\<exists>i \<in> set is. q = path_join mnt (node_name i)) \<or> op_exists ops f q) \<and>
    op_mode ops g q = (if \<exists>i \<in> set is. q = path_join mnt (node_name i) then ALL_READ_WRITE
      else op_mode ops f q)"
  using assms
proof (induction "is" arbitrary: f)
  case (Cons i "is")
  then obtain f1 where step: "provision_node ops mnt (node_name i) f = (Inr (), f1)"
    "provision_all ops mnt is f1 = (Inr u, g)"
    by (auto elim!: bind_Inr_cases)
  from Cons.IH [OF step(2)] node_provisioned [OF step(1) node_name_nonzero, of q] show ?case by auto
qed (auto simp: ret_def)

end

text \<open>What a successful run comes to.\<close>

lemma setup_finished:
  assumes "setup_test_pool prof ops env root args size_var mount_var f = (Inr Finished, g)"
  shows "\<not> has_flag args ''--check'' \<and> root \<and> (\<exists>fd. fst (mount env) = Inr (Inr fd)) \<and>
    provision_all ops DEFAULT_BINDERFS_PATH [0..<setup_size args size_var]
      (op_mount ops (snd (mount env)) f) = (Inr (), g)"
  using assms
  by (auto simp: setup_test_pool_def mount_default_def Let_def reads_def ret_def of_outcome_def
      elim!: bind_Inr_cases split: if_splits sum.splits prod.splits)

text \<open>The environment of a test process that uses the default mount.\<close>

definition pool_env_of :: "'f node_ops \<Rightarrow> 'f \<Rightarrow> (nat \<Rightarrow> lock_answer) \<Rightarrow> pool_env" where
  "pool_env_of ops f locks = \<lparr>mount_exists = True, node_exists = (\<lambda>i. op_exists ops f (node_path None i)),
     try_lock = locks\<rparr>"


text \<open>A single device is made the same way.\<close>

theorem new_device_ready:
  assumes "node_calls ops" and "new_device_main ops env root args f = (Inr Finished, g)"
  shows "op_exists ops g (path_join DEFAULT_BINDERFS_PATH testbinder) \<and>
    op_mode ops g (path_join DEFAULT_BINDERFS_PATH testbinder) = ALL_READ_WRITE \<and>
    new_device_main ops env1 root1 [''--check''] g = (Inr (Exit 0), g)"
proof -
  have "provision_node ops DEFAULT_BINDERFS_PATH testbinder (op_mount ops (snd (mount env)) f) = (Inr (), g)"
    using assms(2) by (auto simp: new_device_main_def mount_default_def Let_def reads_def ret_def
        elim!: bind_Inr_cases split: if_splits sum.splits prod.splits)
  moreover have "0 \<notin> set testbinder" by (simp add: testbinder_def)
  ultimately show ?thesis
    using node_calls.node_provisioned [OF assms(1), of DEFAULT_BINDERFS_PATH testbinder _ "()" g
        "path_join DEFAULT_BINDERFS_PATH testbinder"]
    by (simp add: new_device_main_def has_flag_def reads_def)
qed

text \<open>\<open>--pool-size 0\<close> ends the set-up with an arithmetic overflow where overflow is checked: the
  message before the loop subtracts one from the size, after binderfs has been mounted.\<close>

theorem empty_set_up_panics:
  assumes "fst (mount env) = Inr (Inr fd)"
  shows "setup_test_pool Checked ops env True [''setup'', ''--pool-size'', ''0''] var mnt f =
    (Inl Arithmetic_Overflow, op_mount ops (snd (mount env)) f)"
  using assms
  by (cases "mount env") (simp add: setup_test_pool_def has_flag_def setup_size_def arg_num_def arg_value_def
      parse_usize_def digit_value_def mount_default_def bind_def of_outcome_def usize_sub_def)

section \<open>A file system\<close>

text \<open>A file system that is a map from paths to modes: calls fail exactly when a path that is
  needed is missing, or one that must be new is there.\<close>

definition map_ops :: "(path \<rightharpoonup> nat) node_ops" where
  "map_ops = \<lparr>op_mount = (\<lambda>calls f. f), op_exists = (\<lambda>f p. f p \<noteq> None),
     op_mode = (\<lambda>f p. case f p of None \<Rightarrow> 0 | Some m \<Rightarrow> m),
     op_remove = (\<lambda>p f. if f p = None then (Some (Os_Error 2), f) else (None, f(p := None))),
     op_add = (\<lambda>mnt dev f. let p = path_join mnt (c_string (bfd_name dev)) in
       if f p = None then (None, f(p \<mapsto> 384)) else (Some (Os_Error 17), f)),
     op_open = (\<lambda>p. Inr 3),
     op_chmod = (\<lambda>p m f. if f p = None then (Some (Os_Error 2), f) else (None, f(p \<mapsto> m)))\<rparr>"

interpretation map_fs: node_calls map_ops
  by unfold_locales (auto simp: map_ops_def Let_def split: if_splits)

definition plain_env :: mount_env where
  "plain_env = \<lparr>path_exists = True, create_dir_result = None, path_is_dir = True,
     findmnt_output = Some [], mount_result = None, control_open = Inr 3\<rparr>"

lemma plain_mount: "fst (mount plain_env) = Inr (Inr 3)"
  by (simp add: mount_def plain_env_def is_mounted_def)

lemma map_provision_node:
  assumes "length name \<le> 255" and "0 \<notin> set name"
  shows "\<exists>g. provision_node map_ops mnt name f = (Inr (), g)"
proof -
  let ?p = "path_join mnt name"
  let ?dev = "default_binderfs_device\<lparr>bfd_name := name @ replicate (256 - length name) 0\<rparr>"
  have c: "c_string (bfd_name ?dev) = name"
    using create_device_name [THEN conjunct2, of name] assms by (auto simp: default_binderfs_device_def)
  have made: "\<exists>g. create_node map_ops mnt name h = (Inr (Inr 3), g) \<and> g ?p \<noteq> None" if "h ?p = None" for h
  proof -
    have "op_add map_ops mnt ?dev h = (None, h(?p \<mapsto> 384))"
      using that c by (simp add: map_ops_def Let_def)
    then show ?thesis
      using assms(1) unfolding create_node_def create_device_name [THEN conjunct1] Let_def
      by (simp add: map_ops_def)
  qed
  define h where "h = f(?p := None)"
  have "(if op_exists map_ops f ?p then expect_call (op_remove map_ops ?p) else ret ()) f = (Inr (), h)"
    by (auto simp: map_ops_def expect_call_def ret_def h_def fun_upd_idem)
  moreover obtain g where "create_node map_ops mnt name h = (Inr (Inr 3), g)" "g ?p \<noteq> None"
    using made [of h] by (auto simp: h_def)
  moreover from this(2) have "\<exists>k. expect_call (op_chmod map_ops ?p ALL_READ_WRITE) g = (Inr (), k)"
    by (simp add: expect_call_def map_ops_def)
  ultimately show ?thesis by (auto simp: provision_node_def Let_def bind_def reads_def)
qed

lemma map_provision_all:
  assumes "\<forall>i \<in> set is. length (node_name i) \<le> 255"
  shows "\<exists>g. provision_all map_ops mnt is f = (Inr (), g)"
  using assms
proof (induction "is" arbitrary: f)
  case (Cons i "is")
  obtain f1 where "provision_node map_ops mnt (node_name i) f = (Inr (), f1)"
    using map_provision_node node_name_nonzero Cons.prems by (metis list.set_intros(1))
  with Cons show ?case by (simp add: bind_def)
qed (simp add: ret_def)

lemma setup_size_two: "a \<noteq> ''--pool-size'' \<Longrightarrow> setup_size (a # [''--pool-size'', ''2''] @ rest) None = 2"
  by (simp add: setup_size_def arg_num_def arg_value_def parse_usize_def digit_value_def)

lemma demo_run:
  "\<exists>g. setup_test_pool Checked map_ops plain_env True [''setup'', ''--pool-size'', ''2''] None var f =
    (Inr Finished, g)"
proof -
  have "length (decimal i) = 1" if "i < 10" for i
    by (subst decimal.simps) (simp add: that)
  then have "\<forall>i \<in> set [0..<2]. length (node_name i) \<le> 255"
    by (simp add: node_name_def POOL_PREFIX_def)
  then obtain g where "provision_all map_ops DEFAULT_BINDERFS_PATH [0..<2] f = (Inr (), g)"
    using map_provision_all by blast
  moreover have "op_mount map_ops cs f = f" for cs f by (simp add: map_ops_def)
  ultimately have "setup_test_pool Checked map_ops plain_env True [''setup'', ''--pool-size'', ''2''] None var f =
      (Inr Finished, g)"
    using plain_mount setup_size_two [of "''setup''" "[]"]
    by (cases "mount plain_env") (simp add: setup_test_pool_def has_flag_def mount_default_def bind_def
        of_outcome_def usize_sub_def ret_def)
  then show ?thesis by blast
qed


text \<open>The tool makes its nodes under the default mount only: with \<open>BINDERBINDER_TEST_MOUNT\<close> set to another
  directory, it finishes, and its own check on what it has made fails.\<close>

theorem set_up_ignores_test_mount:
  "\<exists>g. setup_test_pool Checked map_ops plain_env True [''setup'', ''--pool-size'', ''2''] None
       (Some [47, 109]) Map.empty = (Inr Finished, g) \<and>
     setup_test_pool Checked map_ops plain_env True
       (''setup'' # [''--pool-size'', ''2''] @ [''--check'']) None (Some [47, 109]) g = (Inr (Exit 1), g)"
proof -
  obtain g where run: "setup_test_pool Checked map_ops plain_env True [''setup'', ''--pool-size'', ''2'']
      None (Some [47, 109]) Map.empty = (Inr Finished, g)"
    using demo_run by blast
  have "provision_all map_ops DEFAULT_BINDERFS_PATH [0..<2] Map.empty = (Inr (), g)"
    using setup_finished [OF run] setup_size_two [of "''setup''" "[]"] by (simp add: map_ops_def)
  moreover have "node_path (Some [47, 109]) 0 \<noteq> path_join DEFAULT_BINDERFS_PATH (node_name i)" for i
    by (simp add: node_path_def mount_path_def path_join_def node_name_bytes DEFAULT_BINDERFS_PATH_def)
  ultimately have "\<not> op_exists map_ops g (node_path (Some [47, 109]) 0)"
    using map_fs.all_provisioned [of DEFAULT_BINDERFS_PATH "[0..<2]" Map.empty "()" g] by (simp add: map_ops_def)
  then have "missing_nodes map_ops (Some [47, 109]) 2 g \<noteq> []"
    by (auto simp: missing_nodes_def filter_empty_conv)
  then have "setup_test_pool Checked map_ops plain_env True
      (''setup'' # [''--pool-size'', ''2''] @ [''--check'']) None (Some [47, 109]) g = (Inr (Exit 1), g)"
    using setup_size_two [of "''setup''" "[''--check'']"]
    by (simp add: setup_test_pool_def has_flag_def reads_def)
  with run show ?thesis by blast
qed

end
