(* ===== verification/Object_Ref_State.thy ===== *)
theory Object_Ref_State
  imports Binder_Sys
begin

text \<open>
  The strong-reference counts of a local object: \<open>RefCounts\<close> and \<open>ObjectRefState\<close> of
  \<open>src/src/device.rs\<close>.

  The mutex makes each update one atomic step, so concurrent use is a sequence of
  operations. The mutex is modelled with its poisoning: a closure or a \<open>total\<close> that
  panics while the guard is held poisons it, and every later \<open>lock().unwrap()\<close> panics.
  The watch channel is its current value, \<open>strong_count\<close>; a receiver's \<open>wait_for\<close>
  looks at that value.
\<close>

record binder_object_id =
  id_raw :: usize
  id_cookie :: usize

definition from_raw :: "usize \<Rightarrow> usize \<Rightarrow> binder_object_id" where
  "from_raw binder ck = \<lparr>id_raw = binder, id_cookie = ck\<rparr>"

record ref_counts =
  local :: u32
  remote :: u32
  pending :: u32

definition zero_counts :: ref_counts where
  "zero_counts = \<lparr>local = 0, remote = 0, pending = 0\<rparr>"

text \<open>\<open>self.local + self.remote + self.pending\<close>\<close>

definition total :: "profile \<Rightarrow> ref_counts \<Rightarrow> u32 outcome" where
  "total prof c =
     bind_out (add_checked prof (local c) (remote c)) (\<lambda>s. add_checked prof s (pending c))"

record object_ref_state =
  ors_id :: binder_object_id
  counts :: ref_counts
  poisoned :: bool
  strong_count :: u32

definition new_ref_state :: "binder_object_id \<Rightarrow> object_ref_state" where
  "new_ref_state i = \<lparr>ors_id = i, counts = zero_counts, poisoned = False, strong_count = 0\<rparr>"

definition update :: "profile \<Rightarrow> (ref_counts \<Rightarrow> ref_counts outcome) \<Rightarrow>
    (object_ref_state, ref_counts) action" where
  "update prof f st =
     (if poisoned st then (Inl Lock_Poisoned, st)
      else case f (counts st) of
        Inl p \<Rightarrow> (Inl p, st\<lparr>poisoned := True\<rparr>)
      | Inr c \<Rightarrow>
          (case total prof c of
             Inl p \<Rightarrow> (Inl p, st\<lparr>counts := c, poisoned := True\<rparr>)
           | Inr t \<Rightarrow> (Inr c, st\<lparr>counts := c, strong_count := t\<rparr>)))"

definition increase_local :: "profile \<Rightarrow> (object_ref_state, ref_counts) action" where
  "increase_local prof = update prof
     (\<lambda>c. bind_out (add_checked prof (local c) 1) (\<lambda>n. Inr (c\<lparr>local := n\<rparr>)))"

definition decrease_local :: "profile \<Rightarrow> (object_ref_state, ref_counts) action" where
  "decrease_local prof = update prof
     (\<lambda>c. bind_out (sub_checked prof (local c) 1) (\<lambda>n. Inr (c\<lparr>local := n\<rparr>)))"

definition increase_remote :: "profile \<Rightarrow> (object_ref_state, ref_counts) action" where
  "increase_remote prof = update prof
     (\<lambda>c. bind_out (add_checked prof (remote c) 1) (\<lambda>n. Inr (c\<lparr>remote := n, pending := 0\<rparr>)))"

definition decrease_remote :: "profile \<Rightarrow> (object_ref_state, ref_counts) action" where
  "decrease_remote prof = update prof
     (\<lambda>c. bind_out (sub_checked prof (remote c) 1) (\<lambda>n. Inr (c\<lparr>remote := n\<rparr>)))"

definition mark_pending_remote :: "profile \<Rightarrow> (object_ref_state, ref_counts) action" where
  "mark_pending_remote prof = update prof
     (\<lambda>c. if remote c = 0
          then bind_out (add_checked prof (pending c) 1) (\<lambda>n. Inr (c\<lparr>pending := n\<rparr>))
          else Inr c)"

definition clear_pending_remote :: "profile \<Rightarrow> (object_ref_state, ref_counts) action" where
  "clear_pending_remote prof = update prof
     (\<lambda>c. Inr (c\<lparr>pending := saturating_sub (pending c) 1\<rparr>))"

text \<open>Any interleaving of the threads is a sequence of these operations.\<close>

datatype ref_op = Inc_Local | Dec_Local | Inc_Remote | Dec_Remote | Mark_Pending | Clear_Pending

fun ref_step :: "profile \<Rightarrow> ref_op \<Rightarrow> (object_ref_state, ref_counts) action" where
  "ref_step prof Inc_Local = increase_local prof"
| "ref_step prof Dec_Local = decrease_local prof"
| "ref_step prof Inc_Remote = increase_remote prof"
| "ref_step prof Dec_Remote = decrease_remote prof"
| "ref_step prof Mark_Pending = mark_pending_remote prof"
| "ref_step prof Clear_Pending = clear_pending_remote prof"

text \<open>The state after all of them; a panic ends one thread, the others go on.\<close>

definition run_refs :: "profile \<Rightarrow> ref_op list \<Rightarrow> object_ref_state \<Rightarrow> object_ref_state" where
  "run_refs prof ops st = fold (\<lambda>op s. snd (ref_step prof op s)) ops st"

lemmas ref_op_defs =
  increase_local_def decrease_local_def increase_remote_def decrease_remote_def
  mark_pending_remote_def clear_pending_remote_def

lemma run_refs_simps [simp]:
  "run_refs prof [] st = st"
  "run_refs prof (op # ops) st = run_refs prof ops (snd (ref_step prof op st))"
  by (simp_all add: run_refs_def)

section \<open>The lock and the published value\<close>

text \<open>An update is the only writer: facts about every operation come from it.\<close>

lemma ref_step_is_update: "\<exists>f. ref_step prof op = update prof f"
  by (cases op) (auto simp: ref_op_defs)

lemma update_Inr_iff:
  "update prof f st = (Inr c, st') \<longleftrightarrow>
     \<not> poisoned st \<and> f (counts st) = Inr c \<and>
     (\<exists>t. total prof c = Inr t \<and> st' = st\<lparr>counts := c, strong_count := t\<rparr>)"
  by (auto simp: update_def split: sum.splits)

lemma update_id [simp]: "ors_id (snd (update prof f st)) = ors_id st"
  by (simp add: update_def split: sum.splits)

lemma ref_step_id [simp]: "ors_id (snd (ref_step prof op st)) = ors_id st"
  using ref_step_is_update [of prof op] by auto

lemma update_poisoned: "poisoned st \<Longrightarrow> update prof f st = (Inl Lock_Poisoned, st)"
  by (simp add: update_def)

definition published :: "profile \<Rightarrow> object_ref_state \<Rightarrow> bool" where
  "published prof st \<longleftrightarrow> poisoned st \<or> total prof (counts st) = Inr (strong_count st)"

lemma total_zero [simp]: "total prof zero_counts = Inr 0"
  by (simp add: total_def zero_counts_def add_checked_def)

lemma published_new: "published prof (new_ref_state i)"
  by (simp add: published_def new_ref_state_def)

lemma published_update: "published prof st \<Longrightarrow> published prof (snd (update prof f st))"
  by (auto simp: published_def update_def split: sum.splits)

lemma published_step: "published prof st \<Longrightarrow> published prof (snd (ref_step prof op st))"
  using ref_step_is_update [of prof op] published_update by auto

lemma published_run: "published prof st \<Longrightarrow> published prof (run_refs prof ops st)"
  by (induction ops arbitrary: st) (auto simp: published_step)

lemma total_Checked_Inr:
  "total Checked c = Inr t \<longleftrightarrow>
     unat t = unat (local c) + unat (remote c) + unat (pending c)"
proof
  assume "total Checked c = Inr t"
  then show "unat t = unat (local c) + unat (remote c) + unat (pending c)"
    by (auto simp: total_def bind_out_eq_Inr dest!: add_checked_Inr)
next
  assume t: "unat t = unat (local c) + unat (remote c) + unat (pending c)"
  have lt: "unat t < 2 ^ LENGTH(32)" by (rule unsigned_less)
  have s: "unat (local c + remote c) = unat (local c) + unat (remote c)"
    using t lt by (simp add: unat_word_ariths)
  have "unat (local c + remote c + pending c) = unat t"
    using t lt s by (simp add: unat_word_ariths)
  then have "local c + remote c + pending c = t"
    by (simp add: word_unat_eq_iff)
  with t lt s show "total Checked c = Inr t"
    by (simp add: total_def add_checked_def)
qed

lemma total_Wrapping [simp]: "total Wrapping c = Inr (local c + remote c + pending c)"
  by (simp add: total_def add_checked_def)

section \<open>The abstract counts\<close>

text \<open>
  What the counts mean: three natural numbers, an operation that would take a
  reference nobody holds is refused, a total beyond 32 bits does not exist.
\<close>

type_synonym abs_counts = "nat \<times> nat \<times> nat"

fun abs_total :: "abs_counts \<Rightarrow> nat" where
  "abs_total (l, r, p) = l + r + p"

fun abs_op :: "ref_op \<Rightarrow> abs_counts \<Rightarrow> abs_counts option" where
  "abs_op Inc_Local (l, r, p) = Some (Suc l, r, p)"
| "abs_op Dec_Local (l, r, p) = (if l = 0 then None else Some (l - 1, r, p))"
| "abs_op Inc_Remote (l, r, p) = Some (l, Suc r, 0)"
| "abs_op Dec_Remote (l, r, p) = (if r = 0 then None else Some (l, r - 1, p))"
| "abs_op Mark_Pending (l, r, p) = Some (l, r, if r = 0 then Suc p else p)"
| "abs_op Clear_Pending (l, r, p) = Some (l, r, p - 1)"

definition abs_step :: "ref_op \<Rightarrow> abs_counts \<Rightarrow> abs_counts option" where
  "abs_step op a =
     (case abs_op op a of None \<Rightarrow> None
      | Some b \<Rightarrow> if abs_total b < 2 ^ 32 then Some b else None)"

fun abs_run :: "ref_op list \<Rightarrow> abs_counts \<Rightarrow> abs_counts option" where
  "abs_run [] a = Some a"
| "abs_run (op # ops) a = (case abs_step op a of None \<Rightarrow> None | Some b \<Rightarrow> abs_run ops b)"

definition abs_of :: "object_ref_state \<Rightarrow> abs_counts" where
  "abs_of st = (unat (local (counts st)), unat (remote (counts st)), unat (pending (counts st)))"

definition ref_ok :: "object_ref_state \<Rightarrow> bool" where
  "ref_ok st \<longleftrightarrow> \<not> poisoned st \<and> unat (strong_count st) = abs_total (abs_of st)"

lemma ref_ok_new: "ref_ok (new_ref_state i)"
  by (simp add: ref_ok_def new_ref_state_def abs_of_def zero_counts_def)

definition nats_of :: "ref_counts \<Rightarrow> abs_counts" where
  "nats_of c = (unat (local c), unat (remote c), unat (pending c))"

lemma abs_of_nats: "abs_of st = nats_of (counts st)"
  by (simp add: abs_of_def nats_of_def)

lemma total_Checked_nat: "abs_total (nats_of c) < 2 ^ 32 \<Longrightarrow> \<exists>t. total Checked c = Inr t"
  unfolding total_Checked_Inr nats_of_def
  by (rule exI [where x = "word_of_nat (abs_total (nats_of c))"])
    (simp only: unat_u32_of_nat nats_of_def abs_total.simps)

lemma total_Checked_big:
  assumes "2 ^ 32 \<le> abs_total (nats_of c)"
  shows "total Checked c = Inl Arithmetic_Overflow"
proof (cases "total Checked c")
  case (Inl p)
  then show ?thesis by (auto simp: total_def add_checked_def split: if_splits)
next
  case (Inr t)
  with assms have "2 ^ 32 \<le> unat t" by (simp add: total_Checked_Inr nats_of_def)
  with unat_u32_less [of t] show ?thesis by simp
qed

text \<open>How a closure acts on the three numbers decides what an update does.\<close>

lemma update_ok:
  assumes "\<not> poisoned st" and "f (counts st) = Inr c" and "abs_total (nats_of c) < 2 ^ 32"
  shows "fst (update Checked f st) = Inr c" "abs_of (snd (update Checked f st)) = nats_of c"
    "ref_ok (snd (update Checked f st))"
proof -
  from total_Checked_nat [OF assms(3)] obtain t where t: "total Checked c = Inr t" ..
  then have "unat t = abs_total (nats_of c)"
    by (simp add: total_Checked_Inr nats_of_def)
  with t assms(1,2) show "fst (update Checked f st) = Inr c"
    "abs_of (snd (update Checked f st)) = nats_of c" "ref_ok (snd (update Checked f st))"
    by (simp_all add: update_def abs_of_nats ref_ok_def)
qed

lemma update_fails:
  assumes "\<not> poisoned st"
    and "\<And>c. f (counts st) = Inr c \<Longrightarrow> 2 ^ 32 \<le> abs_total (nats_of c)"
    and "\<And>p. f (counts st) = Inl p \<Longrightarrow> p = Arithmetic_Overflow"
  shows "fst (update Checked f st) = Inl Arithmetic_Overflow"
    "poisoned (snd (update Checked f st))"
  using assms by (auto simp: update_def total_Checked_big split: sum.splits)

lemma unat_plus1: "unat w + 1 < 2 ^ 32 \<Longrightarrow> unat (w + 1 :: u32) = unat w + 1"
  by (simp add: unat_word_ariths)

lemma unat_minus1: "w \<noteq> 0 \<Longrightarrow> unat (w - 1 :: u32) = unat w - 1"
  by (simp add: unat_minus_one)

lemma word_less_1: "w < (1 :: u32) \<longleftrightarrow> unat w = 0"
  by (simp add: word_less_nat_alt)

definition closure_of :: "ref_op \<Rightarrow> ref_counts \<Rightarrow> ref_counts outcome" where
  "closure_of op = (case op of
     Inc_Local \<Rightarrow> \<lambda>c. bind_out (add_checked Checked (local c) 1) (\<lambda>n. Inr (c\<lparr>local := n\<rparr>))
   | Dec_Local \<Rightarrow> \<lambda>c. bind_out (sub_checked Checked (local c) 1) (\<lambda>n. Inr (c\<lparr>local := n\<rparr>))
   | Inc_Remote \<Rightarrow> \<lambda>c. bind_out (add_checked Checked (remote c) 1)
       (\<lambda>n. Inr (c\<lparr>remote := n, pending := 0\<rparr>))
   | Dec_Remote \<Rightarrow> \<lambda>c. bind_out (sub_checked Checked (remote c) 1) (\<lambda>n. Inr (c\<lparr>remote := n\<rparr>))
   | Mark_Pending \<Rightarrow> \<lambda>c. if remote c = 0
       then bind_out (add_checked Checked (pending c) 1) (\<lambda>n. Inr (c\<lparr>pending := n\<rparr>)) else Inr c
   | Clear_Pending \<Rightarrow> \<lambda>c. Inr (c\<lparr>pending := saturating_sub (pending c) 1\<rparr>))"

lemma ref_step_closure: "ref_step Checked op = update Checked (closure_of op)"
  by (cases op) (simp_all add: closure_of_def ref_op_defs)

lemma closure_of_abs:
  "case closure_of op c of
     Inl p \<Rightarrow> p = Arithmetic_Overflow \<and>
       (\<forall>a. abs_op op (nats_of c) = Some a \<longrightarrow> 2 ^ 32 \<le> abs_total a)
   | Inr c' \<Rightarrow> abs_op op (nats_of c) = Some (nats_of c')"
  by (cases op)
    (auto simp: closure_of_def nats_of_def add_checked_def sub_checked_def saturating_sub_def
      unat_plus1 unat_minus1 word_less_1 not_le unat_0_iff)

lemma ref_step_cases:
  assumes "\<not> poisoned st"
  shows "(case abs_step op (abs_of st) of
      Some a \<Rightarrow> (\<exists>c. fst (ref_step Checked op st) = Inr c) \<and>
        abs_of (snd (ref_step Checked op st)) = a \<and> ref_ok (snd (ref_step Checked op st))
    | None \<Rightarrow> fst (ref_step Checked op st) = Inl Arithmetic_Overflow \<and>
        poisoned (snd (ref_step Checked op st)))"
proof (cases "closure_of op (counts st)")
  case (Inl p)
  then have "abs_step op (abs_of st) = None"
    using closure_of_abs [of op "counts st"]
    by (auto simp: abs_step_def abs_of_nats split: option.splits)
  moreover have "p = Arithmetic_Overflow"
    using closure_of_abs [of op "counts st"] Inl by simp
  ultimately show ?thesis
    using update_fails [OF assms, of "closure_of op"] Inl by (simp add: ref_step_closure)
next
  case (Inr c)
  then have a: "abs_op op (abs_of st) = Some (nats_of c)"
    using closure_of_abs [of op "counts st"] by (simp add: abs_of_nats)
  show ?thesis
  proof (cases "abs_total (nats_of c) < 2 ^ 32")
    case True
    with a show ?thesis
      using update_ok [of st "closure_of op" c] assms Inr
      by (simp add: ref_step_closure abs_step_def)
  next
    case False
    with a show ?thesis
      using update_fails [OF assms, of "closure_of op"] Inr
      by (simp add: ref_step_closure abs_step_def)
  qed
qed

text \<open>C1: The counts of the code refine the abstract counts, with overflow checks on:
  an operation that has an abstract step leaves exactly that step's counts and publishes
  their sum; one that has none (a reference given back that nobody holds, or more than
  32 bits of references) panics with the lock held, which poisons it.\<close>

theorem ref_step_refines:
  assumes "\<not> poisoned st"
  shows "(case abs_step op (abs_of st) of
      Some a \<Rightarrow> (\<exists>c. fst (ref_step Checked op st) = Inr c) \<and>
        abs_of (snd (ref_step Checked op st)) = a \<and> ref_ok (snd (ref_step Checked op st))
    | None \<Rightarrow> fst (ref_step Checked op st) = Inl Arithmetic_Overflow \<and>
        poisoned (snd (ref_step Checked op st)))"
  using assms by (rule ref_step_cases)

theorem ref_step_refines_witness:
  "abs_of (snd (ref_step Checked Inc_Local (new_ref_state (from_raw 1 0)))) = (1, 0, 0)"
proof -
  have "\<not> poisoned (new_ref_state (from_raw 1 0))" by (simp add: new_ref_state_def)
  from ref_step_refines [OF this, of Inc_Local] show ?thesis
    by (simp add: abs_step_def abs_of_def new_ref_state_def zero_counts_def)
qed

lemma run_refs_abs:
  assumes "ref_ok st" and "abs_run ops (abs_of st) = Some a"
  shows "abs_of (run_refs Checked ops st) = a \<and> ref_ok (run_refs Checked ops st)"
  using assms
proof (induction ops arbitrary: st)
  case (Cons op ops)
  then obtain b where b: "abs_step op (abs_of st) = Some b" "abs_run ops b = Some a"
    by (auto split: option.splits)
  have "\<not> poisoned st" using Cons.prems(1) by (simp add: ref_ok_def)
  from ref_step_cases [OF this, of op] b(1)
  have "abs_of (snd (ref_step Checked op st)) = b" "ref_ok (snd (ref_step Checked op st))"
    by simp_all
  with Cons.IH b(2) show ?case by simp
qed simp

section \<open>Properties of the counts\<close>

text \<open>Whatever the threads do, in either profile, the value the watch channel
  shows is the sum of the counts, until a panic poisons the lock: the publish happens
  inside the lock, so no older sum overwrites a newer one.\<close>

theorem published_is_total:
  "let st = run_refs prof ops (new_ref_state i) in
     poisoned st \<or> total prof (counts st) = Inr (strong_count st)"
  using published_run [OF published_new, of prof ops i] by (simp add: published_def Let_def)



text \<open>
  Sends in flight: \<open>marks\<close> and \<open>clears\<close> count the guards taken and rolled back.
\<close>

definition marks :: "ref_op list \<Rightarrow> nat" where
  "marks ops = count_list ops Mark_Pending"

definition clears :: "ref_op list \<Rightarrow> nat" where
  "clears ops = count_list ops Clear_Pending"

definition no_remote_change :: "ref_op list \<Rightarrow> bool" where
  "no_remote_change ops \<longleftrightarrow> Inc_Remote \<notin> set ops \<and> Dec_Remote \<notin> set ops"

lemma abs_run_snoc:
  "abs_run (ops @ [op]) a = (case abs_run ops a of None \<Rightarrow> None | Some b \<Rightarrow> abs_step op b)"
  by (induction ops arbitrary: a) (auto split: option.splits)

lemma abs_run_pending:
  assumes "abs_run ops (l, 0, 0) = Some a" and "no_remote_change ops"
    and "\<And>k. clears (take k ops) \<le> marks (take k ops)"
  shows "\<exists>l'. a = (l', 0, marks ops - clears ops)"
  using assms
proof (induction ops arbitrary: a rule: rev_induct)
  case Nil
  then show ?case by (auto simp: marks_def clears_def)
next
  case (snoc op ops)
  from snoc.prems(1) obtain b where b: "abs_run ops (l, 0, 0) = Some b" "abs_step op b = Some a"
    by (auto simp: abs_run_snoc split: option.splits)
  have pre: "clears (take k ops) \<le> marks (take k ops)" for k
    using snoc.prems(3) [of "min k (length ops)"] by (simp add: take_append min_def split: if_splits)
  with snoc.IH b(1) snoc.prems(2) obtain l' where l': "b = (l', 0, marks ops - clears ops)"
    by (auto simp: no_remote_change_def)
  have "clears (ops @ [op]) \<le> marks (ops @ [op])" "clears ops \<le> marks ops"
    using snoc.prems(3) [of "Suc (length ops)"] pre [of "length ops"] by simp_all
  with b(2) l' snoc.prems(2) show ?case
    by (cases op) (auto simp: abs_step_def marks_def clears_def no_remote_change_def
        split: if_splits)
qed

text \<open>While the object has never been remote, rolling a failed send back gives up that
  send's guard only: as long as more guards were taken than rolled back (a send is in
  flight), the published count is not zero, whatever the local references do.\<close>

theorem inflight_send_is_guarded:
  assumes "abs_run ops (0, 0, 0) = Some a" and "no_remote_change ops"
    and "\<And>k. clears (take k ops) \<le> marks (take k ops)" and "clears ops < marks ops"
  shows "strong_count (run_refs Checked ops (new_ref_state i)) \<noteq> 0"
proof -
  have "abs_of (new_ref_state i) = (0, 0, 0)"
    by (simp add: abs_of_def new_ref_state_def zero_counts_def)
  with run_refs_abs [OF ref_ok_new, of ops i a] assms(1)
  have "unat (strong_count (run_refs Checked ops (new_ref_state i))) = abs_total a"
    by (simp add: ref_ok_def)
  moreover obtain l' where "a = (l', 0, marks ops - clears ops)"
    using abs_run_pending [OF assms(1-3)] by blast
  ultimately show ?thesis using assms(4) by auto
qed

theorem inflight_send_is_guarded_witness:
  "strong_count (run_refs Checked [Mark_Pending, Mark_Pending, Clear_Pending]
     (new_ref_state (from_raw 1 0))) \<noteq> 0"
proof -
  have "clears (take k [Mark_Pending, Mark_Pending, Clear_Pending])
      \<le> marks (take k [Mark_Pending, Mark_Pending, Clear_Pending])" for k
    by (cases k; cases "k - 1"; cases "k - 2"; simp add: marks_def clears_def take_Cons')
  then show ?thesis
    by (intro inflight_send_is_guarded [of _ "(0, 0, 1)"])
      (simp_all add: abs_step_def no_remote_change_def marks_def clears_def)
qed




lemma run_refs_poisoned: "poisoned st \<Longrightarrow> run_refs prof ops st = st"
proof (induction ops)
  case (Cons op ops)
  then show ?case
    using ref_step_is_update [of prof op] by (auto simp: update_poisoned)
qed simp

text \<open>A local reference given back twice is fatal for the object with overflow checks
  on: the decrement panics with the lock held, and from then on every operation on the object
  panics and the published count never changes again.\<close>

theorem underflow_poisons_forever:
  assumes "\<not> poisoned st" and "local (counts st) = 0"
  shows "fst (decrease_local Checked st) = Inl Arithmetic_Overflow \<and>
    fst (ref_step Checked op (run_refs Checked ops (snd (decrease_local Checked st)))) =
      Inl Lock_Poisoned \<and>
    strong_count (run_refs Checked ops (snd (decrease_local Checked st))) = strong_count st"
proof -
  have d: "decrease_local Checked st = (Inl Arithmetic_Overflow, st\<lparr>poisoned := True\<rparr>)"
    using assms by (simp add: decrease_local_def update_def sub_checked_def word_less_1)
  have "fst (ref_step Checked op (st\<lparr>poisoned := True\<rparr>)) = Inl Lock_Poisoned"
    using ref_step_is_update [of Checked op] by (auto simp: update_poisoned)
  with d show ?thesis by (simp add: run_refs_poisoned)
qed

theorem underflow_poisons_forever_witness:
  "fst (decrease_local Checked (new_ref_state (from_raw 1 0))) = Inl Arithmetic_Overflow"
  using underflow_poisons_forever [of "new_ref_state (from_raw 1 0)"]
  by (simp add: new_ref_state_def zero_counts_def)

end
