(* ===== verification/Binder_Device.thy ===== *)
theory Binder_Device
  imports Object_Ref_State
begin

text \<open>
  The shared state of \<open>BinderDevice\<close> (\<open>src/src/device.rs\<close>) and the handle types of
  \<open>src/src/binder_object.rs\<close> with the operations that create, clone and drop them.

  A handler (\<open>Arc<dyn ErasedTransactionHandler>\<close>) is a value of the type parameter
  \<open>'h\<close>; its \<open>Any\<close> downcast to the static type of a handle is the predicate \<open>is_t\<close>.
  Every map of the device is a partial function. An \<open>Arc\<close> is its address with its
  immutable contents, the strong counts are a field of the device state, and a
  \<open>Weak\<close> of the maps \<open>refs\<close> and \<open>weak_refs\<close> is the same value, which can be upgraded
  only while the strong count is positive.

  The environment is part of the state: the commands written to the device file in
  order, and what the kernel answers to the n-th of them (\<open>retry_on_intr\<close> has already
  repeated the interrupted calls). A panic ends the operation at the statement that
  raised it; destructors that unwinding would still run are not modelled.
\<close>

section \<open>Handles\<close>

record 'a arc =
  arc_ptr :: nat
  arc_val :: 'a

record weak_binder_ref =
  wr_id :: u32
  death :: nat
  death_notif_cookie :: usize

record binder_ref =
  weak :: "weak_binder_ref arc"

record 'h borrowed_binder_object =
  bbo_id :: binder_object_id
  bbo_handler :: 'h
  increased_local_ref :: bool

record 'h binder_object =
  bo_id :: binder_object_id
  bo_handler :: 'h

record 'h binder_object_ref =
  bor_id :: binder_object_id
  bor_handler :: 'h

datatype 'h binder_object_or_ref =
    Object "'h borrowed_binder_object"
  | WeakObject binder_object_id
  | Ref "binder_ref arc"
  | WeakRef "weak_binder_ref arc"

datatype transaction_target_handle = Local binder_object_id | Remote u32

section \<open>Commands and the device state\<close>

type_synonym errno = nat

datatype cmd_arg =
    Arg_Handle u32
  | Arg_Handle_Cookie handle_cookie
  | Arg_Ptr_Cookie ptr_cookie
  | Arg_Uintptr usize
  | Arg_Transaction transaction_data
  | Arg_None

fun arg_bytes :: "cmd_arg \<Rightarrow> byte list" where
  "arg_bytes (Arg_Handle h) = u32_bytes h"
| "arg_bytes (Arg_Handle_Cookie x) = enc_handle_cookie x"
| "arg_bytes (Arg_Ptr_Cookie x) = enc_ptr_cookie x"
| "arg_bytes (Arg_Uintptr p) = u64_bytes p"
| "arg_bytes (Arg_Transaction t) = enc_transaction t"
| "arg_bytes Arg_None = []"

text \<open>The bytes \<open>write_binder_struct_command\<close> hands to the kernel.\<close>

definition struct_command_bytes :: "ioc_fn \<Rightarrow> binder_command \<Rightarrow> cmd_arg \<Rightarrow> byte list" where
  "struct_command_bytes ioc c a = u32_bytes (command_code ioc c) @ arg_bytes a"

record 'h binder_device =
  object_id_counter :: usize
  death_counter :: usize
  objects :: "binder_object_id \<rightharpoonup> 'h"
  object_refcounts :: "binder_object_id \<rightharpoonup> object_ref_state"
  retained_services :: "binder_object_id \<rightharpoonup> 'h binder_object"
  refs :: "u32 \<rightharpoonup> binder_ref arc"
  weak_refs :: "u32 \<rightharpoonup> weak_binder_ref arc"
  death_notifications :: "usize \<rightharpoonup> nat"
  ctx_manager :: usize
  arc_strong :: "nat \<Rightarrow> nat"
  next_arc :: nat
  cancelled :: "nat \<Rightarrow> bool"
  sent :: "(binder_command \<times> cmd_arg) list"
  kernel_err :: "nat \<Rightarrow> errno option"

text \<open>The state \<open>from_fd\<close> creates, for a kernel that answers with \<open>k\<close>.\<close>

definition new_device :: "(nat \<Rightarrow> errno option) \<Rightarrow> 'h binder_device" where
  "new_device k = \<lparr>object_id_counter = 1, death_counter = 1, objects = Map.empty,
     object_refcounts = Map.empty, retained_services = Map.empty, refs = Map.empty,
     weak_refs = Map.empty, death_notifications = Map.empty, ctx_manager = 0,
     arc_strong = (\<lambda>_. 0), next_arc = 0, cancelled = (\<lambda>_. False), sent = [],
     kernel_err = k\<rparr>"

type_synonym ('h, 'a) dev_action = "('h binder_device, 'a) action"

text \<open>The free function: write the command, give the result of the ioctl.\<close>

definition write_binder_struct_command ::
    "binder_command \<Rightarrow> cmd_arg \<Rightarrow> ('h, errno option) dev_action" where
  "write_binder_struct_command c a d =
     (Inr (kernel_err d (length (sent d))), d\<lparr>sent := sent d @ [(c, a)]\<rparr>)"

text \<open>The method of \<open>BinderDevice\<close>: the same, with \<open>unwrap()\<close>.\<close>

definition dev_write_struct_command ::
    "binder_command \<Rightarrow> cmd_arg \<Rightarrow> ('h, unit) dev_action" where
  "dev_write_struct_command c a = bind (write_binder_struct_command c a)
     (\<lambda>r. case r of None \<Rightarrow> ret () | Some e \<Rightarrow> panic_with Unwrap_Failed)"

section \<open>Local objects\<close>

text \<open>\<open>fetch_add\<close> wraps around in both profiles.\<close>

definition register_object :: "'h \<Rightarrow> ('h, 'h binder_object) dev_action" where
  "register_object h d =
     (let i = \<lparr>id_raw = object_id_counter d, id_cookie = 0\<rparr> in
      (Inr \<lparr>bo_id = i, bo_handler = h\<rparr>,
       d\<lparr>object_id_counter := object_id_counter d + 1,
         objects := (objects d)(i \<mapsto> h),
         object_refcounts := (object_refcounts d)(i \<mapsto> new_ref_state i)\<rparr>))"

definition get_handler :: "'h binder_device \<Rightarrow> binder_object_id \<Rightarrow> 'h option" where
  "get_handler d i = objects d i"

definition remove_binder_object :: "binder_object_id \<Rightarrow> ('h, unit) dev_action" where
  "remove_binder_object i = modify (\<lambda>d. d\<lparr>objects := (objects d)(i := None),
     object_refcounts := (object_refcounts d)(i := None)\<rparr>)"

text \<open>
  \<open>if let Some(refstate) = dev.object_refcounts.get(&id) { refstate.op() }\<close>; the result
  says whether there was one.
\<close>

definition with_refstate :: "binder_object_id \<Rightarrow> (object_ref_state, ref_counts) action \<Rightarrow>
    ('h, bool) dev_action" where
  "with_refstate i m d =
     (case object_refcounts d i of
        None \<Rightarrow> (Inr False, d)
      | Some st \<Rightarrow> (case m st of (r, st') \<Rightarrow>
          (bind_out r (\<lambda>_. Inr True),
           d\<lparr>object_refcounts := (object_refcounts d)(i \<mapsto> st')\<rparr>)))"

definition borrowed_from_id ::
    "profile \<Rightarrow> binder_object_id \<Rightarrow> ('h, 'h borrowed_binder_object option) dev_action" where
  "borrowed_from_id prof i d =
     (case get_handler d i of
        None \<Rightarrow> (Inr None, d)
      | Some h \<Rightarrow> bind (with_refstate i (increase_local prof))
          (\<lambda>inc. ret (Some \<lparr>bbo_id = i, bbo_handler = h, increased_local_ref = inc\<rparr>)) d)"

definition borrowed_clone :: "profile \<Rightarrow> 'h borrowed_binder_object \<Rightarrow>
    ('h, 'h borrowed_binder_object) dev_action" where
  "borrowed_clone prof b = bind (with_refstate (bbo_id b) (increase_local prof))
     (\<lambda>inc. ret (b\<lparr>increased_local_ref := inc\<rparr>))"

definition borrowed_drop :: "profile \<Rightarrow> 'h borrowed_binder_object \<Rightarrow> ('h, unit) dev_action" where
  "borrowed_drop prof b =
     (if increased_local_ref b
      then bind (with_refstate (bbo_id b) (decrease_local prof)) (\<lambda>_. ret ())
      else ret ())"

text \<open>\<open>BinderObject::to_binder_object_or_ref\<close>\<close>

definition object_to_object_or_ref :: "profile \<Rightarrow> 'h binder_object \<Rightarrow>
    ('h, 'h binder_object_or_ref) dev_action" where
  "object_to_object_or_ref prof ob = bind (with_refstate (bo_id ob) (increase_local prof))
     (\<lambda>inc. ret (Object \<lparr>bbo_id = bo_id ob, bbo_handler = bo_handler ob,
        increased_local_ref = inc\<rparr>))"

definition object_drop :: "'h binder_object \<Rightarrow> ('h, unit) dev_action" where
  "object_drop ob = remove_binder_object (bo_id ob)"

definition object_ref_from_id :: "profile \<Rightarrow> ('h \<Rightarrow> bool) \<Rightarrow> binder_object_id \<Rightarrow>
    ('h, 'h binder_object_ref option) dev_action" where
  "object_ref_from_id prof is_t i d =
     (case get_handler d i of
        None \<Rightarrow> (Inr None, d)
      | Some h \<Rightarrow>
          if \<not> is_t h then (Inr None, d)
          else bind (with_refstate i (increase_local prof))
            (\<lambda>inc. ret (if inc then Some \<lparr>bor_id = i, bor_handler = h\<rparr> else None)) d)"

definition object_ref_clone :: "profile \<Rightarrow> 'h binder_object_ref \<Rightarrow>
    ('h, 'h binder_object_ref) dev_action" where
  "object_ref_clone prof r =
     bind (with_refstate (bor_id r) (increase_local prof)) (\<lambda>_. ret r)"

definition object_ref_drop :: "profile \<Rightarrow> 'h binder_object_ref \<Rightarrow> ('h, unit) dev_action" where
  "object_ref_drop prof r =
     bind (with_refstate (bor_id r) (decrease_local prof)) (\<lambda>_. ret ())"

text \<open>\<open>as_erased\<close> expects the object to be there.\<close>

definition object_ref_as_erased :: "profile \<Rightarrow> 'h binder_object_ref \<Rightarrow>
    ('h, 'h borrowed_binder_object) dev_action" where
  "object_ref_as_erased prof r = bind (borrowed_from_id prof (bor_id r))
     (\<lambda>b. case b of None \<Rightarrow> panic_with Unwrap_Failed | Some x \<Rightarrow> ret x)"

text \<open>
  \<open>to_service\<close>: the guard moves into \<open>retained_services\<close>; the result is the service
  handle and whether the cleanup task got a receiver of the count to wait on.
\<close>

definition to_service :: "profile \<Rightarrow> ('h \<Rightarrow> bool) \<Rightarrow> 'h binder_object \<Rightarrow>
    ('h, 'h binder_object_ref \<times> bool) dev_action" where
  "to_service prof is_t ob =
     bind (modify (\<lambda>d. d\<lparr>retained_services := (retained_services d)(bo_id ob \<mapsto> ob)\<rparr>)) (\<lambda>_.
     bind (object_ref_from_id prof is_t (bo_id ob)) (\<lambda>r.
     case r of None \<Rightarrow> panic_with Unwrap_Failed
     | Some obj_ref \<Rightarrow> reads (\<lambda>d. (obj_ref, object_refcounts d (bo_id ob) \<noteq> None))))"

text \<open>
  The futures \<open>strong_refs_hit_zero\<close> and \<open>strong_refs_not_zero\<close>: \<open>wait_for\<close> returns when the
  current count is zero, or is not, or when the sender is gone. After the first the cleanup
  task takes the guard out of the map and drops it.
\<close>

definition hit_zero_ready :: "'h binder_device \<Rightarrow> binder_object_id \<Rightarrow> bool \<Rightarrow> bool" where
  "hit_zero_ready d i has_rx =
     (\<not> has_rx \<or> (case object_refcounts d i of None \<Rightarrow> True | Some st \<Rightarrow> strong_count st = 0))"

definition not_zero_ready :: "'h binder_device \<Rightarrow> binder_object_id \<Rightarrow> bool \<Rightarrow> bool" where
  "not_zero_ready d i has_rx =
     (\<not> has_rx \<or> (case object_refcounts d i of None \<Rightarrow> True | Some st \<Rightarrow> strong_count st \<noteq> 0))"

definition cleanup_service :: "binder_object_id \<Rightarrow> ('h, unit) dev_action" where
  "cleanup_service i d =
     (case retained_services d i of
        None \<Rightarrow> (Inr (), d)
      | Some ob \<Rightarrow> object_drop ob (d\<lparr>retained_services := (retained_services d)(i := None)\<rparr>))"

end
