(* ===== verification/Remote_Refs.thy ===== *)
theory Remote_Refs
  imports Binder_Device
begin

text \<open>
  References to remote objects: \<open>BinderRef\<close> and \<open>WeakBinderRef\<close> of
  \<open>src/src/binder_object.rs\<close>, their deduplication through the maps \<open>refs\<close> and
  \<open>weak_refs\<close>, the commands that keep the kernel's counts, and death notifications.

  The functions are composed of the pieces that are atomic in the code (a map lookup
  with the upgrade of the found \<open>Weak\<close>, the creation of a new value, the destructor
  body); the system at the end interleaves these pieces, so two threads may both miss
  in the map and both create a reference to the same handle.
\<close>

section \<open>Reference counting pointers\<close>

definition arc_new :: "'a \<Rightarrow> ('h, 'a arc) dev_action" where
  "arc_new v d = (Inr \<lparr>arc_ptr = next_arc d, arc_val = v\<rparr>,
     d\<lparr>next_arc := next_arc d + 1, arc_strong := (arc_strong d)(next_arc d := 1)\<rparr>)"

definition arc_clone :: "'a arc \<Rightarrow> ('h, 'a arc) dev_action" where
  "arc_clone a d = (Inr a, d\<lparr>arc_strong :=
     (arc_strong d)(arc_ptr a := arc_strong d (arc_ptr a) + 1)\<rparr>)"

text \<open>\<open>Weak::upgrade\<close>\<close>

definition arc_upgrade :: "'a arc \<Rightarrow> ('h, 'a arc option) dev_action" where
  "arc_upgrade a d = (if arc_strong d (arc_ptr a) = 0 then (Inr None, d)
     else (case arc_clone a d of (r, d') \<Rightarrow> (bind_out r (\<lambda>x. Inr (Some x)), d')))"

text \<open>Dropping an \<open>Arc\<close>: the result says whether the value must be destroyed.\<close>

definition arc_release :: "'a arc \<Rightarrow> ('h, bool) dev_action" where
  "arc_release a d = (let n = arc_strong d (arc_ptr a) - 1 in
     (Inr (n = 0), d\<lparr>arc_strong := (arc_strong d)(arc_ptr a := n)\<rparr>))"

text \<open>\<open>CancellationToken::new\<close>: a token is a fresh number, not cancelled.\<close>

definition new_token :: "('h, nat) dev_action" where
  "new_token d = (Inr (next_arc d),
     d\<lparr>next_arc := next_arc d + 1, cancelled := (cancelled d)(next_arc d := False)\<rparr>)"

section \<open>WeakBinderRef\<close>

definition weak_handle :: "weak_binder_ref arc \<Rightarrow> u32" where
  "weak_handle w = wr_id (arc_val w)"

definition weak_alive :: "'h binder_device \<Rightarrow> weak_binder_ref arc \<Rightarrow> bool" where
  "weak_alive d w = (\<not> cancelled d (death (arc_val w)))"

definition weak_lookup :: "u32 \<Rightarrow> ('h, weak_binder_ref arc option) dev_action" where
  "weak_lookup h d =
     (case weak_refs d h of None \<Rightarrow> (Inr None, d) | Some w \<Rightarrow> arc_upgrade w d)"

definition weak_create :: "u32 \<Rightarrow> ('h, weak_binder_ref arc) dev_action" where
  "weak_create h =
     bind (\<lambda>d. (Inr (death_counter d), d\<lparr>death_counter := death_counter d + 1\<rparr>)) (\<lambda>ck.
     bind new_token (\<lambda>tok.
     bind (modify (\<lambda>d. d\<lparr>death_notifications := (death_notifications d)(ck \<mapsto> tok)\<rparr>)) (\<lambda>_.
     bind (dev_write_struct_command BC_INCREFS (Arg_Handle h)) (\<lambda>_.
     bind (dev_write_struct_command BC_REQUEST_DEATH_NOTIFICATION
       (Arg_Handle_Cookie \<lparr>hc_handle = h, hc_cookie = ck\<rparr>)) (\<lambda>_.
     bind (arc_new \<lparr>wr_id = h, death = tok, death_notif_cookie = ck\<rparr>) (\<lambda>port.
     bind (modify (\<lambda>d. d\<lparr>weak_refs := (weak_refs d)(h \<mapsto> port)\<rparr>)) (\<lambda>_.
     ret port)))))))"

definition weak_get_and_dedup_from_raw :: "u32 \<Rightarrow> ('h, weak_binder_ref arc) dev_action" where
  "weak_get_and_dedup_from_raw h = bind (weak_lookup h)
     (\<lambda>u. case u of Some port \<Rightarrow> ret port | None \<Rightarrow> weak_create h)"

text \<open>\<open>Drop::drop\<close>, run when the last \<open>Arc\<close> is gone.\<close>

definition weak_drop_body :: "weak_binder_ref arc \<Rightarrow> ('h, unit) dev_action" where
  "weak_drop_body w =
     bind (dev_write_struct_command BC_CLEAR_DEATH_NOTIFICATION
       (Arg_Handle_Cookie \<lparr>hc_handle = weak_handle w,
          hc_cookie = death_notif_cookie (arc_val w)\<rparr>)) (\<lambda>_.
     bind (modify (\<lambda>d. d\<lparr>death_notifications :=
       (death_notifications d)(death_notif_cookie (arc_val w) := None)\<rparr>)) (\<lambda>_.
     bind (dev_write_struct_command BC_DECREFS (Arg_Handle (weak_handle w))) (\<lambda>_.
     modify (\<lambda>d. case weak_refs d (weak_handle w) of None \<Rightarrow> d
       | Some v \<Rightarrow> if arc_strong d (arc_ptr v) = 0
           then d\<lparr>weak_refs := (weak_refs d)(weak_handle w := None)\<rparr> else d))))"

definition weak_drop :: "weak_binder_ref arc \<Rightarrow> ('h, unit) dev_action" where
  "weak_drop w = bind (arc_release w) (\<lambda>last. if last then weak_drop_body w else ret ())"

section \<open>BinderRef\<close>

definition ref_handle :: "binder_ref arc \<Rightarrow> u32" where
  "ref_handle a = weak_handle (weak (arc_val a))"

definition ref_lookup :: "u32 \<Rightarrow> ('h, binder_ref arc option) dev_action" where
  "ref_lookup h d = (case refs d h of None \<Rightarrow> (Inr None, d) | Some a \<Rightarrow> arc_upgrade a d)"

definition ref_create :: "u32 \<Rightarrow> weak_binder_ref arc \<Rightarrow> ('h, binder_ref arc) dev_action" where
  "ref_create h w =
     bind (dev_write_struct_command BC_ACQUIRE (Arg_Handle h)) (\<lambda>_.
     bind (arc_new \<lparr>weak = w\<rparr>) (\<lambda>port.
     bind (modify (\<lambda>d. d\<lparr>refs := (refs d)(h \<mapsto> port)\<rparr>)) (\<lambda>_. ret port)))"

definition ref_get_and_dedup_from_raw :: "u32 \<Rightarrow> ('h, binder_ref arc) dev_action" where
  "ref_get_and_dedup_from_raw h = bind (ref_lookup h)
     (\<lambda>u. case u of Some port \<Rightarrow> ret port
       | None \<Rightarrow> bind (weak_get_and_dedup_from_raw h) (ref_create h))"

definition ref_downgrade :: "binder_ref arc \<Rightarrow> ('h, weak_binder_ref arc) dev_action" where
  "ref_downgrade a = arc_clone (weak (arc_val a))"

text \<open>\<open>WeakBinderRef::upgrade\<close> looks the handle up in \<open>refs\<close>.\<close>

definition weak_upgrade :: "weak_binder_ref arc \<Rightarrow> ('h, binder_ref arc option) dev_action" where
  "weak_upgrade w = ref_lookup (weak_handle w)"

definition ref_drop_body :: "binder_ref arc \<Rightarrow> ('h, unit) dev_action" where
  "ref_drop_body a =
     bind (dev_write_struct_command BC_RELEASE (Arg_Handle (ref_handle a))) (\<lambda>_.
     modify (\<lambda>d. case refs d (ref_handle a) of None \<Rightarrow> d
       | Some v \<Rightarrow> if arc_strong d (arc_ptr v) = 0
           then d\<lparr>refs := (refs d)(ref_handle a := None)\<rparr> else d))"

text \<open>After \<open>Drop::drop\<close> the fields are dropped: the \<open>Arc\<close> of the weak reference.\<close>

definition ref_drop :: "binder_ref arc \<Rightarrow> ('h, unit) dev_action" where
  "ref_drop a = bind (arc_release a) (\<lambda>last.
     if last then bind (ref_drop_body a) (\<lambda>_. weak_drop (weak (arc_val a))) else ret ())"

section \<open>Death of a remote object\<close>

text \<open>The arm of the dispatch loop for \<open>BR_DEAD_BINDER\<close>.\<close>

definition dead_binder :: "usize \<Rightarrow> ('h, unit) dev_action" where
  "dead_binder ck =
     bind (modify (\<lambda>d. case death_notifications d ck of None \<Rightarrow> d
       | Some tok \<Rightarrow> d\<lparr>death_notifications := (death_notifications d)(ck := None),
           cancelled := (cancelled d)(tok := True)\<rparr>)) (\<lambda>_.
     bind (write_binder_struct_command BC_DEAD_BINDER_DONE (Arg_Uintptr ck)) (\<lambda>_. ret ()))"

section \<open>Effects when the kernel accepts the commands\<close>

definition kernel_ok :: "'h binder_device \<Rightarrow> bool" where
  "kernel_ok d \<longleftrightarrow> (\<forall>n. kernel_err d n = None)"

lemma dev_write_ok [simp]:
  "kernel_ok d \<Longrightarrow> dev_write_struct_command c a d = (Inr (), d\<lparr>sent := sent d @ [(c, a)]\<rparr>)"
  by (simp add: dev_write_struct_command_def write_binder_struct_command_def bind_def kernel_ok_def)

lemma kernel_ok_upd [simp]:
  "kernel_ok (d\<lparr>sent := x\<rparr>) = kernel_ok d" "kernel_ok (d\<lparr>next_arc := n\<rparr>) = kernel_ok d"
  "kernel_ok (d\<lparr>arc_strong := f\<rparr>) = kernel_ok d" "kernel_ok (d\<lparr>cancelled := g\<rparr>) = kernel_ok d"
  "kernel_ok (d\<lparr>death_notifications := m\<rparr>) = kernel_ok d" "kernel_ok (d\<lparr>refs := r\<rparr>) = kernel_ok d"
  "kernel_ok (d\<lparr>weak_refs := w\<rparr>) = kernel_ok d" "kernel_ok (d\<lparr>death_counter := c\<rparr>) = kernel_ok d"
  by (simp_all add: kernel_ok_def)

lemma ref_create_ok:
  assumes "kernel_ok d"
  shows "ref_create h w d = (Inr \<lparr>arc_ptr = next_arc d, arc_val = \<lparr>weak = w\<rparr>\<rparr>,
    d\<lparr>sent := sent d @ [(BC_ACQUIRE, Arg_Handle h)], next_arc := next_arc d + 1,
      arc_strong := (arc_strong d)(next_arc d := 1),
      refs := (refs d)(h \<mapsto> \<lparr>arc_ptr = next_arc d, arc_val = \<lparr>weak = w\<rparr>\<rparr>)\<rparr>)"
  using assms by (simp add: ref_create_def arc_new_def bind_def)

lemma weak_create_ok:
  assumes "kernel_ok d"
  shows "weak_create h d =
    (let tok = next_arc d; ck = death_counter d;
         w = \<lparr>arc_ptr = next_arc d + 1,
              arc_val = \<lparr>wr_id = h, death = tok, death_notif_cookie = ck\<rparr>\<rparr>
     in (Inr w, d\<lparr>death_counter := ck + 1, next_arc := next_arc d + 2,
       cancelled := (cancelled d)(tok := False),
       death_notifications := (death_notifications d)(ck \<mapsto> tok),
       sent := sent d @ [(BC_INCREFS, Arg_Handle h), (BC_REQUEST_DEATH_NOTIFICATION,
         Arg_Handle_Cookie \<lparr>hc_handle = h, hc_cookie = ck\<rparr>)],
       arc_strong := (arc_strong d)(next_arc d + 1 := 1),
       weak_refs := (weak_refs d)(h \<mapsto> w)\<rparr>))"
  using assms by (simp add: weak_create_def arc_new_def new_token_def bind_def Let_def)

lemma ref_drop_body_ok:
  assumes "kernel_ok d"
  shows "ref_drop_body a d = (Inr (), d\<lparr>sent := sent d @ [(BC_RELEASE, Arg_Handle (ref_handle a))],
    refs := (case refs d (ref_handle a) of None \<Rightarrow> refs d
      | Some v \<Rightarrow> if arc_strong d (arc_ptr v) = 0 then (refs d)(ref_handle a := None) else refs d)\<rparr>)"
  using assms by (simp add: ref_drop_body_def bind_def split: option.split)

lemma weak_drop_body_ok:
  assumes "kernel_ok d"
  shows "weak_drop_body w d = (Inr (), d\<lparr>
    death_notifications := (death_notifications d)(death_notif_cookie (arc_val w) := None),
    sent := sent d @ [(BC_CLEAR_DEATH_NOTIFICATION, Arg_Handle_Cookie
        \<lparr>hc_handle = weak_handle w, hc_cookie = death_notif_cookie (arc_val w)\<rparr>),
      (BC_DECREFS, Arg_Handle (weak_handle w))],
    weak_refs := (case weak_refs d (weak_handle w) of None \<Rightarrow> weak_refs d
      | Some v \<Rightarrow> if arc_strong d (arc_ptr v) = 0 then (weak_refs d)(weak_handle w := None)
          else weak_refs d)\<rparr>)"
  using assms by (simp add: weak_drop_body_def bind_def split: option.split)

lemma dead_binder_ok:
  "dead_binder ck d = (Inr (), (case death_notifications d ck of None \<Rightarrow> d
     | Some tok \<Rightarrow> d\<lparr>death_notifications := (death_notifications d)(ck := None),
         cancelled := (cancelled d)(tok := True)\<rparr>)
     \<lparr>sent := sent d @ [(BC_DEAD_BINDER_DONE, Arg_Uintptr ck)]\<rparr>)"
  by (simp add: dead_binder_def bind_def write_binder_struct_command_def split: option.split)

section \<open>The system of references\<close>

text \<open>
  The device with the values that exist: a \<open>BinderRef\<close> or \<open>WeakBinderRef\<close> lives from its
  creation to the end of its destructor; \<open>held\<close> lists the \<open>Arc\<close>s the threads hold, one
  entry per clone. Dropping the last \<open>Arc\<close> and running the destructor are two steps, as are
  a miss in a map and the creation that follows, so creations and destructors of the same
  handle interleave freely. A destroyed \<open>BinderRef\<close> leaves its weak \<open>Arc\<close> to be dropped.
  \<open>delivered\<close> are the cookies of the death notifications the kernel has delivered.
\<close>

record 'h ref_sys =
  rdev :: "'h binder_device"
  live_refs :: "binder_ref arc list"
  live_weaks :: "weak_binder_ref arc list"
  held_refs :: "binder_ref arc list"
  held_weaks :: "weak_binder_ref arc list"
  delivered :: "usize set"

definition init_refs :: "'h ref_sys" where
  "init_refs = \<lparr>rdev = new_device (\<lambda>_. None), live_refs = [], live_weaks = [], held_refs = [],
     held_weaks = [], delivered = {}\<rparr>"

abbreviation cookie_of :: "weak_binder_ref arc \<Rightarrow> usize" where
  "cookie_of w \<equiv> death_notif_cookie (arc_val w)"

definition requested :: "'h binder_device \<Rightarrow> usize \<Rightarrow> bool" where
  "requested d ck \<longleftrightarrow> (\<exists>h. (BC_REQUEST_DEATH_NOTIFICATION,
     Arg_Handle_Cookie \<lparr>hc_handle = h, hc_cookie = ck\<rparr>) \<in> set (sent d))"

inductive rstep :: "'h ref_sys \<Rightarrow> 'h ref_sys \<Rightarrow> bool" where
  lookup: "ref_lookup h (rdev s) = (Inr (Some a), d) \<Longrightarrow>
    rstep s (s\<lparr>rdev := d, held_refs := a # held_refs s\<rparr>)"
| weak_look: "weak_lookup h (rdev s) = (Inr (Some w), d) \<Longrightarrow>
    rstep s (s\<lparr>rdev := d, held_weaks := w # held_weaks s\<rparr>)"
| create: "w \<in> set (held_weaks s) \<Longrightarrow> ref_create (weak_handle w) w (rdev s) = (Inr a, d) \<Longrightarrow>
    rstep s (s\<lparr>rdev := d, live_refs := a # live_refs s, held_refs := a # held_refs s,
      held_weaks := remove1 w (held_weaks s)\<rparr>)"
| create_weak: "death_counter (rdev s) \<noteq> - 1 \<Longrightarrow> weak_create h (rdev s) = (Inr w, d) \<Longrightarrow>
    rstep s (s\<lparr>rdev := d, live_weaks := w # live_weaks s, held_weaks := w # held_weaks s\<rparr>)"
| clone_ref: "a \<in> set (held_refs s) \<Longrightarrow> arc_clone a (rdev s) = (Inr b, d) \<Longrightarrow>
    rstep s (s\<lparr>rdev := d, held_refs := b # held_refs s\<rparr>)"
| clone_weak: "w \<in> set (held_weaks s) \<Longrightarrow> arc_clone w (rdev s) = (Inr v, d) \<Longrightarrow>
    rstep s (s\<lparr>rdev := d, held_weaks := v # held_weaks s\<rparr>)"
| downgrade: "a \<in> set (held_refs s) \<Longrightarrow> ref_downgrade a (rdev s) = (Inr w, d) \<Longrightarrow>
    rstep s (s\<lparr>rdev := d, held_weaks := w # held_weaks s\<rparr>)"
| release: "a \<in> set (held_refs s) \<Longrightarrow> arc_release a (rdev s) = (Inr l, d) \<Longrightarrow>
    rstep s (s\<lparr>rdev := d, held_refs := remove1 a (held_refs s)\<rparr>)"
| release_weak: "w \<in> set (held_weaks s) \<Longrightarrow> arc_release w (rdev s) = (Inr l, d) \<Longrightarrow>
    rstep s (s\<lparr>rdev := d, held_weaks := remove1 w (held_weaks s)\<rparr>)"
| destroy: "a \<in> set (live_refs s) \<Longrightarrow> arc_strong (rdev s) (arc_ptr a) = 0 \<Longrightarrow>
    ref_drop_body a (rdev s) = (Inr (), d) \<Longrightarrow>
    rstep s (s\<lparr>rdev := d, live_refs := remove1 a (live_refs s),
      held_weaks := weak (arc_val a) # held_weaks s\<rparr>)"
| destroy_weak: "w \<in> set (live_weaks s) \<Longrightarrow> arc_strong (rdev s) (arc_ptr w) = 0 \<Longrightarrow>
    weak_drop_body w (rdev s) = (Inr (), d) \<Longrightarrow>
    rstep s (s\<lparr>rdev := d, live_weaks := remove1 w (live_weaks s)\<rparr>)"
| died: "requested (rdev s) ck \<Longrightarrow> dead_binder ck (rdev s) = (Inr (), d) \<Longrightarrow>
    rstep s (s\<lparr>rdev := d, delivered := insert ck (delivered s)\<rparr>)"

inductive refs_reachable :: "'h ref_sys \<Rightarrow> bool" where
  start: "refs_reachable init_refs"
| step: "refs_reachable s \<Longrightarrow> rstep s t \<Longrightarrow> refs_reachable t"

text \<open>The reference counts, the pointers and the maps agree with what exists.\<close>

definition heap_inv :: "'h ref_sys \<Rightarrow> bool" where
  "heap_inv s \<longleftrightarrow> kernel_ok (rdev s) \<and>
     distinct (map arc_ptr (live_refs s)) \<and> distinct (map arc_ptr (live_weaks s)) \<and>
     arc_ptr ` set (live_refs s) \<inter> arc_ptr ` set (live_weaks s) = {} \<and>
     (\<forall>a \<in> set (live_refs s). arc_ptr a < next_arc (rdev s) \<and>
        arc_strong (rdev s) (arc_ptr a) = count_list (held_refs s) a \<and>
        weak (arc_val a) \<in> set (live_weaks s)) \<and>
     (\<forall>w \<in> set (live_weaks s). arc_ptr w < next_arc (rdev s) \<and>
        arc_strong (rdev s) (arc_ptr w) =
          count_list (held_weaks s) w + count_list (map (weak \<circ> arc_val) (live_refs s)) w) \<and>
     set (held_refs s) \<subseteq> set (live_refs s) \<and> set (held_weaks s) \<subseteq> set (live_weaks s) \<and>
     (\<forall>h a. refs (rdev s) h = Some a \<longrightarrow> a \<in> set (live_refs s) \<and> ref_handle a = h) \<and>
     (\<forall>h w. weak_refs (rdev s) h = Some w \<longrightarrow> w \<in> set (live_weaks s) \<and> weak_handle w = h)"

lemma count_list_remove1:
  "count_list (remove1 x xs) y = count_list xs y - (if x = y then 1 else 0)"
  by (induction xs) auto

lemma count_list_pos: "x \<in> set xs \<Longrightarrow> 0 < count_list xs x"
  by (induction xs) auto

lemma live_ref_ptr:
  assumes "heap_inv s" and "a \<in> set (live_refs s)"
  shows "b \<in> set (live_refs s) \<Longrightarrow> arc_ptr a = arc_ptr b \<longleftrightarrow> a = b"
    and "b \<in> set (live_refs s) \<Longrightarrow> arc_ptr b = arc_ptr a \<longleftrightarrow> a = b"
    and "w \<in> set (live_weaks s) \<Longrightarrow> arc_ptr a \<noteq> arc_ptr w"
    and "w \<in> set (live_weaks s) \<Longrightarrow> arc_ptr w \<noteq> arc_ptr a"
  using assms by (auto simp: heap_inv_def distinct_map inj_on_def)

lemma live_weak_ptr:
  assumes "heap_inv s" and "w \<in> set (live_weaks s)"
  shows "v \<in> set (live_weaks s) \<Longrightarrow> arc_ptr w = arc_ptr v \<longleftrightarrow> w = v"
    and "v \<in> set (live_weaks s) \<Longrightarrow> arc_ptr v = arc_ptr w \<longleftrightarrow> w = v"
    and "a \<in> set (live_refs s) \<Longrightarrow> arc_ptr a \<noteq> arc_ptr w"
    and "a \<in> set (live_refs s) \<Longrightarrow> arc_ptr w \<noteq> arc_ptr a"
  using assms by (auto simp: heap_inv_def distinct_map inj_on_def)

lemma heap_init: "heap_inv init_refs"
  by (simp add: heap_inv_def init_refs_def new_device_def kernel_ok_def)

lemma lookup_cases:
  "ref_lookup h d = (Inr (Some a), d') \<Longrightarrow> refs d h = Some a \<and> arc_clone a d = (Inr a, d')"
  "weak_lookup h d = (Inr (Some w), d') \<Longrightarrow> weak_refs d h = Some w \<and> arc_clone w d = (Inr w, d')"
  by (auto simp: ref_lookup_def weak_lookup_def arc_upgrade_def arc_clone_def
      split: option.splits if_splits)

lemma heap_clone_ref:
  assumes "heap_inv s" and "a \<in> set (live_refs s)" and "arc_clone a (rdev s) = (Inr b, d)"
  shows "heap_inv (s\<lparr>rdev := d, held_refs := b # held_refs s\<rparr>)"
  using assms live_ref_ptr [OF assms(1,2)]
  by (auto simp: arc_clone_def heap_inv_def)

lemma heap_clone_weak:
  assumes "heap_inv s" and "w \<in> set (live_weaks s)" and "arc_clone w (rdev s) = (Inr v, d)"
  shows "heap_inv (s\<lparr>rdev := d, held_weaks := v # held_weaks s\<rparr>)"
  using assms live_weak_ptr [OF assms(1,2)]
  by (auto simp: arc_clone_def heap_inv_def)

lemma arc_release_fields:
  assumes "arc_release a d0 = (Inr l, d)" and "kernel_ok d0"
  shows "next_arc d = next_arc d0" "kernel_ok d" "refs d = refs d0" "weak_refs d = weak_refs d0"
    "arc_strong d n = (if n = arc_ptr a then arc_strong d0 (arc_ptr a) - 1 else arc_strong d0 n)"
  using assms by (auto simp: arc_release_def Let_def)

lemma heap_release:
  assumes inv: "heap_inv s" and a: "a \<in> set (held_refs s)"
    and rel: "arc_release a (rdev s) = (Inr l, d)"
  shows "heap_inv (s\<lparr>rdev := d, held_refs := remove1 a (held_refs s)\<rparr>)"
proof -
  have la: "a \<in> set (live_refs s)" and k: "kernel_ok (rdev s)"
    using inv a by (auto simp: heap_inv_def)
  note f = arc_release_fields [OF rel k]
  have r: "arc_strong d (arc_ptr b) = count_list (remove1 a (held_refs s)) b"
    if "b \<in> set (live_refs s)" for b
    using inv la that live_ref_ptr(2) [OF inv la that]
    by (simp add: f(5) count_list_remove1 heap_inv_def)
  have w: "arc_strong d (arc_ptr v) = arc_strong (rdev s) (arc_ptr v)"
    if "v \<in> set (live_weaks s)" for v
    using live_ref_ptr(4) [OF inv la that] by (simp add: f(5))
  have "set (remove1 a (held_refs s)) \<subseteq> set (live_refs s)"
    using inv set_remove1_subset unfolding heap_inv_def by fast
  with inv r w f(1-4) show ?thesis by (simp add: heap_inv_def)
qed

lemma heap_release_weak:
  assumes inv: "heap_inv s" and w: "w \<in> set (held_weaks s)"
    and rel: "arc_release w (rdev s) = (Inr l, d)"
  shows "heap_inv (s\<lparr>rdev := d, held_weaks := remove1 w (held_weaks s)\<rparr>)"
proof -
  have lw: "w \<in> set (live_weaks s)" and k: "kernel_ok (rdev s)"
    using inv w by (auto simp: heap_inv_def)
  note f = arc_release_fields [OF rel k]
  have r: "arc_strong d (arc_ptr v) = count_list (remove1 w (held_weaks s)) v +
      count_list (map (weak \<circ> arc_val) (live_refs s)) v" if "v \<in> set (live_weaks s)" for v
    using inv lw that live_weak_ptr(2) [OF inv lw that] count_list_pos [OF w]
    by (auto simp: f(5) count_list_remove1 heap_inv_def)
  have a: "arc_strong d (arc_ptr b) = arc_strong (rdev s) (arc_ptr b)"
    if "b \<in> set (live_refs s)" for b
    using live_weak_ptr(3) [OF inv lw that] by (simp add: f(5))
  have "set (remove1 w (held_weaks s)) \<subseteq> set (live_weaks s)"
    using inv set_remove1_subset unfolding heap_inv_def by fast
  with inv r a f(1-4) show ?thesis by (simp add: heap_inv_def)
qed

lemma heap_fresh:
  assumes "heap_inv s" and "next_arc (rdev s) \<le> n"
  shows "\<forall>a \<in> set (live_refs s). arc_ptr a \<noteq> n" "\<forall>w \<in> set (live_weaks s). arc_ptr w \<noteq> n"
  using assms by (auto simp: heap_inv_def)

lemma count_list_notin: "x \<notin> set xs \<Longrightarrow> count_list xs x = 0"
  by (simp add: count_notin)

lemma heap_create:
  assumes inv: "heap_inv s" and w: "w \<in> set (held_weaks s)"
    and "ref_create (weak_handle w) w (rdev s) = (Inr a, d)"
  shows "heap_inv (s\<lparr>rdev := d, live_refs := a # live_refs s, held_refs := a # held_refs s,
    held_weaks := remove1 w (held_weaks s)\<rparr>)"
proof -
  have k: "kernel_ok (rdev s)" and lw: "w \<in> set (live_weaks s)"
    using inv w by (auto simp: heap_inv_def)
  have a: "a = \<lparr>arc_ptr = next_arc (rdev s), arc_val = \<lparr>weak = w\<rparr>\<rparr>"
    using assms(3) by (simp add: ref_create_ok [OF k])
  note fresh = heap_fresh [OF inv order_refl]
  have "a \<notin> set (live_refs s)" using fresh(1) a by auto
  then have "a \<notin> set (held_refs s)" using inv by (auto simp: heap_inv_def)
  then have c0: "count_list (held_refs s) a = 0" by (rule count_list_notin)
  show ?thesis
    using inv w lw fresh c0 count_list_pos [OF w] set_remove1_subset [of w "held_weaks s"] assms(3)
    unfolding heap_inv_def ref_create_ok [OF k]
    by (auto simp: a ref_handle_def less_Suc_eq count_list_remove1 split: if_splits)
qed

lemma heap_create_weak:
  assumes inv: "heap_inv s" and "weak_create h (rdev s) = (Inr w, d)"
  shows "heap_inv (s\<lparr>rdev := d, live_weaks := w # live_weaks s, held_weaks := w # held_weaks s\<rparr>)"
proof -
  have k: "kernel_ok (rdev s)" using inv by (simp add: heap_inv_def)
  have w: "arc_ptr w = next_arc (rdev s) + 1" "weak_handle w = h"
    using assms(2) by (auto simp: weak_create_ok [OF k] Let_def weak_handle_def)
  note fresh = heap_fresh [OF inv, of "next_arc (rdev s) + 1"] heap_fresh [OF inv order_refl]
  have "w \<notin> set (live_weaks s)" using fresh(2) w by auto
  then have "w \<notin> set (held_weaks s)" "w \<notin> set (map (weak \<circ> arc_val) (live_refs s))"
    using inv by (auto simp: heap_inv_def)
  then have c0: "count_list (held_weaks s) w = 0"
      "count_list (map (weak \<circ> arc_val) (live_refs s)) w = 0"
    by (simp_all add: count_list_notin del: set_map)
  show ?thesis
    using inv fresh c0 w assms(2)
    unfolding heap_inv_def weak_create_ok [OF k] Let_def
    by (auto simp: less_Suc_eq split: if_splits)
qed

lemma distinct_remove1_ptr:
  assumes "distinct (map arc_ptr xs)"
  shows "distinct (map arc_ptr (remove1 x xs))" and "set (remove1 x xs) = set xs - {x}"
  using assms by (auto simp: distinct_map intro: inj_on_subset)

lemma count_map_remove1:
  assumes "a \<in> set xs"
  shows "count_list (map f xs) w = (if f a = w then 1 else 0) + count_list (map f (remove1 a xs)) w"
  using assms by (induction xs) auto

lemma heap_destroy:
  assumes inv: "heap_inv s" and a: "a \<in> set (live_refs s)" and z: "arc_strong (rdev s) (arc_ptr a) = 0"
    and "ref_drop_body a (rdev s) = (Inr (), d)"
  shows "heap_inv (s\<lparr>rdev := d, live_refs := remove1 a (live_refs s),
    held_weaks := weak (arc_val a) # held_weaks s\<rparr>)"
proof -
  have k: "kernel_ok (rdev s)" and da: "distinct (map arc_ptr (live_refs s))"
    and wa: "weak (arc_val a) \<in> set (live_weaks s)" and ca: "count_list (held_refs s) a = 0"
    using inv a z by (auto simp: heap_inv_def)
  note dr = distinct_remove1_ptr [OF da, of a]
  have held: "a \<notin> set (held_refs s)" using ca by (simp add: count_list_0_iff)
  have d: "arc_strong d = arc_strong (rdev s)" "next_arc d = next_arc (rdev s)" "kernel_ok d"
    "weak_refs d = weak_refs (rdev s)"
    using assms(4) k by (auto simp: ref_drop_body_ok [OF k])
  have "refs d h = Some b \<Longrightarrow> refs (rdev s) h = Some b \<and> b \<noteq> a" for h b
    using assms(4) z inv unfolding ref_drop_body_ok [OF k] heap_inv_def
    by (auto split: option.splits if_splits)
  then have r: "refs d h = Some b \<Longrightarrow> b \<in> set (live_refs s) \<and> b \<noteq> a \<and> ref_handle b = h" for h b
    using inv unfolding heap_inv_def by blast
  have "count_list (map (weak \<circ> arc_val) (live_refs s)) w =
      (if weak (arc_val a) = w then 1 else 0) +
      count_list (map (weak \<circ> arc_val) (remove1 a (live_refs s))) w" for w
    using count_map_remove1 [OF a, of "weak \<circ> arc_val" w] by simp
  then show ?thesis
    using inv d dr wa held r unfolding heap_inv_def by auto
qed

lemma heap_destroy_weak:
  assumes inv: "heap_inv s" and w: "w \<in> set (live_weaks s)" and z: "arc_strong (rdev s) (arc_ptr w) = 0"
    and "weak_drop_body w (rdev s) = (Inr (), d)"
  shows "heap_inv (s\<lparr>rdev := d, live_weaks := remove1 w (live_weaks s)\<rparr>)"
proof -
  have k: "kernel_ok (rdev s)" and dw: "distinct (map arc_ptr (live_weaks s))"
    and c: "count_list (held_weaks s) w = 0"
      "count_list (map (weak \<circ> arc_val) (live_refs s)) w = 0"
    using inv w z by (auto simp: heap_inv_def)
  note dr = distinct_remove1_ptr [OF dw, of w]
  have held: "w \<notin> set (held_weaks s)" "\<forall>a \<in> set (live_refs s). weak (arc_val a) \<noteq> w"
    using c by (auto simp: count_list_0_iff)
  have d: "arc_strong d = arc_strong (rdev s)" "next_arc d = next_arc (rdev s)" "kernel_ok d"
    "refs d = refs (rdev s)"
    using assms(4) k by (auto simp: weak_drop_body_ok [OF k])
  have "weak_refs d h = Some v \<Longrightarrow> weak_refs (rdev s) h = Some v \<and> v \<noteq> w" for h v
    using assms(4) z inv unfolding weak_drop_body_ok [OF k] heap_inv_def
    by (auto split: option.splits if_splits)
  then have r: "weak_refs d h = Some v \<Longrightarrow> v \<in> set (live_weaks s) \<and> v \<noteq> w \<and> weak_handle v = h" for h v
    using inv unfolding heap_inv_def by blast
  show ?thesis
    using inv d dr held r unfolding heap_inv_def by auto
qed

lemma heap_died:
  assumes "heap_inv s" and "dead_binder ck (rdev s) = (Inr (), d)"
  shows "heap_inv (s\<lparr>rdev := d, delivered := x\<rparr>)"
  using assms by (auto simp: dead_binder_ok heap_inv_def split: option.splits)

lemma held_live:
  "heap_inv s \<Longrightarrow> a \<in> set (held_refs s) \<Longrightarrow> a \<in> set (live_refs s)"
  "heap_inv s \<Longrightarrow> w \<in> set (held_weaks s) \<Longrightarrow> w \<in> set (live_weaks s)"
  "heap_inv s \<Longrightarrow> a \<in> set (live_refs s) \<Longrightarrow> weak (arc_val a) \<in> set (live_weaks s)"
  "heap_inv s \<Longrightarrow> refs (rdev s) h = Some a \<Longrightarrow> a \<in> set (live_refs s) \<and> ref_handle a = h"
  "heap_inv s \<Longrightarrow> weak_refs (rdev s) h = Some w \<Longrightarrow> w \<in> set (live_weaks s) \<and> weak_handle w = h"
  by (auto simp: heap_inv_def)

lemma rstep_heap: "rstep s t \<Longrightarrow> heap_inv s \<Longrightarrow> heap_inv t"
proof (induction rule: rstep.induct)
  case (lookup h s a d)
  note l = lookup_cases(1) [OF lookup.hyps]
  show ?case
    by (rule heap_clone_ref [OF lookup.prems conjunct1 [OF held_live(4) [OF lookup.prems conjunct1 [OF l]]]
          conjunct2 [OF l]])
next
  case (weak_look h s w d)
  note l = lookup_cases(2) [OF weak_look.hyps]
  show ?case
    by (rule heap_clone_weak [OF weak_look.prems
          conjunct1 [OF held_live(5) [OF weak_look.prems conjunct1 [OF l]]] conjunct2 [OF l]])
next
  case (clone_ref a s b d)
  then show ?case by (intro heap_clone_ref held_live(1))
next
  case (clone_weak w s v d)
  then show ?case by (intro heap_clone_weak held_live(2))
next
  case (downgrade a s w d)
  then show ?case
    unfolding ref_downgrade_def
    using heap_clone_weak [OF downgrade.prems held_live(3) [OF downgrade.prems
          held_live(1) [OF downgrade.prems downgrade.hyps(1)]]] by blast
next
  case (create w s a d)
  then show ?case by (intro heap_create)
next
  case (create_weak s h w d)
  then show ?case by (intro heap_create_weak)
next
  case (release a s l d)
  then show ?case by (intro heap_release)
next
  case (release_weak w s l d)
  then show ?case by (intro heap_release_weak)
next
  case (destroy a s d)
  then show ?case by (intro heap_destroy)
next
  case (destroy_weak w s d)
  then show ?case by (intro heap_destroy_weak)
next
  case (died s ck d)
  then show ?case by (intro heap_died)
qed

lemma reachable_heap: "refs_reachable s \<Longrightarrow> heap_inv s"
  by (induction rule: refs_reachable.induct) (auto intro: heap_init rstep_heap)

section \<open>The commands balance\<close>

definition sends :: "'h binder_device \<Rightarrow> binder_command \<Rightarrow> cmd_arg \<Rightarrow> nat" where
  "sends d c a = count_list (sent d) (c, a)"

definition refs_to :: "'h ref_sys \<Rightarrow> u32 \<Rightarrow> nat" where
  "refs_to s h = length (filter (\<lambda>a. ref_handle a = h) (live_refs s))"

definition weaks_to :: "'h ref_sys \<Rightarrow> u32 \<Rightarrow> nat" where
  "weaks_to s h = length (filter (\<lambda>w. weak_handle w = h) (live_weaks s))"

definition watchers :: "'h ref_sys \<Rightarrow> handle_cookie \<Rightarrow> nat" where
  "watchers s hc = length (filter (\<lambda>w. weak_handle w = hc_handle hc \<and> cookie_of w = hc_cookie hc)
     (live_weaks s))"

definition balanced :: "'h ref_sys \<Rightarrow> bool" where
  "balanced s \<longleftrightarrow> (\<forall>h hc.
     sends (rdev s) BC_ACQUIRE (Arg_Handle h) =
       sends (rdev s) BC_RELEASE (Arg_Handle h) + refs_to s h \<and>
     sends (rdev s) BC_INCREFS (Arg_Handle h) =
       sends (rdev s) BC_DECREFS (Arg_Handle h) + weaks_to s h \<and>
     sends (rdev s) BC_REQUEST_DEATH_NOTIFICATION (Arg_Handle_Cookie hc) =
       sends (rdev s) BC_CLEAR_DEATH_NOTIFICATION (Arg_Handle_Cookie hc) + watchers s hc)"

lemma filter_remove1_length:
  assumes "x \<in> set xs"
  shows "length (filter P xs) = (if P x then 1 else 0) + length (filter P (remove1 x xs))"
  using assms by (induction xs) auto

lemma sends_append: "count_list (xs @ ys) x = count_list xs x + count_list ys x"
  by simp

lemma balanced_frame:
  "sent d = sent (rdev s) \<Longrightarrow> live_refs t = live_refs s \<Longrightarrow> live_weaks t = live_weaks s \<Longrightarrow>
     rdev t = d \<Longrightarrow> balanced t = balanced s"
  by (simp add: balanced_def sends_def refs_to_def weaks_to_def watchers_def)

lemma arc_ops_sent:
  "arc_clone a d = (r, d') \<Longrightarrow> sent d' = sent d" "arc_release a d = (r', d') \<Longrightarrow> sent d' = sent d"
  by (auto simp: arc_clone_def arc_release_def Let_def)

lemma lookup_sent:
  "ref_lookup h d = (Inr (Some a), d') \<Longrightarrow> sent d' = sent d"
  "weak_lookup h d = (Inr (Some w), d') \<Longrightarrow> sent d' = sent d"
  using lookup_cases arc_ops_sent(1) by blast+

lemma rstep_balanced: "rstep s t \<Longrightarrow> heap_inv s \<Longrightarrow> balanced s \<Longrightarrow> balanced t"
proof (induction rule: rstep.induct)
  case (lookup h s a d)
  then show ?case using lookup_sent(1) by (subst balanced_frame [of d s]) auto
next
  case (weak_look h s w d)
  then show ?case using lookup_sent(2) by (subst balanced_frame [of d s]) auto
next
  case (create w s a d)
  then have k: "kernel_ok (rdev s)" by (simp add: heap_inv_def)
  with create show ?case
    by (auto simp: balanced_def sends_def refs_to_def weaks_to_def watchers_def ref_create_ok
        ref_handle_def)
next
  case (create_weak s h w d)
  then have k: "kernel_ok (rdev s)" by (simp add: heap_inv_def)
  with create_weak show ?case
    by (auto simp: balanced_def sends_def refs_to_def weaks_to_def watchers_def weak_create_ok
        Let_def weak_handle_def)
next
  case (clone_ref a s b d)
  then show ?case using arc_ops_sent(1) by (subst balanced_frame [of d s]) auto
next
  case (clone_weak w s v d)
  then show ?case using arc_ops_sent(1) by (subst balanced_frame [of d s]) auto
next
  case (downgrade a s w d)
  then show ?case
    using arc_ops_sent(1) by (subst balanced_frame [of d s]) (auto simp: ref_downgrade_def)
next
  case (release a s l d)
  then show ?case using arc_ops_sent(2) by (subst balanced_frame [of d s]) auto
next
  case (release_weak w s l d)
  then show ?case using arc_ops_sent(2) by (subst balanced_frame [of d s]) auto
next
  case (destroy a s d)
  then have k: "kernel_ok (rdev s)" by (simp add: heap_inv_def)
  with destroy show ?case
    using filter_remove1_length [OF destroy.hyps(1), of "\<lambda>a. ref_handle a = _"]
    by (auto simp: balanced_def sends_def refs_to_def weaks_to_def watchers_def ref_drop_body_ok)
next
  case (destroy_weak w s d)
  then have k: "kernel_ok (rdev s)" by (simp add: heap_inv_def)
  with destroy_weak show ?case
    using filter_remove1_length [OF destroy_weak.hyps(1)]
    by (auto simp: balanced_def sends_def refs_to_def weaks_to_def watchers_def weak_drop_body_ok)
next
  case (died s ck d)
  then show ?case
    by (auto simp: balanced_def sends_def refs_to_def weaks_to_def watchers_def dead_binder_ok
        split: option.splits)
qed

lemma reachable_balanced: "refs_reachable s \<Longrightarrow> balanced s"
proof (induction rule: refs_reachable.induct)
  case start
  show ?case by (simp add: balanced_def init_refs_def sends_def refs_to_def weaks_to_def
        watchers_def new_device_def)
next
  case (step s t)
  then show ?case using rstep_balanced reachable_heap by blast
qed

section \<open>Death notifications\<close>

abbreviation token_of :: "weak_binder_ref arc \<Rightarrow> nat" where
  "token_of w \<equiv> death (arc_val w)"

definition death_inv :: "'h ref_sys \<Rightarrow> bool" where
  "death_inv s \<longleftrightarrow>
     (\<forall>w \<in> set (live_weaks s). token_of w < next_arc (rdev s) \<and>
        cookie_of w < death_counter (rdev s) \<and>
        (if cancelled (rdev s) (token_of w)
         then cookie_of w \<in> delivered s \<and> death_notifications (rdev s) (cookie_of w) = None
         else cookie_of w \<notin> delivered s \<and>
           death_notifications (rdev s) (cookie_of w) = Some (token_of w))) \<and>
     distinct (map cookie_of (live_weaks s)) \<and> distinct (map token_of (live_weaks s)) \<and>
     (\<forall>ck tok. death_notifications (rdev s) ck = Some tok \<longrightarrow>
        (\<exists>w \<in> set (live_weaks s). cookie_of w = ck \<and> token_of w = tok)) \<and>
     (\<forall>ck. requested (rdev s) ck \<longrightarrow> ck < death_counter (rdev s)) \<and>
     (\<forall>ck \<in> delivered s. ck < death_counter (rdev s))"

lemma death_init: "death_inv init_refs"
  by (simp add: death_inv_def init_refs_def new_device_def requested_def)

lemma death_frame:
  assumes "death_inv s" and "live_weaks t = live_weaks s" and "delivered t = delivered s"
    and "cancelled (rdev t) = cancelled (rdev s)" "death_counter (rdev t) = death_counter (rdev s)"
    and "death_notifications (rdev t) = death_notifications (rdev s)"
    and "next_arc (rdev s) \<le> next_arc (rdev t)"
    and "\<And>ck. requested (rdev t) ck \<Longrightarrow> requested (rdev s) ck"
  shows "death_inv t"
  using assms unfolding death_inv_def by (auto intro: less_le_trans)

lemma arc_clone_frame:
  assumes "arc_clone a d = (r, d')"
  shows "cancelled d' = cancelled d" "death_counter d' = death_counter d"
    "death_notifications d' = death_notifications d" "next_arc d' = next_arc d" "sent d' = sent d"
  using assms by (auto simp: arc_clone_def)

lemma arc_release_frame:
  assumes "arc_release a d = (r, d')"
  shows "cancelled d' = cancelled d" "death_counter d' = death_counter d"
    "death_notifications d' = death_notifications d" "next_arc d' = next_arc d" "sent d' = sent d"
  using assms by (auto simp: arc_release_def Let_def)

lemma death_clone:
  assumes "death_inv s" and "arc_clone a (rdev s) = (r, d)"
  shows "death_inv (s\<lparr>rdev := d, held_refs := x\<rparr>)" "death_inv (s\<lparr>rdev := d, held_weaks := y\<rparr>)"
  by (rule death_frame [OF assms(1)]; simp add: arc_clone_frame [OF assms(2)] requested_def)+

lemma death_release:
  assumes "death_inv s" and "arc_release a (rdev s) = (r, d)"
  shows "death_inv (s\<lparr>rdev := d, held_refs := x\<rparr>)" "death_inv (s\<lparr>rdev := d, held_weaks := y\<rparr>)"
  by (rule death_frame [OF assms(1)]; simp add: arc_release_frame [OF assms(2)] requested_def)+

lemma death_create_weak:
  assumes inv: "death_inv s" and k: "kernel_ok (rdev s)" and c: "death_counter (rdev s) \<noteq> - 1"
    and "weak_create h (rdev s) = (Inr w, d)"
  shows "death_inv (s\<lparr>rdev := d, live_weaks := w # live_weaks s, held_weaks := x\<rparr>)"
proof -
  let ?ck = "death_counter (rdev s)" and ?tok = "next_arc (rdev s)"
  have w: "cookie_of w = ?ck" "token_of w = ?tok" and d: "cancelled d = (cancelled (rdev s))(?tok := False)"
    "death_counter d = ?ck + 1" "death_notifications d = (death_notifications (rdev s))(?ck \<mapsto> ?tok)"
    "next_arc d = next_arc (rdev s) + 2"
    "\<And>ck. requested d ck \<longleftrightarrow> requested (rdev s) ck \<or> ck = ?ck"
    using assms(4) by (auto simp: weak_create_ok [OF k] Let_def requested_def)
  have fresh: "\<forall>v \<in> set (live_weaks s). cookie_of v \<noteq> ?ck \<and> token_of v \<noteq> ?tok" "?ck \<notin> delivered s"
    using inv by (auto simp: death_inv_def)
  have grow: "ck < ?ck + 1" if "ck < ?ck \<or> ck = ?ck" for ck
    using that counter_step [OF c] word_less_succ [OF c] by auto
  have nd: "\<forall>ck tok. death_notifications d ck = Some tok \<longrightarrow>
      (\<exists>v \<in> set (w # live_weaks s). cookie_of v = ck \<and> token_of v = tok)"
    using inv w by (auto simp: d death_inv_def split: if_splits)
  show ?thesis
    using inv fresh w nd grow unfolding death_inv_def
    by (auto simp: d dest: less_SucI)
qed

lemma death_destroy_weak:
  assumes inv: "death_inv s" and k: "kernel_ok (rdev s)" and w: "w \<in> set (live_weaks s)"
    and "weak_drop_body w (rdev s) = (Inr (), d)"
  shows "death_inv (s\<lparr>rdev := d, live_weaks := remove1 w (live_weaks s)\<rparr>)"
proof -
  have d: "cancelled d = cancelled (rdev s)" "death_counter d = death_counter (rdev s)"
    "death_notifications d = (death_notifications (rdev s))(cookie_of w := None)"
    "next_arc d = next_arc (rdev s)" "\<And>ck. requested d ck \<longleftrightarrow> requested (rdev s) ck"
    using assms(4) by (auto simp: weak_drop_body_ok [OF k] requested_def)
  have dist: "distinct (map cookie_of (live_weaks s))" "distinct (map token_of (live_weaks s))"
    using inv by (simp_all add: death_inv_def)
  then have set: "set (remove1 w (live_weaks s)) = set (live_weaks s) - {w}"
    by (simp add: distinct_map)
  have "distinct (map cookie_of (remove1 w (live_weaks s)))"
    "distinct (map token_of (remove1 w (live_weaks s)))"
    using dist by (auto simp: distinct_map intro: inj_on_subset)
  moreover have "\<forall>v \<in> set (live_weaks s) - {w}. cookie_of v \<noteq> cookie_of w"
    using dist(1) w by (auto simp: distinct_map inj_on_def)
  moreover have "\<exists>v \<in> set (live_weaks s) - {w}. cookie_of v = ck \<and> token_of v = tok"
    if nd: "death_notifications (rdev s) ck = Some tok" "ck \<noteq> cookie_of w" for ck tok
  proof -
    obtain v where "v \<in> set (live_weaks s)" "cookie_of v = ck" "token_of v = tok"
      using inv nd(1) unfolding death_inv_def by blast
    with nd(2) show ?thesis by auto
  qed
  ultimately show ?thesis
    using inv unfolding death_inv_def by (simp add: d set)
qed

lemma death_died:
  assumes inv: "death_inv s" and r: "requested (rdev s) ck"
    and "dead_binder ck (rdev s) = (Inr (), d)"
  shows "death_inv (s\<lparr>rdev := d, delivered := insert ck (delivered s)\<rparr>)"
proof (cases "death_notifications (rdev s) ck")
  case None
  then have d: "d = (rdev s)\<lparr>sent := sent (rdev s) @ [(BC_DEAD_BINDER_DONE, Arg_Uintptr ck)]\<rparr>"
    using assms(3) by (simp add: dead_binder_ok)
  have "\<forall>w \<in> set (live_weaks s). cookie_of w = ck \<longrightarrow> cancelled (rdev s) (token_of w)"
    using inv None by (fastforce simp: death_inv_def split: if_splits)
  with inv r show ?thesis
    unfolding death_inv_def by (auto simp: d requested_def)
next
  case (Some tok)
  then have d: "d = (rdev s)\<lparr>death_notifications := (death_notifications (rdev s))(ck := None),
      cancelled := (cancelled (rdev s))(tok := True),
      sent := sent (rdev s) @ [(BC_DEAD_BINDER_DONE, Arg_Uintptr ck)]\<rparr>"
    using assms(3) by (simp add: dead_binder_ok)
  obtain v where v: "v \<in> set (live_weaks s)" "cookie_of v = ck" "token_of v = tok"
    using inv Some unfolding death_inv_def by blast
  have same: "cookie_of w = ck \<longleftrightarrow> w = v" "token_of w = tok \<longleftrightarrow> w = v" if "w \<in> set (live_weaks s)" for w
    using inv v that by (auto simp: death_inv_def distinct_map inj_on_def)
  have nd: "\<exists>w \<in> set (live_weaks s). cookie_of w = c \<and> token_of w = t"
    if "death_notifications (rdev s) c = Some t" for c t
    using inv that unfolding death_inv_def by blast
  have eq: "cookie_of w = ck \<longleftrightarrow> token_of w = tok" if "w \<in> set (live_weaks s)" for w
    using same [OF that] by simp
  have "requested d = requested (rdev s)" by (auto simp: d requested_def fun_eq_iff)
  moreover from this have "requested ((rdev s)\<lparr>death_notifications := x, cancelled := y,
      sent := sent (rdev s) @ [(BC_DEAD_BINDER_DONE, Arg_Uintptr ck)]\<rparr>) = requested (rdev s)" for x y
    by (auto simp: requested_def fun_eq_iff)
  ultimately show ?thesis
    using inv r eq nd unfolding death_inv_def by (simp add: d)
qed

lemma rstep_death: "rstep s t \<Longrightarrow> heap_inv s \<Longrightarrow> death_inv s \<Longrightarrow> death_inv t"
proof (induction rule: rstep.induct)
  case (lookup h s a d)
  then show ?case using lookup_cases(1) death_clone(1) by blast
next
  case (weak_look h s w d)
  then show ?case using lookup_cases(2) death_clone(2) by blast
next
  case (create w s a d)
  then have k: "kernel_ok (rdev s)" by (simp add: heap_inv_def)
  with create show ?case
    by (intro death_frame [OF create.prems(2)]) (auto simp: ref_create_ok requested_def)
next
  case (create_weak s h w d)
  then have k: "kernel_ok (rdev s)" by (simp add: heap_inv_def)
  with create_weak show ?case by (intro death_create_weak)
next
  case (destroy a s d)
  then have k: "kernel_ok (rdev s)" by (simp add: heap_inv_def)
  with destroy show ?case
    by (intro death_frame [OF destroy.prems(2)]) (auto simp: ref_drop_body_ok requested_def)
next
  case (destroy_weak w s d)
  then have k: "kernel_ok (rdev s)" by (simp add: heap_inv_def)
  with destroy_weak show ?case by (intro death_destroy_weak)
qed (auto intro: death_clone death_release death_died simp: ref_downgrade_def)

lemma reachable_death: "refs_reachable s \<Longrightarrow> death_inv s"
  by (induction rule: refs_reachable.induct) (auto intro: death_init rstep_death reachable_heap)

section \<open>Properties of remote references\<close>

text \<open>A run to test the properties on: two clients of handle 7, then its death.\<close>

definition demo_weak :: "weak_binder_ref arc" where
  "demo_weak = \<lparr>arc_ptr = 1, arc_val = \<lparr>wr_id = 7, death = 0, death_notif_cookie = 1\<rparr>\<rparr>"

definition demo_refs :: "unit ref_sys" where
  "demo_refs = \<lparr>rdev = snd (weak_create 7 (new_device (\<lambda>_. None))), live_refs = [],
     live_weaks = [demo_weak], held_refs = [], held_weaks = [demo_weak], delivered = {}\<rparr>"

lemma kernel_ok_new [simp]: "kernel_ok (new_device (\<lambda>_. None))"
  by (simp add: kernel_ok_def new_device_def)

lemma reach_demo_refs: "refs_reachable demo_refs"
proof -
  let ?s = "init_refs :: unit ref_sys"
  have "weak_create 7 (rdev ?s) = (Inr demo_weak, rdev demo_refs)"
    by (simp add: weak_create_ok init_refs_def Let_def demo_refs_def demo_weak_def)
      (simp add: new_device_def)
  moreover have "death_counter (rdev ?s) \<noteq> - 1" by (simp add: init_refs_def new_device_def)
  ultimately have "rstep ?s (?s\<lparr>rdev := rdev demo_refs,
      live_weaks := demo_weak # live_weaks ?s, held_weaks := demo_weak # held_weaks ?s\<rparr>)"
    by (intro rstep.create_weak)
  also have "(?s\<lparr>rdev := rdev demo_refs, live_weaks := demo_weak # live_weaks ?s,
      held_weaks := demo_weak # held_weaks ?s\<rparr>) = demo_refs"
    by (simp add: demo_refs_def init_refs_def)
  finally show ?thesis using refs_reachable.start by (rule refs_reachable.step [rotated])
qed

text \<open>C4: The kernel's counts are kept exactly, under every interleaving of threads that
  look up, create, clone and drop references: for each handle, the acquires sent exceed the
  releases by the number of existing \<open>BinderRef\<close> values, the increfs exceed the decrefs by the
  number of existing \<open>WeakBinderRef\<close> values, and each of those has exactly its own death
  notification requested and not cleared.\<close>

theorem commands_balance:
  assumes "refs_reachable s"
  shows "sends (rdev s) BC_ACQUIRE (Arg_Handle h) =
      sends (rdev s) BC_RELEASE (Arg_Handle h) + refs_to s h \<and>
    sends (rdev s) BC_INCREFS (Arg_Handle h) =
      sends (rdev s) BC_DECREFS (Arg_Handle h) + weaks_to s h \<and>
    sends (rdev s) BC_REQUEST_DEATH_NOTIFICATION (Arg_Handle_Cookie hc) =
      sends (rdev s) BC_CLEAR_DEATH_NOTIFICATION (Arg_Handle_Cookie hc) + watchers s hc"
  using reachable_balanced [OF assms] unfolding balanced_def by blast

theorem commands_balance_witness:
  "sends (rdev demo_refs) BC_INCREFS (Arg_Handle 7) = 1 \<and>
   sends (rdev demo_refs) BC_DECREFS (Arg_Handle 7) = 0 \<and> weaks_to demo_refs 7 = 1"
  using commands_balance [OF reach_demo_refs, of 7]
  by (simp add: demo_refs_def weak_create_ok Let_def sends_def weaks_to_def weak_handle_def
      demo_weak_def) (simp add: new_device_def)



text \<open>C19: A reference reports the death of its own object and of no other: in every reachable
  state, an existing weak reference is dead exactly when the kernel has delivered a death
  notification with its cookie.\<close>

theorem dead_iff_notified:
  assumes "refs_reachable s" and "w \<in> set (live_weaks s)"
  shows "weak_alive (rdev s) w \<longleftrightarrow> cookie_of w \<notin> delivered s"
proof -
  have "if cancelled (rdev s) (token_of w)
      then cookie_of w \<in> delivered s \<and> death_notifications (rdev s) (cookie_of w) = None
      else cookie_of w \<notin> delivered s \<and>
        death_notifications (rdev s) (cookie_of w) = Some (token_of w)"
    using reachable_death [OF assms(1)] assms(2) unfolding death_inv_def by blast
  then show ?thesis by (auto simp: weak_alive_def split: if_splits)
qed

theorem dead_iff_notified_witness: "weak_alive (rdev demo_refs) demo_weak"
  using dead_iff_notified [OF reach_demo_refs, of demo_weak] by (simp add: demo_refs_def)

definition demo_got :: "binder_ref arc \<times> unit binder_device" where
  "demo_got = (case ref_get_and_dedup_from_raw 7 (new_device (\<lambda>_. None)) of
     (r, d) \<Rightarrow> (projr r, d))"

lemma new_device_empty:
  "refs (new_device k) h = None" "weak_refs (new_device k) h = None" "sent (new_device k) = []"
  by (simp_all add: new_device_def)

lemma demo_got:
  "ref_get_and_dedup_from_raw 7 (new_device (\<lambda>_. None)) = (Inr (fst demo_got), snd demo_got)"
  "length (sent (snd demo_got)) = 3"
  by (simp_all add: demo_got_def ref_get_and_dedup_from_raw_def bind_def ref_lookup_def
      weak_get_and_dedup_from_raw_def weak_lookup_def weak_create_ok ref_create_ok Let_def
      new_device_empty)

text \<open>Deduplication: once \<open>BinderRef::get_and_dedup_from_raw\<close> has returned a reference to a
  handle, calling it again returns the very same \<open>Arc\<close>, counts one more holder and sends the
  kernel nothing, whatever state the device was in before.\<close>

theorem get_is_deduplicated:
  assumes "ref_get_and_dedup_from_raw h d = (Inr a, d1)"
  shows "ref_get_and_dedup_from_raw h d1 =
    (Inr a, d1\<lparr>arc_strong := (arc_strong d1)(arc_ptr a := arc_strong d1 (arc_ptr a) + 1)\<rparr>)"
proof -
  have create: "refs d2 h = Some b \<and> arc_strong d2 (arc_ptr b) = 1"
    if "ref_create h w d0 = (Inr b, d2)" for w d0 b d2
    using that by (auto simp: ref_create_def arc_new_def bind_def dev_write_struct_command_def
        write_binder_struct_command_def split: sum.splits option.splits)
  have "refs d1 h = Some a \<and> arc_strong d1 (arc_ptr a) \<noteq> 0"
    using assms create
    by (fastforce simp: ref_get_and_dedup_from_raw_def bind_def ref_lookup_def arc_upgrade_def
        arc_clone_def split: sum.splits option.splits if_splits prod.splits)
  then show ?thesis
    by (simp add: ref_get_and_dedup_from_raw_def bind_def ref_lookup_def arc_upgrade_def
        arc_clone_def)
qed

theorem get_is_deduplicated_witness:
  "fst (ref_get_and_dedup_from_raw 7 (snd demo_got)) = Inr (fst demo_got) \<and>
   length (sent (snd (ref_get_and_dedup_from_raw 7 (snd demo_got)))) = 3"
  using get_is_deduplicated [OF demo_got(1)] demo_got(2) by simp

text \<open>C21: The life of one reference: on a handle the device does not know, getting the reference
  and dropping it sends exactly the six commands of the protocol, each reference count taken
  before it is given back, the strong one inside the weak one and the death notification inside
  the weak reference, and leaves no entry for the handle.\<close>

theorem get_then_drop_protocol:
  assumes "kernel_ok d" and "refs d h = None" and "weak_refs d h = None"
    and "ref_get_and_dedup_from_raw h d = (Inr a, d1)"
  shows "\<exists>d2. ref_drop a d1 = (Inr (), d2) \<and> refs d2 h = None \<and> weak_refs d2 h = None \<and>
    (let watch = Arg_Handle_Cookie \<lparr>hc_handle = h, hc_cookie = death_counter d\<rparr> in
     sent d2 = sent d @
       [(BC_INCREFS, Arg_Handle h), (BC_REQUEST_DEATH_NOTIFICATION, watch),
        (BC_ACQUIRE, Arg_Handle h), (BC_RELEASE, Arg_Handle h),
        (BC_CLEAR_DEATH_NOTIFICATION, watch), (BC_DECREFS, Arg_Handle h)])"
proof -
  have got: "(Inr a, d1) = (case weak_create h d of (r, d') \<Rightarrow> ref_create h (projr r) d')"
    using assms by (simp add: ref_get_and_dedup_from_raw_def weak_get_and_dedup_from_raw_def
        bind_def ref_lookup_def weak_lookup_def weak_create_ok Let_def)
  show ?thesis
    using got assms(1)
    by (simp add: weak_create_ok ref_create_ok Let_def ref_drop_def bind_def arc_release_def
        ref_drop_body_ok weak_drop_def weak_drop_body_ok ref_handle_def weak_handle_def)
qed

theorem get_then_drop_protocol_witness:
  "\<exists>d2. ref_drop (fst demo_got) (snd demo_got) = (Inr (), d2) \<and> refs d2 7 = None"
  using get_then_drop_protocol [OF _ _ _ demo_got(1)] by (auto simp: new_device_def kernel_ok_def)

end
