(* ===== verification/Payload_Builder.thy ===== *)
theory Payload_Builder
  imports Remote_Refs
begin

text \<open>
  \<open>PayloadBuilder\<close> of \<open>src/src/payload.rs\<close>: the bytes of a transaction with the offsets
  of the kernel objects embedded in them, and the conversions of
  \<open>src/src/binder_object.rs\<close> that say what is embedded for a value that is sent.

  Alignment is the loop of the source, so a builder that is asked for an alignment of
  zero may never return: the operations give an option. The invariant \<open>laid_out\<close> is
  what the kernel and the reader rely on.
\<close>

section \<open>What can be sent\<close>

text \<open>The implementors of \<open>ToBinderObjectOrRef\<close>.\<close>

datatype 'h sendable =
    Send_Object "'h binder_object"
  | Send_Object_Ref "'h binder_object_ref"
  | Send_Borrowed "'h borrowed_binder_object"
  | Send_Weak_Object binder_object_id
  | Send_Ref "binder_ref arc"
  | Send_Weak_Ref "weak_binder_ref arc"
  | Send_Erased "'h binder_object_or_ref"

definition object_or_ref_clone :: "profile \<Rightarrow> 'h binder_object_or_ref \<Rightarrow>
    ('h, 'h binder_object_or_ref) dev_action" where
  "object_or_ref_clone prof x = (case x of
     Object b \<Rightarrow> bind (borrowed_clone prof b) (\<lambda>c. ret (Object c))
   | WeakObject i \<Rightarrow> ret (WeakObject i)
   | Ref a \<Rightarrow> bind (arc_clone a) (\<lambda>b. ret (Ref b))
   | WeakRef w \<Rightarrow> bind (arc_clone w) (\<lambda>v. ret (WeakRef v)))"

definition object_or_ref_drop :: "profile \<Rightarrow> 'h binder_object_or_ref \<Rightarrow> ('h, unit) dev_action" where
  "object_or_ref_drop prof x = (case x of
     Object b \<Rightarrow> borrowed_drop prof b
   | WeakObject i \<Rightarrow> ret ()
   | Ref a \<Rightarrow> ref_drop a
   | WeakRef w \<Rightarrow> weak_drop w)"

definition object_or_ref_alive :: "'h binder_device \<Rightarrow> 'h binder_object_or_ref \<Rightarrow> bool" where
  "object_or_ref_alive d x = (case x of
     Object b \<Rightarrow> True
   | WeakObject i \<Rightarrow> True
   | Ref a \<Rightarrow> weak_alive d (weak (arc_val a))
   | WeakRef w \<Rightarrow> weak_alive d w)"

definition to_binder_object_or_ref :: "profile \<Rightarrow> 'h sendable \<Rightarrow>
    ('h, 'h binder_object_or_ref) dev_action" where
  "to_binder_object_or_ref prof x = (case x of
     Send_Object ob \<Rightarrow> object_to_object_or_ref prof ob
   | Send_Object_Ref r \<Rightarrow> bind (object_ref_as_erased prof r) (\<lambda>b. ret (Object b))
   | Send_Borrowed b \<Rightarrow> bind (borrowed_clone prof b) (\<lambda>c. ret (Object c))
   | Send_Weak_Object i \<Rightarrow> ret (WeakObject i)
   | Send_Ref a \<Rightarrow> bind (arc_clone a) (\<lambda>b. ret (Ref b))
   | Send_Weak_Ref w \<Rightarrow> bind (arc_clone w) (\<lambda>v. ret (WeakRef v))
   | Send_Erased y \<Rightarrow> object_or_ref_clone prof y)"

text \<open>\<open>FlatBinderFlags::ACCEPTS_FDS\<close>\<close>

definition ACCEPTS_FDS :: u32 where "ACCEPTS_FDS = 0x100"

text \<open>
  \<open>get_flat_binder_object\<close> of the four kinds of values; \<open>junk\<close> is what the upper half of the
  union holds when only its \<open>handle\<close> is written.
\<close>

definition borrowed_flat :: "'h borrowed_binder_object \<Rightarrow> flat_binder_object" where
  "borrowed_flat b = \<lparr>hdr_type = BINDER, flags = ACCEPTS_FDS, obj_data = id_raw (bbo_id b),
     cookie = id_cookie (bbo_id b)\<rparr>"

definition weak_object_flat :: "binder_object_id \<Rightarrow> flat_binder_object" where
  "weak_object_flat i = \<lparr>hdr_type = WEAK_BINDER, flags = ACCEPTS_FDS, obj_data = id_raw i,
     cookie = id_cookie i\<rparr>"

definition ref_flat :: "u32 \<Rightarrow> binder_ref arc \<Rightarrow> flat_binder_object" where
  "ref_flat junk a = \<lparr>hdr_type = HANDLE, flags = ACCEPTS_FDS,
     obj_data = union_write32 junk (ref_handle a), cookie = 0\<rparr>"

definition weak_ref_flat :: "u32 \<Rightarrow> weak_binder_ref arc \<Rightarrow> flat_binder_object" where
  "weak_ref_flat junk w = \<lparr>hdr_type = WEAK_HANDLE, flags = ACCEPTS_FDS,
     obj_data = union_write32 junk (weak_handle w), cookie = 0\<rparr>"

definition get_flat_binder_object :: "u32 \<Rightarrow> 'h binder_object_or_ref \<Rightarrow> flat_binder_object" where
  "get_flat_binder_object junk x = (case x of
     Object b \<Rightarrow> borrowed_flat b
   | Ref a \<Rightarrow> ref_flat junk a
   | WeakRef w \<Rightarrow> weak_ref_flat junk w
   | WeakObject i \<Rightarrow> weak_object_flat i)"

lemmas flat_defs [simp] = borrowed_flat_def weak_object_flat_def ref_flat_def weak_ref_flat_def

section \<open>The builder\<close>

record 'h payload_builder =
  pb_data :: "byte list"
  obj_offsets :: "nat list"
  owned_fds :: "i32 list"
  binder_objects :: "'h binder_object_or_ref list"

definition new_builder :: "'h payload_builder" where
  "new_builder = \<lparr>pb_data = [], obj_offsets = [], owned_fds = [], binder_objects = []\<rparr>"

text \<open>\<open>n.is_multiple_of(0)\<close> holds of zero only, as \<open>n mod 0 = n\<close>.\<close>

definition is_multiple_of :: "nat \<Rightarrow> nat \<Rightarrow> bool" where
  "is_multiple_of n a \<longleftrightarrow> n mod a = 0"

partial_function (option) align_data :: "nat \<Rightarrow> byte list \<Rightarrow> byte list option" where
  "align_data a bs = (if is_multiple_of (length bs) a then Some bs else align_data a (bs @ [0]))"

definition align :: "nat \<Rightarrow> 'h payload_builder \<Rightarrow> 'h payload_builder option" where
  "align a b = map_option (\<lambda>bs. b\<lparr>pb_data := bs\<rparr>) (align_data a (pb_data b))"

definition push_bytes :: "byte list \<Rightarrow> 'h payload_builder \<Rightarrow> 'h payload_builder" where
  "push_bytes bs b = b\<lparr>pb_data := pb_data b @ bs\<rparr>"

text \<open>What every object push does after the alignment: note the offset, append the bytes.\<close>

definition append_object :: "byte list \<Rightarrow> 'h payload_builder \<Rightarrow> 'h payload_builder" where
  "append_object bs b =
     b\<lparr>obj_offsets := obj_offsets b @ [length (pb_data b)], pb_data := pb_data b @ bs\<rparr>"

definition push_binder_ref :: "profile \<Rightarrow> u32 \<Rightarrow> 'h sendable \<Rightarrow> 'h payload_builder \<Rightarrow>
    ('h, 'h payload_builder option) dev_action" where
  "push_binder_ref prof junk x b = bind (to_binder_object_or_ref prof x) (\<lambda>port.
     ret (map_option
       (\<lambda>b. (append_object (enc_flat (get_flat_binder_object junk port)) b)
          \<lparr>binder_objects := binder_objects b @ [port]\<rparr>)
       (align (layout_align FlatBinderObject) b)))"

definition fd_object :: "u32 \<Rightarrow> i32 \<Rightarrow> usize \<Rightarrow> binder_fd_object" where
  "fd_object junk fd ck = \<lparr>fd_hdr_type = FD, pad_flags = 0, fd_data = union_write32 junk fd,
     fd_cookie = ck\<rparr>"

definition push_fd :: "u32 \<Rightarrow> i32 \<Rightarrow> usize \<Rightarrow> 'h payload_builder \<Rightarrow> 'h payload_builder option" where
  "push_fd junk fd ck b = map_option (append_object (enc_fd (fd_object junk fd ck)))
     (align (layout_align BinderFdObject) b)"

definition push_owned_fd :: "u32 \<Rightarrow> i32 \<Rightarrow> usize \<Rightarrow> 'h payload_builder \<Rightarrow>
    'h payload_builder option" where
  "push_owned_fd junk fd ck b = map_option
     (\<lambda>b. (append_object (enc_fd (fd_object junk fd ck)) b)\<lparr>owned_fds := owned_fds b @ [fd]\<rparr>)
     (align (layout_align BinderFdObject) b)"

text \<open>A slice is its address with its bytes; the result is the offset of the object.\<close>

definition push_child_buffer :: "usize \<times> byte list \<Rightarrow> usize \<Rightarrow> usize \<Rightarrow> 'h payload_builder \<Rightarrow>
    (nat \<times> 'h payload_builder) option" where
  "push_child_buffer buf prnt parent_ptr_offset b = map_option
     (\<lambda>b. (length (pb_data b), append_object (enc_buffer \<lparr>buf_hdr_type = PTR, buf_flags = 0,
         buffer = fst buf, buf_length = word_of_nat (length (snd buf)),
         buf_parent = prnt, buf_parent_offset = parent_ptr_offset\<rparr>) b))
     (align (layout_align BinderBufferObject) b)"

definition push_buffer :: "usize \<times> byte list \<Rightarrow> 'h payload_builder \<Rightarrow>
    (nat \<times> 'h payload_builder) option" where
  "push_buffer buf b = map_option
     (\<lambda>b. (length (pb_data b), append_object (enc_buffer \<lparr>buf_hdr_type = PTR, buf_flags = 0,
         buffer = fst buf, buf_length = word_of_nat (length (snd buf)),
         buf_parent = 0, buf_parent_offset = 0\<rparr>) b))
     (align (layout_align BinderBufferObject) b)"

definition push_fd_array :: "usize \<Rightarrow> usize \<Rightarrow> usize \<Rightarrow> 'h payload_builder \<Rightarrow>
    'h payload_builder option" where
  "push_fd_array n prnt parent_ptr_offset b = map_option
     (append_object (enc_fd_array \<lparr>fda_hdr_type = FDA, fda_pad = 0, num_fds = n,
        fda_parent = prnt, fda_parent_offset = parent_ptr_offset\<rparr>))
     (align (layout_align BinderFdArrayObject) b)"

definition data_buffer_len :: "'h payload_builder \<Rightarrow> nat" where
  "data_buffer_len b = length (pb_data b)"

definition offset_buffer_len :: "'h payload_builder \<Rightarrow> nat" where
  "offset_buffer_len b = length (obj_offsets b)"

text \<open>A builder used by a client: any sequence of the operations.\<close>

datatype 'h push_op =
    Push_Bytes "byte list"
  | Push_Binder u32 "'h sendable"
  | Push_Fd u32 i32 usize
  | Push_Owned_Fd u32 i32 usize
  | Push_Buffer "usize \<times> byte list"
  | Push_Child_Buffer "usize \<times> byte list" usize usize
  | Push_Fd_Array usize usize usize
  | Align nat

fun push_step :: "profile \<Rightarrow> 'h push_op \<Rightarrow> 'h payload_builder \<Rightarrow>
    ('h, 'h payload_builder option) dev_action" where
  "push_step prof (Push_Bytes bs) b = ret (Some (push_bytes bs b))"
| "push_step prof (Push_Binder junk x) b = push_binder_ref prof junk x b"
| "push_step prof (Push_Fd junk fd ck) b = ret (push_fd junk fd ck b)"
| "push_step prof (Push_Owned_Fd junk fd ck) b = ret (push_owned_fd junk fd ck b)"
| "push_step prof (Push_Buffer buf) b = ret (map_option snd (push_buffer buf b))"
| "push_step prof (Push_Child_Buffer buf p off) b =
     ret (map_option snd (push_child_buffer buf p off b))"
| "push_step prof (Push_Fd_Array n p off) b = ret (push_fd_array n p off b)"
| "push_step prof (Align a) b = ret (align a b)"

primrec pushes :: "profile \<Rightarrow> 'h push_op list \<Rightarrow> 'h payload_builder \<Rightarrow>
    ('h, 'h payload_builder option) dev_action" where
  "pushes prof [] b = ret (Some b)"
| "pushes prof (x # xs) b = bind (push_step prof x b)
     (\<lambda>r. case r of None \<Rightarrow> ret None | Some b \<Rightarrow> pushes prof xs b)"

section \<open>Alignment\<close>

definition padding :: "nat \<Rightarrow> nat \<Rightarrow> nat" where
  "padding a n = (a - n mod a) mod a"

lemma padding_less: "0 < a \<Longrightarrow> padding a n < a"
  by (simp add: padding_def)

lemma padding_multiple: "0 < a \<Longrightarrow> (n + padding a n) mod a = 0"
proof -
  assume a: "0 < a"
  have "(n + padding a n) mod a = (n mod a + (a - n mod a)) mod a"
    unfolding padding_def mod_add_right_eq by (rule mod_add_left_eq [symmetric])
  also have "n mod a + (a - n mod a) = a" using mod_less_divisor [OF a, of n] by simp
  finally show ?thesis by simp
qed

lemma padding_zero_iff: "0 < a \<Longrightarrow> padding a n = 0 \<longleftrightarrow> n mod a = 0"
  by (metis add_0_right diff_zero mod_self padding_def padding_multiple)

lemma padding_step:
  assumes "0 < a" and "n mod a \<noteq> 0"
  shows "padding a n = Suc (padding a (Suc n))"
proof (cases "Suc (n mod a) = a")
  case True
  then have "Suc n mod a = 0" by (simp add: mod_Suc)
  with True assms show ?thesis
    by (cases "a = 1") (auto simp: padding_def)
next
  case False
  then have "Suc n mod a = Suc (n mod a)" by (simp add: mod_Suc)
  with False assms mod_less_divisor [OF assms(1), of n] show ?thesis
    by (simp add: padding_def)
qed

lemma align_data_eq:
  assumes "0 < a"
  shows "align_data a bs = Some (bs @ replicate (padding a (length bs)) 0)"
proof (induction "padding a (length bs)" arbitrary: bs)
  case 0
  then show ?case
    using assms by (simp add: align_data.simps is_multiple_of_def padding_zero_iff)
next
  case (Suc k)
  then have n: "length bs mod a \<noteq> 0" using assms padding_zero_iff by (metis nat.distinct(1))
  then have p: "padding a (length bs) = Suc (padding a (length (bs @ [0 :: byte])))"
    using assms padding_step by simp
  have "align_data a bs = align_data a (bs @ [0])"
    using n by (subst align_data.simps) (simp add: is_multiple_of_def)
  also have "\<dots> = Some ((bs @ [0]) @ replicate (padding a (length (bs @ [0 :: byte]))) 0)"
    using Suc p by simp
  finally show ?case using p by simp
qed

lemma align_data_zero:
  assumes "bs \<noteq> []"
  shows "align_data 0 bs = None"
proof -
  have "a \<noteq> 0 \<or> cs = []" if "align_data a cs = Some y" for a cs y
  proof (rule align_data.raw_induct [OF _ that])
    fix f a bs y
    assume "\<And>a bs y. f a bs = Some y \<Longrightarrow> a \<noteq> 0 \<or> bs = []"
      and "(if is_multiple_of (length bs) a then Some bs else f a (bs @ [0])) = Some y"
    then show "a \<noteq> 0 \<or> bs = []"
      by (cases "a = 0") (force simp: is_multiple_of_def split: if_splits)+
  qed
  with assms show ?thesis by (cases "align_data 0 bs") auto
qed

lemma align_data_nil [simp]: "align_data a [] = Some []"
  by (subst align_data.simps) (simp add: is_multiple_of_def)

lemma align_data_extends: "align_data a bs = Some cs \<Longrightarrow> \<exists>xs. cs = bs @ xs"
  by (cases "a = 0"; cases "bs = []") (auto simp: align_data_zero align_data_eq)

lemma align_eq:
  "0 < a \<Longrightarrow> align a b =
     Some (b\<lparr>pb_data := pb_data b @ replicate (padding a (length (pb_data b))) 0\<rparr>)"
  by (simp add: align_def align_data_eq)

section \<open>The layout of a payload\<close>

definition object_size :: "binder_type \<Rightarrow> nat" where
  "object_size t = (if t = FDA then layout_size BinderFdArrayObject
     else if t = PTR then layout_size BinderBufferObject else layout_size FlatBinderObject)"

lemma object_size_simps [simp]:
  "object_size BINDER = 24" "object_size WEAK_BINDER = 24" "object_size HANDLE = 24"
  "object_size WEAK_HANDLE = 24" "object_size FD = 24" "object_size FDA = 32" "object_size PTR = 40"
  by (simp_all add: object_size_def)

lemma object_size_ge: "24 \<le> object_size t"
  by (simp add: object_size_def)

text \<open>
  From position \<open>lo\<close> on, every offset is aligned and names a complete object of a known
  type, in order and without overlap.
\<close>

primrec laid_out :: "nat \<Rightarrow> nat list \<Rightarrow> byte list \<Rightarrow> bool" where
  "laid_out lo [] bs \<longleftrightarrow> lo \<le> length bs"
| "laid_out lo (off # offs) bs \<longleftrightarrow> lo \<le> off \<and> off mod 8 = 0 \<and>
     dec_header (drop off bs) \<in> set binder_types \<and>
     laid_out (off + object_size (dec_header (drop off bs))) offs bs"

lemma laid_out_bound: "laid_out lo offs bs \<Longrightarrow> lo \<le> length bs"
  by (induction offs arbitrary: lo) (auto intro: order_trans dest!: add_leE)

lemma laid_out_head:
  assumes "laid_out lo (off # offs) bs"
  shows "off + 24 \<le> length bs"
  using assms laid_out_bound [of _ offs bs] object_size_ge [of "dec_header (drop off bs)"]
  by fastforce

lemma laid_out_member: "laid_out lo offs bs \<Longrightarrow> off \<in> set offs \<Longrightarrow> off + 24 \<le> length bs"
proof (induction offs arbitrary: lo)
  case (Cons o1 offs)
  then show ?case using laid_out_head [OF Cons.prems(1)] by auto
qed simp

lemma laid_out_weaken: "laid_out lo offs bs \<Longrightarrow> k \<le> lo \<Longrightarrow> laid_out k offs bs"
  by (cases offs) auto

lemma dec_header_append: "4 \<le> length bs \<Longrightarrow> dec_header (bs @ xs) = dec_header bs"
  by (simp add: dec_header_def u32_of_def)

lemma laid_out_append: "laid_out lo offs bs \<Longrightarrow> laid_out lo offs (bs @ xs)"
proof (induction offs arbitrary: lo)
  case (Cons off offs)
  then have "off + 24 \<le> length bs" using laid_out_head by blast
  then have "dec_header (drop off (bs @ xs)) = dec_header (drop off bs)"
    by (simp add: dec_header_append)
  with Cons show ?case by simp
qed simp

lemma laid_out_snoc:
  assumes "laid_out lo offs bs" and "length bs \<le> off" and "off mod 8 = 0"
    and "dec_header (drop off cs) \<in> set binder_types"
    and "off + object_size (dec_header (drop off cs)) \<le> length cs" and "cs = bs @ xs"
  shows "laid_out lo (offs @ [off]) cs"
  using assms(1)
proof (induction offs arbitrary: lo)
  case (Cons o1 offs)
  then have "o1 + 24 \<le> length bs" using laid_out_head by blast
  then have "dec_header (drop o1 cs) = dec_header (drop o1 bs)"
    by (simp add: dec_header_append assms(6))
  with Cons show ?case by simp
qed (use assms in simp)

lemma laid_out_sorted: "laid_out lo offs bs \<Longrightarrow> sorted_wrt (<) offs \<and> (\<forall>o1 \<in> set offs. lo \<le> o1)"
proof (induction offs arbitrary: lo)
  case (Cons o1 offs)
  from Cons.prems have lo: "lo \<le> o1" "laid_out (o1 + object_size (dec_header (drop o1 bs))) offs bs"
    by simp_all
  have "\<forall>v \<in> set offs. o1 < v"
    using Cons.IH [OF lo(2)] object_size_ge [of "dec_header (drop o1 bs)"] by fastforce
  with lo Cons.IH [OF lo(2)] show ?case by (auto dest: less_imp_le order_trans)
qed simp

abbreviation builder_ok :: "'h payload_builder \<Rightarrow> bool" where
  "builder_ok b \<equiv> laid_out 0 (obj_offsets b) (pb_data b)"

lemma append_object_ok:
  assumes "builder_ok b" and "align 8 b = Some c"
    and "dec_header ob \<in> set binder_types" and "object_size (dec_header ob) = length ob"
  shows "builder_ok (append_object ob c)"
proof -
  have c: "c = b\<lparr>pb_data := pb_data b @ replicate (padding 8 (length (pb_data b))) 0\<rparr>"
    using assms(2) by (simp add: align_eq)
  show ?thesis
    using assms(1,3,4)
    by (auto simp: append_object_def c padding_multiple intro!: laid_out_snoc [of 0 _ "pb_data b"])
qed

lemma object_headers [simp]:
  "dec_header (enc_flat (get_flat_binder_object junk port)) \<in> set binder_types"
  "object_size (dec_header (enc_flat (get_flat_binder_object junk port))) = 24"
  "dec_header (enc_fd (fd_object junk fd ck)) = FD"
  "dec_header (enc_buffer x) = buf_hdr_type x"
  "dec_header (enc_fd_array y) = fda_hdr_type y"
  using dec_header_enc [of _ "[]"]
  by (auto simp: get_flat_binder_object_def fd_object_def binder_types_def
      split: binder_object_or_ref.split)

lemma align_ok: "builder_ok b \<Longrightarrow> align a b = Some c \<Longrightarrow> builder_ok c"
  by (auto simp: align_def dest!: align_data_extends intro: laid_out_append)

lemma push_step_ok:
  assumes "builder_ok b" and "push_step prof p b d = (Inr (Some c), d')"
  shows "builder_ok c"
proof (cases p)
  case (Push_Bytes bs)
  with assms show ?thesis by (auto simp: push_bytes_def intro: laid_out_append)
next
  case (Push_Binder junk x)
  with assms obtain port c0 where "align 8 b = Some c0"
    "c = (append_object (enc_flat (get_flat_binder_object junk port)) c0)
       \<lparr>binder_objects := binder_objects c0 @ [port]\<rparr>"
    by (auto simp: push_binder_ref_def append_object_def elim!: bind_Inr_cases)
  with append_object_ok [OF assms(1)] show ?thesis by simp
next
  case (Align a)
  with assms show ?thesis by (auto intro: align_ok)
qed (use assms append_object_ok [OF assms(1)] in \<open>auto simp: push_fd_def push_owned_fd_def
    push_buffer_def push_child_buffer_def push_fd_array_def binder_types_def\<close>)

lemma pushes_ok:
  "builder_ok b \<Longrightarrow> pushes prof ps b d = (Inr (Some c), d') \<Longrightarrow> builder_ok c"
proof (induction ps arbitrary: b d)
  case (Cons p ps)
  from Cons.prems(2) obtain r d1 where r: "push_step prof p b d = (Inr r, d1)"
    and rest: "(case r of None \<Rightarrow> ret None | Some b \<Rightarrow> pushes prof ps b) d1 = (Inr (Some c), d')"
    by (auto simp only: pushes.simps elim: bind_Inr_cases)
  then obtain b1 where b1: "r = Some b1" by (cases r) auto
  have "builder_ok b1" by (rule push_step_ok [OF Cons.prems(1) r [unfolded b1]])
  moreover have "pushes prof ps b1 d1 = (Inr (Some c), d')" using rest b1 by simp
  ultimately show ?case by (rule Cons.IH)
qed simp

lemma push_step_returns:
  "p \<noteq> Align 0 \<Longrightarrow> fst (push_step prof p b d) \<noteq> Inr None"
  by (cases p) (auto simp: push_binder_ref_def push_fd_def push_owned_fd_def push_buffer_def
      push_child_buffer_def push_fd_array_def align_eq bind_def split: prod.splits sum.splits)

lemma pushes_return:
  "Align 0 \<notin> set ps \<Longrightarrow> fst (pushes prof ps b d) \<noteq> Inr None"
proof (induction ps arbitrary: b d)
  case (Cons p ps)
  then have "fst (push_step prof p b d) \<noteq> Inr None" by (intro push_step_returns) auto
  with Cons show ?case
    by (auto simp: bind_def split: prod.splits sum.splits option.splits)
qed simp

section \<open>Properties of the builder\<close>

text \<open>\<open>align\<close> returns for every alignment but zero, having appended fewer than \<open>a\<close> zero
  bytes so that the length is a multiple of \<open>a\<close>; with an alignment of zero it returns only
  from an empty builder and loops forever on any other.\<close>

theorem align_pads_or_loops:
  "align a b = (if a = 0 then (if pb_data b = [] then Some b else None)
     else Some (b\<lparr>pb_data := pb_data b @ replicate (padding a (length (pb_data b))) 0\<rparr>)) \<and>
   (a = 0 \<or> padding a n < a \<and> is_multiple_of (n + padding a n) a)"
proof (cases "a = 0")
  case True
  then show ?thesis by (simp add: align_def align_data_zero)
next
  case False
  then show ?thesis by (simp add: align_eq padding_less padding_multiple is_multiple_of_def)
qed

text \<open>C11: Whatever sequence of operations a client uses on a new builder, in whatever order and
  with whatever bytes and alignments between the objects, the payload it hands to the kernel is
  well laid out: offsets strictly increase, each is a multiple of eight, and each names a complete
  object of a known type that ends before the next one starts.\<close>

theorem builder_layout:
  assumes "pushes prof ps new_builder d = (Inr (Some b), d')"
  shows "laid_out 0 (obj_offsets b) (pb_data b) \<and> sorted_wrt (<) (obj_offsets b) \<and>
    (\<forall>off \<in> set (obj_offsets b). off + layout_size FlatBinderObject \<le> data_buffer_len b)"
proof -
  have ok: "builder_ok b" by (rule pushes_ok [OF _ assms]) (simp add: new_builder_def)
  with laid_out_sorted [OF ok] show ?thesis
    by (auto simp: data_buffer_len_def dest: laid_out_member)
qed

text \<open>Building returns: a sequence of operations without an alignment of zero always gives a
  builder or a panic of a conversion, never an endless loop.\<close>

theorem builder_returns:
  assumes "Align 0 \<notin> set ps"
  shows "fst (pushes prof ps b d) \<noteq> Inr None"
  using assms by (rule pushes_return)

definition demo_pushes :: "unit push_op list" where
  "demo_pushes = [Push_Bytes [1, 2, 3], Push_Fd 0 5 9, Align 16, Push_Bytes [7],
     Push_Binder 0 (Send_Weak_Object \<lparr>id_raw = 1, id_cookie = 0\<rparr>)]"

definition demo_builder :: "unit payload_builder" where
  "demo_builder = the (projr (fst (pushes Checked demo_pushes new_builder (new_device (\<lambda>_. None)))))"

lemma demo_builder:
  "pushes Checked demo_pushes new_builder (new_device (\<lambda>_. None)) =
     (Inr (Some demo_builder), new_device (\<lambda>_. None))"
  "obj_offsets demo_builder = [8, 40]" "length (pb_data demo_builder) = 64"
  by (simp_all add: demo_builder_def demo_pushes_def push_fd_def push_binder_ref_def
      to_binder_object_or_ref_def align_eq new_builder_def push_bytes_def append_object_def
      padding_def)

theorem builder_layout_witness: "laid_out 0 [8, 40] (pb_data demo_builder)"
  using builder_layout [OF demo_builder(1)] demo_builder(2) by simp

theorem builder_returns_witness:
  "fst (pushes Checked demo_pushes new_builder (new_device (\<lambda>_. None))) \<noteq> Inr None"
  by (rule builder_returns) (simp add: demo_pushes_def)

end
