(* ===== verification/Device_Invariants.thy ===== *)
theory Device_Invariants
  imports Payload_Builder
begin

text \<open>
  What the operations of the library leave true of the device. A property of the device state is
  carried through an operation if each of the elementary writes the code makes keeps it: a command
  appended to what was sent, an entry of the count map changed in place, a map of references,
  death notifications, \<open>Arc\<close> counts. The locales name these laws, one for operations on local objects and
  one for those that also send the commands of remote references; a property of the device is an
  interpretation.
\<close>

section \<open>Commands with their arguments\<close>

definition well_formed_command :: "binder_command \<times> cmd_arg \<Rightarrow> bool" where
  "well_formed_command ca \<longleftrightarrow> length (arg_bytes (snd ca)) = snd (snd (command_spec (fst ca)))"

lemma commands_well_formed [simp]:
  "well_formed_command (BC_INCREFS, Arg_Handle h)" "well_formed_command (BC_ACQUIRE, Arg_Handle h)"
  "well_formed_command (BC_RELEASE, Arg_Handle h)" "well_formed_command (BC_DECREFS, Arg_Handle h)"
  "well_formed_command (BC_REQUEST_DEATH_NOTIFICATION, Arg_Handle_Cookie hc)"
  "well_formed_command (BC_CLEAR_DEATH_NOTIFICATION, Arg_Handle_Cookie hc)"
  "well_formed_command (BC_FREE_BUFFER, Arg_Uintptr p)"
  "well_formed_command (BC_DEAD_BINDER_DONE, Arg_Uintptr p)"
  "well_formed_command (BC_INCREFS_DONE, Arg_Ptr_Cookie pc)"
  "well_formed_command (BC_ACQUIRE_DONE, Arg_Ptr_Cookie pc)"
  "well_formed_command (BC_REPLY, Arg_Transaction t)"
  "well_formed_command (BC_TRANSACTION, Arg_Transaction t)"
  "well_formed_command (BC_ENTER_LOOPER, Arg_None)" "well_formed_command (BC_EXIT_LOOPER, Arg_None)"
  "well_formed_command (BC_REGISTER_LOOPER, Arg_None)"
  by (simp_all add: well_formed_command_def)

definition ref_commands :: "binder_command list" where
  "ref_commands = [BC_ACQUIRE, BC_RELEASE, BC_INCREFS, BC_DECREFS,
     BC_REQUEST_DEATH_NOTIFICATION, BC_CLEAR_DEATH_NOTIFICATION]"

section \<open>Properties of the device\<close>

named_theorems device_intros \<open>operations that keep a property of the device\<close>

lemma keeps_cases [device_intros]:
  "keeps I m \<Longrightarrow> (\<And>x. keeps I (f x)) \<Longrightarrow> keeps I (case ob of None \<Rightarrow> m | Some x \<Rightarrow> f x)"
  "(\<And>e. keeps I (g e)) \<Longrightarrow> (\<And>x. keeps I (k x)) \<Longrightarrow> keeps I (case sm of Inl e \<Rightarrow> g e | Inr x \<Rightarrow> k x)"
  "keeps I m \<Longrightarrow> keeps I m1 \<Longrightarrow> keeps I (if b then m else m1)"
  "(\<And>x y. keeps I (p2 x y)) \<Longrightarrow> keeps I (case pr of (x, y) \<Rightarrow> p2 x y)"
  by (auto split: option.split sum.split prod.split)

lemmas keeps_structure [device_intros] = keeps_basic keeps_bind

lemma keeps_pointwise: "(\<And>d. \<exists>m1. keeps I m1 \<and> m d = m1 d) \<Longrightarrow> keeps I m"
  by (simp add: keeps_def) metis

locale device_invariant =
  fixes I :: "'h binder_device \<Rightarrow> bool" and ok :: "binder_command \<times> cmd_arg \<Rightarrow> bool"
  assumes I_sent: "I d \<Longrightarrow> ok ca \<Longrightarrow> I (d\<lparr>sent := sent d @ [ca]\<rparr>)"
    and I_counts: "I d \<Longrightarrow> object_refcounts d i = Some st \<Longrightarrow>
      I (d\<lparr>object_refcounts := (object_refcounts d)(i \<mapsto> st1)\<rparr>)"
    and I_refs: "I d \<Longrightarrow> I (d\<lparr>refs := r\<rparr>)"
    and I_weak_refs: "I d \<Longrightarrow> I (d\<lparr>weak_refs := q\<rparr>)"
    and I_notifications: "I d \<Longrightarrow> I (d\<lparr>death_notifications := n\<rparr>)"
    and I_cookies: "I d \<Longrightarrow> I (d\<lparr>death_counter := ck\<rparr>)"
    and I_strong: "I d \<Longrightarrow> I (d\<lparr>arc_strong := as\<rparr>)"
    and I_heap: "I d \<Longrightarrow> I (d\<lparr>next_arc := na\<rparr>)"
    and I_tokens: "I d \<Longrightarrow> I (d\<lparr>cancelled := c\<rparr>)"
begin

lemmas elementary = I_refs I_weak_refs I_notifications I_cookies I_strong I_heap I_tokens

lemma command [device_intros]:
  "ok (c, a) \<Longrightarrow> keeps I (write_binder_struct_command c a)"
  "ok (c, a) \<Longrightarrow> keeps I (dev_write_struct_command c a)"
  by (auto simp: keeps_def dev_write_struct_command_def bind_def write_binder_struct_command_def
      intro: I_sent split: option.split)

lemma counts [device_intros]: "keeps I (with_refstate i m)"
  by (auto simp: keeps_def with_refstate_def intro: I_counts split: option.split prod.split)

lemma borrowed [device_intros]:
  "keeps I (borrowed_drop prof b)" "keeps I (borrowed_clone prof b)"
  "keeps I (object_to_object_or_ref prof ob)"
  unfolding borrowed_drop_def borrowed_clone_def object_to_object_or_ref_def
  by (intro device_intros)+

lemma borrowed_from_id [device_intros]: "keeps I (borrowed_from_id prof i)"
proof (rule keeps_pointwise)
  fix d :: "'h binder_device"
  show "\<exists>m1. keeps I m1 \<and> borrowed_from_id prof i d = m1 d"
  proof (cases "get_handler d i")
    case None
    then have "borrowed_from_id prof i d = ret None d" by (simp add: borrowed_from_id_def)
    then show ?thesis by (blast intro: device_intros)
  next
    case (Some h)
    have "keeps I (bind (with_refstate i (increase_local prof)) (\<lambda>inc. ret
        (Some \<lparr>bbo_id = i, bbo_handler = h, increased_local_ref = inc\<rparr>)))"
      by (intro device_intros)
    with Some show ?thesis by (force simp: borrowed_from_id_def)
  qed
qed

lemma object_ref_from_id [device_intros]: "keeps I (object_ref_from_id prof is_t i)"
proof (rule keeps_pointwise)
  fix d :: "'h binder_device"
  have "keeps I (bind (with_refstate i (increase_local prof))
      (\<lambda>inc. ret (if inc then Some \<lparr>bor_id = i, bor_handler = h\<rparr> else None)))" for h
    by (intro device_intros)
  moreover have "keeps I (ret None)" by (intro device_intros)
  ultimately show "\<exists>m1. keeps I m1 \<and> object_ref_from_id prof is_t i d = m1 d"
    by (cases "get_handler d i"; cases "is_t (the (get_handler d i))")
      (force simp: object_ref_from_id_def)+
qed

lemma object_refs [device_intros]:
  "keeps I (object_ref_clone prof r)" "keeps I (object_ref_drop prof r)"
  "keeps I (object_ref_as_erased prof r)"
  unfolding object_ref_clone_def object_ref_drop_def object_ref_as_erased_def
  by (intro device_intros)+

lemma arcs [device_intros]:
  "keeps I (arc_clone a)" "keeps I (arc_release a)" "keeps I (arc_new v)" "keeps I new_token"
  "keeps I (ref_lookup h)" "keeps I (weak_lookup h)" "keeps I (weak_upgrade w)"
  "keeps I (ref_downgrade b)"
  by (auto simp: keeps_def arc_clone_def arc_release_def arc_new_def new_token_def ref_lookup_def
      weak_lookup_def weak_upgrade_def ref_downgrade_def arc_upgrade_def Let_def
      intro: elementary split: option.split)

lemma updates [device_intros]:
  "keeps I (modify (\<lambda>d. d\<lparr>refs := r d\<rparr>))" "keeps I (modify (\<lambda>d. d\<lparr>weak_refs := q d\<rparr>))"
  "keeps I (modify (\<lambda>d. d\<lparr>death_notifications := n d\<rparr>))"
  "keeps I (\<lambda>d. (Inr (death_counter d), d\<lparr>death_counter := k d\<rparr>))"
  by (auto simp: keeps_def intro: elementary)

lemma death_kept: "(\<And>ck. ok (BC_DEAD_BINDER_DONE, Arg_Uintptr ck)) \<Longrightarrow> keeps I (dead_binder ck)"
  unfolding dead_binder_def
  by (intro device_intros keeps_modify) (auto intro: elementary split: option.split)

end

text \<open>Operations on local objects send nothing: the kernel counts its own references to
  them.\<close>

interpretation silent: device_invariant "\<lambda>d. sent d = cs" "\<lambda>ca. False"
  by unfold_locales simp_all

lemma local_operations_silent:
  "sent (snd (borrowed_from_id prof i d)) = sent d" "sent (snd (borrowed_clone prof b d)) = sent d"
  "sent (snd (borrowed_drop prof b d)) = sent d" "sent (snd (object_ref_from_id prof is_t i d)) = sent d"
  "sent (snd (object_ref_clone prof r d)) = sent d" "sent (snd (object_ref_drop prof r d)) = sent d"
  using silent.borrowed_from_id silent.borrowed silent.object_ref_from_id silent.object_refs
  unfolding keeps_def by metis+

section \<open>Remote references\<close>

text \<open>The laws with those commands allowed that references send.\<close>

locale ref_traffic = device_invariant +
  assumes ok_refs: "fst ca \<in> set ref_commands \<Longrightarrow> well_formed_command ca \<Longrightarrow> ok ca"
begin

lemma ok_ref_command [simp, intro]:
  "ok (BC_INCREFS, Arg_Handle h)" "ok (BC_ACQUIRE, Arg_Handle h)"
  "ok (BC_RELEASE, Arg_Handle h)" "ok (BC_DECREFS, Arg_Handle h)"
  "ok (BC_REQUEST_DEATH_NOTIFICATION, Arg_Handle_Cookie hc)"
  "ok (BC_CLEAR_DEATH_NOTIFICATION, Arg_Handle_Cookie hc)"
  by (simp_all add: ok_refs ref_commands_def)

lemma weak_refs_kept [device_intros]:
  "keeps I (weak_get_and_dedup_from_raw h)" "keeps I (weak_drop w)"
proof -
  show "keeps I (weak_get_and_dedup_from_raw h)"
    unfolding weak_get_and_dedup_from_raw_def weak_create_def
    by (intro device_intros ok_ref_command)
  show "keeps I (weak_drop w)"
    unfolding weak_drop_def weak_drop_body_def
    by (intro device_intros ok_ref_command keeps_modify) (simp split: option.split add: elementary)
qed

lemma refs_kept [device_intros]:
  "keeps I (ref_get_and_dedup_from_raw h)" "keeps I (ref_drop a)"
proof -
  show "keeps I (ref_get_and_dedup_from_raw h)"
    unfolding ref_get_and_dedup_from_raw_def ref_create_def
    by (intro device_intros ok_ref_command)
  show "keeps I (ref_drop a)"
    unfolding ref_drop_def ref_drop_body_def
    by (intro device_intros ok_ref_command keeps_modify) (simp split: option.split add: elementary)
qed

lemma object_or_refs [device_intros]:
  "keeps I (object_or_ref_drop prof x)" "keeps I (object_or_ref_clone prof x)"
  unfolding object_or_ref_drop_def object_or_ref_clone_def
  by (cases x; simp only: binder_object_or_ref.case; intro device_intros)+

lemma sendables [device_intros]:
  "keeps I (to_binder_object_or_ref prof x)" "keeps I (push_binder_ref prof junk x b)"
proof -
  show "keeps I (to_binder_object_or_ref prof x)" for x
    unfolding to_binder_object_or_ref_def
    by (cases x; simp only: sendable.case; intro device_intros)
  then show "keeps I (push_binder_ref prof junk x b)"
    unfolding push_binder_ref_def by (intro device_intros)
qed

end

end
