(* ===== verification/Payload_Reader.thy ===== *)
theory Payload_Reader
  imports Device_Invariants
begin

text \<open>
  \<open>PayloadReader\<close> of \<open>src/src/payload.rs\<close>: reading bytes, objects and file descriptors
  out of a payload that the kernel delivered or that a \<open>PayloadBuilder\<close> of the same
  process made, and the destructor that drains what was not read.

  An error leaves the reader as it was; a panic ends the operation. The destructor is a
  loop that does not return when it meets a buffer or a file descriptor array, so it
  gives an option. \<open>dup\<close> is the system call behind \<open>try_clone_to_owned\<close>: the
  descriptor it gives for the n-th call, or none when it fails.
\<close>

section \<open>The reader\<close>

datatype 'a payload_reader_buffer = Owned "'a list" | KernelBorrowed usize "'a list"

primrec items :: "'a payload_reader_buffer \<Rightarrow> 'a list" where
  "items (Owned xs) = xs"
| "items (KernelBorrowed ptr xs) = xs"

record 'h payload_reader =
  pr_data :: "byte payload_reader_buffer"
  pr_offsets :: "nat payload_reader_buffer option"
  pr_binder_objects :: "'h binder_object_or_ref list"
  next_offset_index :: nat
  next_data_index :: nat

datatype bytes_read_error = ReadingIntoObject | OutOfBounds
datatype object_read_error = IncorrectObject | Object_Empty
datatype binder_ref_read_error =
  Incorrect_Binder | UnknownBinderObject | DeadBinderObject | Binder_Empty

datatype binder_object_type =
  Type_BinderObject | Type_WeakBinderObject | Type_BinderRef | Type_WeakBinderRef | Type_Fd
  | Type_FdArray | Type_Buffer

definition read_bytes :: "profile \<Rightarrow> nat \<Rightarrow> 'h payload_reader \<Rightarrow>
    (bytes_read_error + byte list \<times> 'h payload_reader) outcome" where
  "read_bytes prof n r =
     (let i = next_data_index r; bs = items (pr_data r) in
      bind_out
        (case pr_offsets r of None \<Rightarrow> Inr True
         | Some v \<Rightarrow> (case find (\<lambda>off. i < off) (items v) of None \<Rightarrow> Inr True
           | Some off \<Rightarrow> bind_out (usize_add prof i n) (\<lambda>e. Inr (e \<le> off))))
        (\<lambda>ok. if \<not> ok then Inr (Inl ReadingIntoObject)
          else bind_out (usize_add prof i n) (\<lambda>e.
            case slice_get bs i e of None \<Rightarrow> Inr (Inl OutOfBounds)
            | Some ys \<Rightarrow> bind_out (usize_add prof i n)
                (\<lambda>k. Inr (Inr (ys, r\<lparr>next_data_index := k\<rparr>))))))"

text \<open>\<open>offsets.and_then(|v| v.get(self.next_offset_index))\<close>\<close>

definition current_offset :: "'h payload_reader \<Rightarrow> nat option" where
  "current_offset r = (case pr_offsets r of None \<Rightarrow> None
     | Some v \<Rightarrow> if next_offset_index r < length (items v)
         then Some (items v ! next_offset_index r) else None)"

text \<open>\<open>&data[offset..offset + n]\<close>\<close>

definition data_at :: "profile \<Rightarrow> 'h payload_reader \<Rightarrow> nat \<Rightarrow> nat \<Rightarrow> byte list outcome" where
  "data_at prof r off n =
     bind_out (usize_add prof off n) (slice_index (items (pr_data r)) off)"

text \<open>The match of \<open>read_binder_ref\<close> on the type of a flat object.\<close>

definition resolve_flat :: "profile \<Rightarrow> flat_binder_object \<Rightarrow>
    ('h, binder_ref_read_error + 'h binder_object_or_ref) dev_action" where
  "resolve_flat prof f =
     (if hdr_type f = BINDER then
        bind (borrowed_from_id prof (from_raw (obj_data f) (cookie f))) (\<lambda>ob.
          ret (case ob of None \<Rightarrow> Inl UnknownBinderObject | Some b \<Rightarrow> Inr (Object b)))
      else if hdr_type f = WEAK_BINDER then
        ret (Inr (WeakObject (from_raw (obj_data f) (cookie f))))
      else if hdr_type f = HANDLE then
        bind (ref_get_and_dedup_from_raw (union_read32 (obj_data f))) (\<lambda>a. ret (Inr (Ref a)))
      else
        bind (weak_get_and_dedup_from_raw (union_read32 (obj_data f)))
          (\<lambda>w. ret (Inr (WeakRef w))))"

definition read_binder_ref :: "profile \<Rightarrow> 'h payload_reader \<Rightarrow>
    ('h, binder_ref_read_error + 'h binder_object_or_ref \<times> 'h payload_reader) dev_action" where
  "read_binder_ref prof r = (case current_offset r of None \<Rightarrow> ret (Inl Binder_Empty)
     | Some off \<Rightarrow> bind (of_outcome (data_at prof r off (layout_size BinderObjectHeader))) (\<lambda>hb.
         if dec_header hb \<notin> {BINDER, HANDLE, WEAK_BINDER, WEAK_HANDLE}
         then ret (Inl Incorrect_Binder)
         else bind (of_outcome (data_at prof r off (layout_size FlatBinderObject))) (\<lambda>fb.
           bind (resolve_flat prof (dec_flat fb)) (\<lambda>res.
             case res of Inl e \<Rightarrow> ret (Inl e)
             | Inr x \<Rightarrow> bind (of_outcome (usize_add prof off (layout_size FlatBinderObject))) (\<lambda>k.
                 ret (Inr (x, r\<lparr>next_offset_index := next_offset_index r + 1,
                   next_data_index := k\<rparr>)))))))"

definition read_fd :: "profile \<Rightarrow> 'h payload_reader \<Rightarrow>
    (object_read_error + (i32 \<times> usize) \<times> 'h payload_reader) outcome" where
  "read_fd prof r = (case current_offset r of None \<Rightarrow> Inr (Inl Object_Empty)
     | Some off \<Rightarrow> bind_out (data_at prof r off (layout_size BinderObjectHeader)) (\<lambda>hb.
         if dec_header hb \<noteq> FD then Inr (Inl IncorrectObject)
         else bind_out (data_at prof r off (layout_size BinderFdObject)) (\<lambda>fb.
           let f = dec_fd fb in
           bind_out (usize_add prof off (layout_size BinderFdObject)) (\<lambda>k.
             Inr (Inr ((union_read32 (fd_data f), fd_cookie f),
               r\<lparr>next_offset_index := next_offset_index r + 1, next_data_index := k\<rparr>))))))"

definition object_type_of :: "binder_type \<Rightarrow> binder_object_type option" where
  "object_type_of t = (if t = BINDER then Some Type_BinderObject
     else if t = HANDLE then Some Type_BinderRef
     else if t = WEAK_BINDER then Some Type_WeakBinderObject
     else if t = WEAK_HANDLE then Some Type_WeakBinderRef
     else if t = FD then Some Type_Fd
     else if t = FDA then Some Type_FdArray
     else if t = PTR then Some Type_Buffer
     else None)"

definition next_object_type :: "profile \<Rightarrow> 'h payload_reader \<Rightarrow>
    binder_object_type option outcome" where
  "next_object_type prof r = (case current_offset r of None \<Rightarrow> Inr None
     | Some off \<Rightarrow> bind_out (data_at prof r off (layout_size BinderObjectHeader))
         (\<lambda>hb. Inr (object_type_of (dec_header hb))))"

definition bytes_until_next_obj :: "profile \<Rightarrow> 'h payload_reader \<Rightarrow> nat outcome" where
  "bytes_until_next_obj prof r =
     (let i = next_data_index r;
          next_target = (case pr_offsets r of None \<Rightarrow> length (items (pr_data r))
            | Some v \<Rightarrow> (case find (\<lambda>off. i < off) (items v) of
                None \<Rightarrow> length (items (pr_data r)) | Some off \<Rightarrow> off))
      in usize_sub prof next_target i)"

section \<open>Making a reader\<close>

text \<open>The two raw buffers: their address and what memory holds there.\<close>

definition from_kernel_raw :: "usize \<times> byte list \<Rightarrow> usize \<times> usize list \<Rightarrow> 'h payload_reader" where
  "from_kernel_raw mem offs = \<lparr>pr_data = KernelBorrowed (fst mem) (snd mem),
     pr_offsets = (if fst offs = 0 then None
       else Some (KernelBorrowed (fst offs) (map unat (snd offs)))),
     pr_binder_objects = [], next_offset_index = 0, next_data_index = 0\<rparr>"

type_synonym dup_call = "nat \<Rightarrow> i32 \<Rightarrow> i32 option"

text \<open>Replacing the descriptor at an offset: the whole union is assigned.\<close>

definition set_fd :: "u32 \<Rightarrow> nat \<Rightarrow> i32 \<Rightarrow> byte list \<Rightarrow> byte list" where
  "set_fd junk off fd bs = take (off + 8) bs @ u64_bytes (union_write32 junk fd) @ drop (off + 16) bs"

primrec dup_fds :: "profile \<Rightarrow> u32 \<Rightarrow> dup_call \<Rightarrow> nat \<Rightarrow> nat list \<Rightarrow> byte list \<Rightarrow>
    byte list outcome" where
  "dup_fds prof junk dup n [] bs = Inr bs"
| "dup_fds prof junk dup n (off # offs) bs =
     bind_out (bind_out (usize_add prof off (layout_size BinderObjectHeader)) (slice_index bs off))
       (\<lambda>hb. case object_type_of (dec_header hb) of
          Some Type_Fd \<Rightarrow>
            bind_out (bind_out (usize_add prof off (layout_size BinderFdObject)) (slice_index bs off))
              (\<lambda>fb. case dup n (union_read32 (fd_data (dec_fd fb))) of
                 None \<Rightarrow> Inl Unwrap_Failed
               | Some new_fd \<Rightarrow> dup_fds prof junk dup (n + 1) offs (set_fd junk off new_fd bs))
        | Some Type_FdArray \<Rightarrow> Inl Todo_Reached
        | Some Type_Buffer \<Rightarrow> Inl Todo_Reached
        | _ \<Rightarrow> dup_fds prof junk dup n offs bs)"

primrec clone_objects :: "profile \<Rightarrow> 'h binder_object_or_ref list \<Rightarrow>
    ('h, 'h binder_object_or_ref list) dev_action" where
  "clone_objects prof [] = ret []"
| "clone_objects prof (x # xs) = bind (object_or_ref_clone prof x) (\<lambda>y.
     bind (clone_objects prof xs) (\<lambda>ys. ret (y # ys)))"

primrec drop_objects :: "profile \<Rightarrow> 'h binder_object_or_ref list \<Rightarrow> ('h, unit) dev_action" where
  "drop_objects prof [] = ret ()"
| "drop_objects prof (x # xs) = bind (object_or_ref_drop prof x) (\<lambda>_. drop_objects prof xs)"

definition from_builder :: "profile \<Rightarrow> u32 \<Rightarrow> dup_call \<Rightarrow> 'h payload_builder \<Rightarrow>
    ('h, 'h payload_reader) dev_action" where
  "from_builder prof junk dup b =
     bind (of_outcome (dup_fds prof junk dup 0 (obj_offsets b) (pb_data b))) (\<lambda>main_data.
     bind (clone_objects prof (binder_objects b)) (\<lambda>objs.
     ret \<lparr>pr_data = Owned main_data, pr_offsets = Some (Owned (obj_offsets b)),
       pr_binder_objects = objs, next_offset_index = 0, next_data_index = 0\<rparr>))"

section \<open>The destructor\<close>

definition free :: "byte payload_reader_buffer \<Rightarrow> ('h, unit) dev_action" where
  "free buf = (case buf of Owned xs \<Rightarrow> ret ()
     | KernelBorrowed ptr xs \<Rightarrow> dev_write_struct_command BC_FREE_BUFFER (Arg_Uintptr ptr))"

text \<open>
  The loop of \<open>Drop::drop\<close>: the reader at its end with the descriptors closed, as the
  values read are dropped at the end of each iteration.
\<close>

partial_function (option) drain :: "profile \<Rightarrow> 'h payload_reader \<Rightarrow> i32 list \<Rightarrow>
    'h binder_device \<Rightarrow> (i32 list outcome \<times> 'h binder_device) option" where
  "drain prof r closed d = (case next_object_type prof r of
     Inl p \<Rightarrow> Some (Inl p, d)
   | Inr None \<Rightarrow> Some (Inr closed, d)
   | Inr (Some ty) \<Rightarrow>
       if ty \<in> {Type_BinderObject, Type_WeakBinderObject, Type_BinderRef, Type_WeakBinderRef} then
         (case read_binder_ref prof r d of
            (Inl p, d1) \<Rightarrow> Some (Inl p, d1)
          | (Inr (Inl e), d1) \<Rightarrow>
              drain prof (r\<lparr>next_offset_index := next_offset_index r + 1\<rparr>) closed d1
          | (Inr (Inr (x, r1)), d1) \<Rightarrow>
              (case object_or_ref_drop prof x d1 of
                 (Inl p, d2) \<Rightarrow> Some (Inl p, d2)
               | (Inr u, d2) \<Rightarrow> drain prof r1 closed d2))
       else if ty = Type_Fd then
         (case read_fd prof r of
            Inl p \<Rightarrow> Some (Inl p, d)
          | Inr (Inl e) \<Rightarrow> drain prof r closed d
          | Inr (Inr ((fd, ck), r1)) \<Rightarrow> drain prof r1 (closed @ [fd]) d)
       else drain prof r closed d)"

text \<open>The destructor, then the objects the reader kept alive.\<close>

definition reader_drop :: "profile \<Rightarrow> 'h payload_reader \<Rightarrow> 'h binder_device \<Rightarrow>
    (i32 list outcome \<times> 'h binder_device) option" where
  "reader_drop prof r d = (case drain prof r [] d of
     None \<Rightarrow> None
   | Some (Inl p, d1) \<Rightarrow> Some (Inl p, d1)
   | Some (Inr closed, d1) \<Rightarrow> Some (bind (free (pr_data r)) (\<lambda>_.
       bind (drop_objects prof (pr_binder_objects r)) (\<lambda>_. ret closed)) d1))"

section \<open>Bytes and objects\<close>

lemma find_None_sorted: "find P xs = None \<Longrightarrow> x \<in> set xs \<Longrightarrow> \<not> P x"
  by (auto simp: find_None_iff)

lemma find_sorted_least:
  assumes "sorted_wrt (<) xs" and "find (\<lambda>x. i < x) xs = Some y" and "z \<in> set xs" and "i < z"
  shows "y \<le> (z :: nat)"
  using assms by (induction xs) (auto split: if_splits)

lemma find_greater: "find (\<lambda>x. i < x) xs = Some y \<Longrightarrow> i < y \<and> y \<in> set xs"
  by (auto simp: find_Some_iff)

lemma read_bytes_ok:
  assumes "next_data_index r + n < 2 ^ 64" and "next_data_index r + n \<le> length (items (pr_data r))"
    and "\<And>v off. pr_offsets r = Some v \<Longrightarrow> find (\<lambda>off. next_data_index r < off) (items v) = Some off
      \<Longrightarrow> next_data_index r + n \<le> off"
  shows "read_bytes prof n r = Inr (Inr (take n (drop (next_data_index r) (items (pr_data r))),
    r\<lparr>next_data_index := next_data_index r + n\<rparr>))"
  using assms by (auto simp: read_bytes_def Let_def slice_get_def split: option.split)

lemma read_bytes_cases:
  assumes "next_data_index r + n < 2 ^ 64" and "read_bytes prof n r = Inr (Inr (ys, r'))"
  shows "ys = take n (drop (next_data_index r) (items (pr_data r)))"
    "r' = r\<lparr>next_data_index := next_data_index r + n\<rparr>"
    "next_data_index r + n \<le> length (items (pr_data r))"
    "pr_offsets r = Some v \<Longrightarrow> find (\<lambda>off. next_data_index r < off) (items v) = Some off \<Longrightarrow>
      next_data_index r + n \<le> off"
  using assms
  by (auto simp: read_bytes_def Let_def slice_get_def split: option.splits if_splits)

text \<open>A successful \<open>read_bytes\<close> returns exactly the next bytes, moves the cursor by that
  many, changes nothing else, and never runs into an object that starts after the cursor.\<close>

theorem read_bytes_stops_before_objects:
  assumes "read_bytes prof n r = Inr (Inr (ys, r'))" and "next_data_index r + n < 2 ^ 64"
    and "pr_offsets r = Some v" and "sorted_wrt (<) (items v)"
  shows "ys = take n (drop (next_data_index r) (items (pr_data r))) \<and> length ys = n \<and>
    r' = r\<lparr>next_data_index := next_data_index r + n\<rparr> \<and>
    (\<forall>off \<in> set (items v). next_data_index r < off \<longrightarrow> next_data_index r' \<le> off)"
proof -
  note c = read_bytes_cases [OF assms(2,1)]
  have "next_data_index r + n \<le> off" if "off \<in> set (items v)" "next_data_index r < off" for off
  proof (cases "find (\<lambda>off. next_data_index r < off) (items v)")
    case None
    with that show ?thesis using find_None_sorted by fastforce
  next
    case (Some y)
    with find_sorted_least [OF assms(4) Some that] c(4) [OF assms(3) Some] show ?thesis by simp
  qed
  with c(1-3) show ?thesis by auto
qed

text \<open>\<open>bytes_until_next_obj\<close> is the longest read that succeeds: with the cursor inside the
  payload, reading that many bytes works, and reading any more is refused as running into an
  object or out of the buffer.\<close>

theorem bytes_until_next_obj_is_maximal:
  assumes "pr_offsets r = Some v" and "\<forall>off \<in> set (items v). off \<le> length (items (pr_data r))"
    and "next_data_index r \<le> length (items (pr_data r))"
    and "bytes_until_next_obj prof r = Inr k" and "next_data_index r + n < 2 ^ 64"
  shows "(\<exists>ok. read_bytes prof n r = Inr (Inr ok)) \<longleftrightarrow> n \<le> k"
proof (cases "find (\<lambda>off. next_data_index r < off) (items v)")
  case None
  then have "k = length (items (pr_data r)) - next_data_index r"
    using assms(1,3,4) by (simp add: bytes_until_next_obj_def Let_def)
  with None assms(1,3,5) show ?thesis
    by (auto simp: read_bytes_def Let_def slice_get_def)
next
  case (Some off)
  then have "next_data_index r < off" "off \<le> length (items (pr_data r))"
    using find_greater assms(2) by auto
  moreover from this have "k = off - next_data_index r"
    using assms(1,3,4) Some by (simp add: bytes_until_next_obj_def Let_def)
  ultimately show ?thesis
    using Some assms(1,3,5) by (auto simp: read_bytes_def Let_def slice_get_def)
qed

text \<open>With the cursor at an object, the test \<open>off > index\<close> of the code skips that very
  object: \<open>bytes_until_next_obj\<close> is not zero but at least the size of the object, and
  \<open>read_bytes\<close> hands out the object's own bytes.\<close>

theorem object_at_cursor_is_read_as_bytes:
  assumes "pr_offsets r = Some v" and "laid_out 0 (items v) (items (pr_data r))"
    and "next_data_index r \<in> set (items v)" and "length (items (pr_data r)) < 2 ^ 64"
  shows "\<exists>k r'. bytes_until_next_obj prof r = Inr k \<and> layout_size FlatBinderObject \<le> k \<and>
    read_bytes prof k r = Inr (Inr (take k (drop (next_data_index r) (items (pr_data r))), r'))"
proof -
  let ?i = "next_data_index r" and ?bs = "items (pr_data r)"
  have next_start: "off1 + 24 \<le> off2"
    if "laid_out lo offs bs" "off1 \<in> set offs" "off2 \<in> set offs" "off1 < off2"
    for lo offs bs off1 off2 using that
  proof (induction offs arbitrary: lo)
    case (Cons o1 offs)
    have "\<forall>z \<in> set offs. o1 + object_size (dec_header (drop o1 bs)) \<le> z"
      using laid_out_sorted [of "o1 + object_size (dec_header (drop o1 bs))" offs bs] Cons.prems(1)
      by simp
    then show ?case
      using Cons object_size_ge [of "dec_header (drop o1 bs)"] by fastforce
  qed simp
  have in_bounds: "?i + 24 \<le> length ?bs" using laid_out_member assms(2,3) by blast
  show ?thesis
  proof (cases "find (\<lambda>off. ?i < off) (items v)")
    case None
    then have "bytes_until_next_obj prof r = Inr (length ?bs - ?i)"
      using in_bounds assms(1) by (simp add: bytes_until_next_obj_def Let_def)
    moreover have "read_bytes prof (length ?bs - ?i) r = Inr (Inr (take (length ?bs - ?i) (drop ?i ?bs),
        r\<lparr>next_data_index := ?i + (length ?bs - ?i)\<rparr>))"
      by (rule read_bytes_ok) (use None in_bounds assms(1,4) in auto)
    moreover have "24 \<le> length ?bs - ?i" using in_bounds by simp
    ultimately show ?thesis by auto
  next
    case (Some off)
    then have off: "?i < off" "off \<in> set (items v)" using find_greater by auto
    then have "?i + 24 \<le> off" "off + 24 \<le> length ?bs"
      using next_start [OF assms(2,3)] laid_out_member [OF assms(2)] by auto
    then have "bytes_until_next_obj prof r = Inr (off - ?i)" "24 \<le> off - ?i"
      using Some assms(1) off by (auto simp: bytes_until_next_obj_def Let_def)
    moreover have "read_bytes prof (off - ?i) r = Inr (Inr (take (off - ?i) (drop ?i ?bs),
        r\<lparr>next_data_index := ?i + (off - ?i)\<rparr>))"
      by (rule read_bytes_ok) (use Some \<open>off + 24 \<le> length ?bs\<close> off assms(1,4) in auto)
    ultimately show ?thesis by auto
  qed
qed

section \<open>Round trip\<close>

text \<open>
  The sequence of things a client pushes, once the values sent have been converted, what
  the payload of such a sequence looks like from position \<open>k\<close> on, and a client that
  reads the sequence back.
\<close>

datatype 'h item =
    It_Bytes "byte list"
  | It_Fd u32 i32 usize
  | It_Object u32 "'h binder_object_or_ref"

fun lay_bytes :: "nat \<Rightarrow> 'h item list \<Rightarrow> byte list" where
  "lay_bytes k [] = []"
| "lay_bytes k (It_Bytes bs # its) = bs @ lay_bytes (k + length bs) its"
| "lay_bytes k (It_Fd junk fd ck # its) = replicate (padding 8 k) 0 @
     enc_fd (fd_object junk fd ck) @ lay_bytes (k + padding 8 k + 24) its"
| "lay_bytes k (It_Object junk x # its) = replicate (padding 8 k) 0 @
     enc_flat (get_flat_binder_object junk x) @ lay_bytes (k + padding 8 k + 24) its"

fun lay_offsets :: "nat \<Rightarrow> 'h item list \<Rightarrow> nat list" where
  "lay_offsets k [] = []"
| "lay_offsets k (It_Bytes bs # its) = lay_offsets (k + length bs) its"
| "lay_offsets k (it # its) = (k + padding 8 k) # lay_offsets (k + padding 8 k + 24) its"

datatype read_request = Want_Bytes nat | Want_Fd | Want_Object

datatype 'h got = Got_Bytes "byte list" | Got_Fd i32 usize | Got_Object "'h binder_object_or_ref"

fun want :: "'h item \<Rightarrow> read_request" where
  "want (It_Bytes bs) = Want_Bytes (length bs)"
| "want (It_Fd junk fd ck) = Want_Fd"
| "want (It_Object junk x) = Want_Object"

text \<open>A client: the values read, or nothing as soon as one read is an error.\<close>

fun read_all :: "profile \<Rightarrow> read_request list \<Rightarrow> 'h payload_reader \<Rightarrow>
    ('h, 'h got list option) dev_action" where
  "read_all prof [] r = ret (Some [])"
| "read_all prof (Want_Bytes n # ws) r = bind (of_outcome (read_bytes prof n r))
     (\<lambda>res. case res of Inl e \<Rightarrow> ret None | Inr (ys, r1) \<Rightarrow> bind (read_all prof ws r1)
       (\<lambda>gs. ret (map_option ((#) (Got_Bytes ys)) gs)))"
| "read_all prof (Want_Fd # ws) r = bind (of_outcome (read_fd prof r))
     (\<lambda>res. case res of Inl e \<Rightarrow> ret None | Inr ((fd, ck), r1) \<Rightarrow> bind (read_all prof ws r1)
       (\<lambda>gs. ret (map_option ((#) (Got_Fd fd ck)) gs)))"
| "read_all prof (Want_Object # ws) r = bind (read_binder_ref prof r)
     (\<lambda>res. case res of Inl e \<Rightarrow> ret None | Inr (x, r1) \<Rightarrow> bind (read_all prof ws r1)
       (\<lambda>gs. ret (map_option ((#) (Got_Object x)) gs)))"

text \<open>What a value that was sent is for a receiver in the same process.\<close>

definition recover :: "profile \<Rightarrow> 'h binder_object_or_ref \<Rightarrow>
    ('h, binder_ref_read_error + 'h binder_object_or_ref) dev_action" where
  "recover prof x = (case x of
     Object b \<Rightarrow> bind (borrowed_from_id prof (bbo_id b)) (\<lambda>ob.
       ret (case ob of None \<Rightarrow> Inl UnknownBinderObject | Some c \<Rightarrow> Inr (Object c)))
   | WeakObject i \<Rightarrow> ret (Inr (WeakObject i))
   | Ref a \<Rightarrow> bind (ref_get_and_dedup_from_raw (ref_handle a)) (\<lambda>b. ret (Inr (Ref b)))
   | WeakRef w \<Rightarrow> bind (weak_get_and_dedup_from_raw (weak_handle w)) (\<lambda>v. ret (Inr (WeakRef v))))"

fun deliver :: "profile \<Rightarrow> 'h item list \<Rightarrow> ('h, 'h got list option) dev_action" where
  "deliver prof [] = ret (Some [])"
| "deliver prof (It_Bytes bs # its) = bind (deliver prof its)
     (\<lambda>gs. ret (map_option ((#) (Got_Bytes bs)) gs))"
| "deliver prof (It_Fd junk fd ck # its) = bind (deliver prof its)
     (\<lambda>gs. ret (map_option ((#) (Got_Fd fd ck)) gs))"
| "deliver prof (It_Object junk x # its) = bind (recover prof x)
     (\<lambda>res. case res of Inl e \<Rightarrow> ret None | Inr y \<Rightarrow> bind (deliver prof its)
       (\<lambda>gs. ret (map_option ((#) (Got_Object y)) gs)))"

lemma from_raw_id: "from_raw (id_raw i) (id_cookie i) = i"
  by (simp add: from_raw_def)

lemma resolve_sent: "resolve_flat prof (get_flat_binder_object junk x) = recover prof x"
  by (cases x) (simp_all add: resolve_flat_def get_flat_binder_object_def recover_def from_raw_id)

lemma lay_offsets_ge: "off \<in> set (lay_offsets k its) \<Longrightarrow> k \<le> off"
proof (induction k its rule: lay_offsets.induct)
  case (2 k bs its)
  then show ?case by fastforce
qed fastforce+

text \<open>The readers whose unread part is the layout of \<open>its\<close>.\<close>

definition unread :: "'h item list \<Rightarrow> 'h payload_reader \<Rightarrow> bool" where
  "unread its r \<longleftrightarrow> (\<exists>pre opre v.
     items (pr_data r) = pre @ lay_bytes (length pre) its \<and> pr_offsets r = Some v \<and>
     items v = opre @ lay_offsets (length pre) its \<and> (\<forall>off \<in> set opre. off < length pre) \<and>
     next_offset_index r = length opre \<and> next_data_index r = length pre) \<and>
   length (items (pr_data r)) < 2 ^ 64"

lemma find_skip: "\<forall>x \<in> set xs. \<not> P x \<Longrightarrow> find P (xs @ ys) = find P ys"
  by (induction xs) auto

lemma unread_bytes:
  assumes "unread (It_Bytes bs # its) r"
  shows "\<exists>r1. read_bytes prof (length bs) r = Inr (Inr (bs, r1)) \<and> unread its r1"
proof -
  obtain pre opre v where u: "items (pr_data r) = pre @ bs @ lay_bytes (length pre + length bs) its"
    "pr_offsets r = Some v" "items v = opre @ lay_offsets (length pre + length bs) its"
    "\<forall>off \<in> set opre. off < length pre" "next_offset_index r = length opre"
    "next_data_index r = length pre" "length (items (pr_data r)) < 2 ^ 64"
    using assms by (auto simp: unread_def)
  have next_start: "length pre + length bs \<le> off"
    if "find (\<lambda>off. length pre < off) (items v) = Some off" for off
  proof -
    have "\<forall>x \<in> set opre. \<not> length pre < x" using u(4) by auto
    then have "find (\<lambda>off. length pre < off) (lay_offsets (length pre + length bs) its) = Some off"
      using that u(3) by (simp only: find_skip)
    then show ?thesis using find_greater lay_offsets_ge by blast
  qed
  have "read_bytes prof (length bs) r = Inr (Inr (take (length bs) (drop (length pre)
      (items (pr_data r))), r\<lparr>next_data_index := length pre + length bs\<rparr>))"
    using u next_start by (subst read_bytes_ok) auto
  moreover have "unread its (r\<lparr>next_data_index := length pre + length bs\<rparr>)"
    unfolding unread_def using u
    by (auto intro!: exI [of _ "pre @ bs"] exI [of _ opre])
  ultimately show ?thesis using u by simp
qed

text \<open>The current object of a reader whose next item is an object of 24 bytes.\<close>

lemma unread_object:
  assumes "unread (it # its) r"
    and "\<And>k. lay_bytes k (it # its) = replicate (padding 8 k) 0 @ ob @
      lay_bytes (k + padding 8 k + 24) its"
    and "\<And>k. lay_offsets k (it # its) = (k + padding 8 k) # lay_offsets (k + padding 8 k + 24) its"
    and "length ob = 24"
  obtains off where "current_offset r = Some off" and "off + 24 < 2 ^ 64"
    and "data_at prof r off 4 = Inr (take 4 ob)" and "data_at prof r off 24 = Inr ob"
    and "unread its (r\<lparr>next_offset_index := next_offset_index r + 1, next_data_index := off + 24\<rparr>)"
proof -
  obtain pre opre v where u: "items (pr_data r) = pre @ lay_bytes (length pre) (it # its)"
    "pr_offsets r = Some v" "items v = opre @ lay_offsets (length pre) (it # its)"
    "\<forall>off \<in> set opre. off < length pre" "next_offset_index r = length opre"
    "length (items (pr_data r)) < 2 ^ 64"
    using assms(1) unfolding unread_def by blast
  define p where "p = pre @ replicate (padding 8 (length pre)) (0 :: byte)"
  have len: "length p = length pre + padding 8 (length pre)" by (simp add: p_def)
  have bytes: "items (pr_data r) = p @ ob @ lay_bytes (length p + 24) its"
    using u(1) assms(2) len by (simp add: p_def)
  have offs: "items v = opre @ length p # lay_offsets (length p + 24) its"
    using u(3) assms(3) len by simp
  have bound: "length p + 24 \<le> length (items (pr_data r))" using bytes assms(4) by simp
  have old: "\<forall>off \<in> set opre. off < length p + 24" using u(4) len by auto
  have "unread its (r\<lparr>next_offset_index := next_offset_index r + 1, next_data_index := length p + 24\<rparr>)"
    unfolding unread_def using u(2,5,6) bytes offs assms(4) old
    by (auto intro!: exI [of _ "p @ ob"] exI [of _ "opre @ [length p]"])
  moreover have "current_offset r = Some (length p)"
    using u(2,5) offs by (simp add: current_offset_def nth_append)
  moreover have "length p + 24 < 2 ^ 64" using bound u(6) by simp
  moreover have "data_at prof r (length p) 4 = Inr (take 4 ob)" "data_at prof r (length p) 24 = Inr ob"
    using bytes assms(4) bound u(6) by (simp_all add: data_at_def)
  ultimately show ?thesis using that by blast
qed

lemma unread_fd:
  assumes "unread (It_Fd junk fd ck # its) r"
  shows "\<exists>r1. read_fd prof r = Inr (Inr ((fd, ck), r1)) \<and> unread its r1"
proof -
  let ?ob = "enc_fd (fd_object junk fd ck)"
  obtain off where o1: "current_offset r = Some off" "off + 24 < 2 ^ 64"
    "data_at prof r off 4 = Inr (take 4 ?ob)" "data_at prof r off 24 = Inr ?ob"
    "unread its (r\<lparr>next_offset_index := next_offset_index r + 1, next_data_index := off + 24\<rparr>)"
    by (rule unread_object [OF assms, where ob = ?ob]) simp_all
  have "dec_header (take 4 ?ob) = FD" by simp
  then show ?thesis
    using o1 by (simp add: read_fd_def fd_codec.dec_exact Let_def) (simp add: fd_object_def)
qed

lemma flat_header [simp]:
  "dec_header (take 4 (enc_flat f)) = hdr_type f"
  using dec_header_enc(1) [of f "[]"] by simp

lemma sent_type [simp]:
  "hdr_type (get_flat_binder_object junk x) \<in> {BINDER, HANDLE, WEAK_BINDER, WEAK_HANDLE}"
  by (cases x) (simp_all add: get_flat_binder_object_def)

lemma unread_binder:
  assumes "unread (It_Object junk x # its) r"
  obtains r1 where "unread its r1" and "read_binder_ref prof r = bind (recover prof x)
    (\<lambda>res. case res of Inl e \<Rightarrow> ret (Inl e) | Inr y \<Rightarrow> ret (Inr (y, r1)))"
proof -
  let ?f = "get_flat_binder_object junk x"
  obtain off where o1: "current_offset r = Some off" "off + 24 < 2 ^ 64"
    "data_at prof r off 4 = Inr (take 4 (enc_flat ?f))" "data_at prof r off 24 = Inr (enc_flat ?f)"
    "unread its (r\<lparr>next_offset_index := next_offset_index r + 1, next_data_index := off + 24\<rparr>)"
    by (rule unread_object [OF assms, where ob = "enc_flat ?f"]) simp_all
  let ?r1 = "r\<lparr>next_offset_index := next_offset_index r + 1, next_data_index := off + 24\<rparr>"
  have "read_binder_ref prof r d = bind (recover prof x)
    (\<lambda>res. case res of Inl e \<Rightarrow> ret (Inl e) | Inr y \<Rightarrow> ret (Inr (y, ?r1))) d" for d
    using o1(1-4) sent_type [of junk x]
    by (auto simp: read_binder_ref_def resolve_sent flat_codec.dec_exact bind_def
        split: prod.split sum.split)
  with o1(5) that show ?thesis by blast
qed

lemma bind_assoc: "bind (bind m f) g = bind m (\<lambda>x. bind (f x) g)"
  by (rule ext) (simp add: bind_def split: prod.split sum.split)

lemma read_all_unread:
  "unread its r \<Longrightarrow> read_all prof (map want its) r = deliver prof its"
proof (induction its arbitrary: r)
  case (Cons it its)
  show ?case
  proof (cases it)
    case (It_Bytes bs)
    with Cons unread_bytes [of bs its r prof] show ?thesis
      by (auto simp: bind_def of_outcome_def fun_eq_iff)
  next
    case (It_Fd junk fd ck)
    with Cons unread_fd [of junk fd ck its r prof] show ?thesis
      by (auto simp: bind_def of_outcome_def fun_eq_iff)
  next
    case (It_Object junk x)
    then obtain r1 where "unread its r1" and "read_binder_ref prof r = bind (recover prof x)
        (\<lambda>res. case res of Inl e \<Rightarrow> ret (Inl e) | Inr y \<Rightarrow> ret (Inr (y, r1)))"
      using Cons.prems by (auto elim: unread_binder)
    with Cons.IH It_Object show ?thesis
      by (auto simp: bind_def fun_eq_iff split: prod.split sum.split)
  qed
qed simp

text \<open>The pushes that carry something a client can read, and what they push.\<close>

fun plain :: "'h push_op \<Rightarrow> bool" where
  "plain (Push_Bytes bs) = True"
| "plain (Push_Binder junk x) = True"
| "plain (Push_Fd junk fd ck) = True"
| "plain (Push_Owned_Fd junk fd ck) = True"
| "plain _ = False"

fun same_target :: "'h sendable \<Rightarrow> 'h binder_object_or_ref \<Rightarrow> bool" where
  "same_target (Send_Object ob) (Object b) = (bbo_id b = bo_id ob)"
| "same_target (Send_Object_Ref r) (Object b) = (bbo_id b = bor_id r)"
| "same_target (Send_Borrowed c) (Object b) = (bbo_id b = bbo_id c)"
| "same_target (Send_Erased (Object c)) (Object b) = (bbo_id b = bbo_id c)"
| "same_target (Send_Weak_Object i) (WeakObject j) = (j = i)"
| "same_target (Send_Erased (WeakObject i)) (WeakObject j) = (j = i)"
| "same_target (Send_Ref a) (Ref b) = (b = a)"
| "same_target (Send_Erased (Ref a)) (Ref b) = (b = a)"
| "same_target (Send_Weak_Ref w) (WeakRef v) = (v = w)"
| "same_target (Send_Erased (WeakRef w)) (WeakRef v) = (v = w)"
| "same_target _ _ = False"

fun carries :: "'h push_op \<Rightarrow> 'h item \<Rightarrow> bool" where
  "carries (Push_Bytes bs) it = (it = It_Bytes bs)"
| "carries (Push_Fd junk fd ck) it = (it = It_Fd junk fd ck)"
| "carries (Push_Owned_Fd junk fd ck) it = (it = It_Fd junk fd ck)"
| "carries (Push_Binder junk x) it = (case it of It_Object j y \<Rightarrow> same_target x y | _ \<Rightarrow> False)"
| "carries _ it = False"

lemma borrowed_from_id_id:
  "borrowed_from_id prof i d = (Inr (Some b), d') \<Longrightarrow> bbo_id b = i"
  by (auto simp: borrowed_from_id_def elim!: bind_Inr_cases split: option.splits)

lemma converted_same_target:
  assumes "to_binder_object_or_ref prof x d = (Inr y, d')"
  shows "same_target x y"
proof (cases x)
  case (Send_Object_Ref r)
  with assms obtain b d1 where b: "object_ref_as_erased prof r d = (Inr b, d1)" and "y = Object b"
    by (auto simp: to_binder_object_or_ref_def elim!: bind_Inr_cases)
  from b obtain d2 where "borrowed_from_id prof (bor_id r) d = (Inr (Some b), d2)"
    by (auto simp: object_ref_as_erased_def elim!: bind_Inr_cases split: option.splits)
  then have "bbo_id b = bor_id r" by (rule borrowed_from_id_id)
  then show ?thesis by (simp add: Send_Object_Ref \<open>y = Object b\<close>)
qed (use assms in \<open>auto simp: to_binder_object_or_ref_def object_to_object_or_ref_def
    borrowed_clone_def object_or_ref_clone_def arc_clone_def elim!: bind_Inr_cases
    split: binder_object_or_ref.splits\<close>)

lemma lay_bytes_Cons:
  "lay_bytes k (it # its) = lay_bytes k [it] @ lay_bytes (k + length (lay_bytes k [it])) its"
  by (cases it) (simp_all add: add.assoc)

lemma lay_offsets_Cons:
  "lay_offsets k (it # its) = lay_offsets k [it] @ lay_offsets (k + length (lay_bytes k [it])) its"
  by (cases it) (simp_all add: add.assoc)

definition extended_by :: "'h payload_builder \<Rightarrow> 'h item list \<Rightarrow> 'h payload_builder \<Rightarrow> bool" where
  "extended_by b its c \<longleftrightarrow>
     pb_data c = pb_data b @ lay_bytes (length (pb_data b)) its \<and>
     obj_offsets c = obj_offsets b @ lay_offsets (length (pb_data b)) its"

lemma push_step_item:
  assumes "plain p" and "push_step prof p b d = (Inr (Some c), d1)"
  shows "\<exists>it. carries p it \<and> extended_by b [it] c"
proof (cases p)
  case (Push_Binder junk x)
  with assms(2) obtain port where conv: "to_binder_object_or_ref prof x d = (Inr port, d1)"
    and "extended_by b [It_Object junk port] c"
    by (auto simp: push_binder_ref_def align_eq append_object_def extended_by_def elim!: bind_Inr_cases)
  with Push_Binder converted_same_target [OF conv] show ?thesis by force
qed (use assms in \<open>auto simp: push_bytes_def push_fd_def push_owned_fd_def align_eq
    append_object_def extended_by_def\<close>)

lemma pushes_items:
  "list_all plain ps \<Longrightarrow> pushes prof ps b d = (Inr (Some c), d1) \<Longrightarrow>
    \<exists>its. list_all2 carries ps its \<and> extended_by b its c"
proof (induction ps arbitrary: b d)
  case Nil
  then show ?case by (simp add: extended_by_def)
next
  case (Cons p ps)
  from Cons.prems(2) obtain r d2 where r: "push_step prof p b d = (Inr r, d2)"
    and rest: "(case r of None \<Rightarrow> ret None | Some b \<Rightarrow> pushes prof ps b) d2 = (Inr (Some c), d1)"
    by (auto simp only: pushes.simps elim: bind_Inr_cases)
  then obtain b1 where b1: "r = Some b1" by (cases r) auto
  obtain it where it: "carries p it" "extended_by b [it] b1"
    using push_step_item [OF _ r [unfolded b1]] Cons.prems(1) by auto
  obtain its where its: "list_all2 carries ps its" "extended_by b1 its c"
    using Cons.IH [of b1 d2] Cons.prems(1) rest b1 by auto
  have "extended_by b (it # its) c"
    using it(2) its(2) lay_bytes_Cons [of _ it its] lay_offsets_Cons [of _ it its]
    by (simp add: extended_by_def)
  with it(1) its(1) show ?case by auto
qed

text \<open>The items of the copy: every descriptor replaced by its duplicate.\<close>

primrec dup_items :: "u32 \<Rightarrow> dup_call \<Rightarrow> nat \<Rightarrow> 'h item list \<Rightarrow> 'h item list outcome" where
  "dup_items junk dup n [] = Inr []"
| "dup_items junk dup n (it # its) = (case it of
     It_Fd j fd ck \<Rightarrow> (case dup n fd of None \<Rightarrow> Inl Unwrap_Failed
       | Some new_fd \<Rightarrow> bind_out (dup_items junk dup (n + 1) its)
           (\<lambda>its. Inr (It_Fd junk new_fd ck # its)))
   | _ \<Rightarrow> bind_out (dup_items junk dup n its) (\<lambda>its. Inr (it # its)))"

lemma dup_items_kinds:
  "dup_items junk dup n its = Inr its' \<Longrightarrow>
     map want its' = map want its \<and> lay_offsets k its' = lay_offsets k its"
proof (induction its arbitrary: n k its')
  case (Cons it its)
  then show ?case
    by (cases it) (auto simp: bind_out_eq_Inr split: option.splits)
qed simp

lemma dup_items_length:
  "dup_items junk dup n its = Inr its' \<Longrightarrow> length (lay_bytes k its') = length (lay_bytes k its)"
proof (induction its arbitrary: n k its')
  case (Cons it its)
  then show ?case
    by (cases it) (auto simp: bind_out_eq_Inr split: option.splits)
qed simp

lemma set_fd_at:
  assumes "length p = off"
  shows "set_fd junk off new_fd (p @ enc_fd (fd_object j fd ck) @ rest) =
    p @ enc_fd (fd_object junk new_fd ck) @ rest"
  using assms by (simp add: set_fd_def enc_fd_def fd_object_def)

lemma object_type_of_sent [simp]:
  "object_type_of (hdr_type (get_flat_binder_object junk x)) \<in>
    {Some Type_BinderObject, Some Type_BinderRef, Some Type_WeakBinderObject, Some Type_WeakBinderRef}"
  by (cases x) (simp_all add: get_flat_binder_object_def object_type_of_def)

lemma slice_mid:
  assumes "length p = off" and "n \<le> length ob" and "off + n < 2 ^ 64"
  shows "bind_out (usize_add prof off n) (slice_index (p @ ob @ rest) off) = Inr (take n ob)"
  using assms by simp

lemma dup_fds_fd:
  assumes "length p = off" and "off + 24 < 2 ^ 64"
  shows "dup_fds prof junk dup n (off # offs) (p @ enc_fd (fd_object j fd ck) @ rest) =
    (case dup n fd of None \<Rightarrow> Inl Unwrap_Failed
     | Some v \<Rightarrow> dup_fds prof junk dup (n + 1) offs (p @ enc_fd (fd_object junk v ck) @ rest))"
proof -
  have "dec_header (take 4 (enc_fd (fd_object j fd ck))) = FD"
    by simp
  moreover have "union_read32 (fd_data (fd_object j fd ck)) = fd" by (simp add: fd_object_def)
  ultimately show ?thesis
    using assms slice_mid [OF assms(1), of 4 "enc_fd (fd_object j fd ck)"]
      slice_mid [OF assms(1), of 24 "enc_fd (fd_object j fd ck)"]
    by (simp add: object_type_of_def fd_codec.dec_exact set_fd_at [OF assms(1)]
        cong: option.case_cong)
qed

lemma dup_fds_flat:
  assumes "length p = off" and "off + 24 < 2 ^ 64"
  shows "dup_fds prof junk dup n (off # offs) (p @ enc_flat (get_flat_binder_object j x) @ rest) =
    dup_fds prof junk dup n offs (p @ enc_flat (get_flat_binder_object j x) @ rest)"
  using assms slice_mid [OF assms(1), of 4 "enc_flat (get_flat_binder_object j x)"]
    object_type_of_sent [of j x]
  by auto

lemma dup_fds_laid:
  assumes "length pre + length (lay_bytes (length pre) its) < 2 ^ 64"
  shows "dup_fds prof junk dup n (lay_offsets (length pre) its) (pre @ lay_bytes (length pre) its) =
    bind_out (dup_items junk dup n its) (\<lambda>its'. Inr (pre @ lay_bytes (length pre) its'))"
  using assms
proof (induction its arbitrary: n pre)
  case (Cons it its)
  define p where "p = pre @ replicate (padding 8 (length pre)) (0 :: byte)"
  have lp: "length p = length pre + padding 8 (length pre)" by (simp add: p_def)
  show ?case
  proof (cases it)
    case (It_Bytes bs)
    with Cons.prems Cons.IH [of "pre @ bs" n] show ?thesis
      by (cases "dup_items junk dup n its") (simp_all add: add.assoc)
  next
    case (It_Fd j fd ck)
    have bytes: "pre @ lay_bytes (length pre) (It_Fd l v ck # its) =
        p @ enc_fd (fd_object l v ck) @ lay_bytes (length p + 24) its" for l v its
      by (simp add: p_def)
    have offs: "lay_offsets (length pre) (It_Fd j fd ck # its) =
        length p # lay_offsets (length p + 24) its"
      by (simp add: lp)
    have room: "length p + 24 + length (lay_bytes (length p + 24) its) < 2 ^ 64"
      using Cons.prems It_Fd lp by simp
    then have "length p + 24 < 2 ^ 64" by simp
    note step = dup_fds_fd [OF refl this]
    have first: "dup_fds prof junk dup n (lay_offsets (length pre) (it # its))
        (pre @ lay_bytes (length pre) (it # its)) =
      (case dup n fd of None \<Rightarrow> Inl Unwrap_Failed
       | Some v \<Rightarrow> dup_fds prof junk dup (n + 1) (lay_offsets (length p + 24) its)
           (p @ enc_fd (fd_object junk v ck) @ lay_bytes (length p + 24) its))"
      unfolding offs It_Fd bytes by (rule step)
    have rest: "dup_fds prof junk dup (n + 1) (lay_offsets (length p + 24) its)
        (p @ enc_fd (fd_object junk v ck) @ lay_bytes (length p + 24) its) =
      bind_out (dup_items junk dup (n + 1) its)
        (\<lambda>its'. Inr (pre @ lay_bytes (length pre) (It_Fd junk v ck # its')))" for v
      unfolding bytes using room Cons.IH [of "p @ enc_fd (fd_object junk v ck)" "n + 1"]
      by (simp del: dup_fds.simps)
    show ?thesis
      unfolding first rest
      by (simp add: It_Fd bind_out_def del: lay_bytes.simps split: option.split sum.split)
  next
    case (It_Object j x)
    have bytes: "pre @ lay_bytes (length pre) (It_Object j x # its) =
        p @ enc_flat (get_flat_binder_object j x) @ lay_bytes (length p + 24) its" for its
      by (simp add: p_def)
    have offs: "lay_offsets (length pre) (It_Object j x # its) =
        length p # lay_offsets (length p + 24) its"
      by (simp add: lp)
    have room: "length p + 24 + length (lay_bytes (length p + 24) its) < 2 ^ 64"
      using Cons.prems It_Object lp by simp
    then have "length p + 24 < 2 ^ 64" by simp
    note step = dup_fds_flat [OF refl this]
    have first: "dup_fds prof junk dup n (lay_offsets (length pre) (it # its))
        (pre @ lay_bytes (length pre) (it # its)) =
      dup_fds prof junk dup n (lay_offsets (length p + 24) its)
        (p @ enc_flat (get_flat_binder_object j x) @ lay_bytes (length p + 24) its)"
      unfolding offs It_Object bytes by (rule step)
    have rest: "dup_fds prof junk dup n (lay_offsets (length p + 24) its)
        (p @ enc_flat (get_flat_binder_object j x) @ lay_bytes (length p + 24) its) =
      bind_out (dup_items junk dup n its)
        (\<lambda>its'. Inr (pre @ lay_bytes (length pre) (It_Object j x # its')))"
      unfolding bytes using room Cons.IH [of "p @ enc_flat (get_flat_binder_object j x)" n]
      by (simp del: dup_fds.simps)
    show ?thesis
      unfolding first rest
      by (simp add: It_Object bind_out_def del: lay_bytes.simps split: sum.split)
  qed
qed simp

section \<open>Properties of the round trip\<close>


definition demo_plain :: "unit push_op list" where
  "demo_plain = [Push_Bytes [1, 2, 3], Push_Fd 0 5 9]"

definition demo_plain_builder :: "unit payload_builder" where
  "demo_plain_builder = \<lparr>pb_data = [1, 2, 3, 0, 0, 0, 0, 0] @ enc_fd (fd_object 0 5 9),
     obj_offsets = [8], owned_fds = [], binder_objects = []\<rparr>"

definition demo_dup :: dup_call where "demo_dup n fd = Some (fd + 10)"

definition demo_reader :: "unit payload_reader" where
  "demo_reader = \<lparr>pr_data = Owned ([1, 2, 3, 0, 0, 0, 0, 0] @ enc_fd (fd_object 0 15 9)),
     pr_offsets = Some (Owned [8]), pr_binder_objects = [], next_offset_index = 0,
     next_data_index = 0\<rparr>"

lemma five_zeros: "replicate 5 (0 :: byte) = [0, 0, 0, 0, 0]"
  by (simp add: numeral_eq_Suc)

lemma demo_plain_build:
  "pushes Checked demo_plain new_builder d = (Inr (Some demo_plain_builder), d)"
  by (simp add: demo_plain_def demo_plain_builder_def push_fd_def align_eq new_builder_def
      push_bytes_def append_object_def padding_def five_zeros)

lemma demo_plain_dup:
  assumes "p = [1, 2, 3, 0, 0, 0, 0, 0 :: byte]"
  shows "dup_fds Checked 0 demo_dup 0 [8] (p @ enc_fd (fd_object 0 5 9) @ []) =
      Inr (p @ enc_fd (fd_object 0 15 9) @ [])"
proof -
  have "length p = 8" by (simp add: assms)
  then have "dup_fds Checked 0 demo_dup 0 [8] (p @ enc_fd (fd_object 0 5 9) @ []) =
    (case demo_dup 0 5 of None \<Rightarrow> Inl Unwrap_Failed
     | Some v \<Rightarrow> dup_fds Checked 0 demo_dup (0 + 1) [] (p @ enc_fd (fd_object 0 v 9) @ []))"
    by (rule dup_fds_fd) simp
  then show ?thesis by (simp only: demo_dup_def option.case dup_fds.simps) simp
qed

lemma demo_plain_read:
  "from_builder Checked 0 demo_dup demo_plain_builder d = (Inr demo_reader, d)"
  using demo_plain_dup [OF refl]
  by (simp only: from_builder_def demo_plain_builder_def demo_reader_def payload_builder.simps
      append_Nil2 bind_def of_outcome_def) simp


theorem read_bytes_stops_before_objects_witness:
  "take 3 (items (pr_data demo_reader)) = [1, 2, 3] \<and> (3 :: nat) \<le> 8"
proof -
  have "read_bytes Checked 3 demo_reader =
      Inr (Inr ([1, 2, 3], demo_reader\<lparr>next_data_index := 3\<rparr>))"
    by (simp add: read_bytes_def demo_reader_def slice_get_def)
  from read_bytes_stops_before_objects [OF this] show ?thesis by (simp add: demo_reader_def)
qed

theorem bytes_until_next_obj_is_maximal_witness:
  "(\<exists>ok. read_bytes Checked 8 demo_reader = Inr (Inr ok)) \<and>
   \<not> (\<exists>ok. read_bytes Checked 9 demo_reader = Inr (Inr ok))"
proof -
  have "bytes_until_next_obj Checked demo_reader = Inr 8"
    by (simp add: bytes_until_next_obj_def demo_reader_def)
  from bytes_until_next_obj_is_maximal [OF _ _ _ this, of "Owned [8]" 8]
    bytes_until_next_obj_is_maximal [OF _ _ _ this, of "Owned [8]" 9]
  show ?thesis by (simp add: demo_reader_def)
qed

theorem object_at_cursor_is_read_as_bytes_witness:
  "\<exists>k r'. bytes_until_next_obj Checked (demo_reader\<lparr>next_data_index := 8\<rparr>) = Inr k \<and> 24 \<le> k"
proof -
  have "laid_out 0 [8] (items (pr_data demo_reader))"
    by (simp add: demo_reader_def binder_types_def)
  then show ?thesis
    using object_at_cursor_is_read_as_bytes [of "demo_reader\<lparr>next_data_index := 8\<rparr>" "Owned [8]" Checked]
    by (auto simp: demo_reader_def)
qed

section \<open>Properties of the destructor\<close>

definition remaining :: "'h payload_reader \<Rightarrow> nat list" where
  "remaining r = (case pr_offsets r of None \<Rightarrow> [] | Some v \<Rightarrow> drop (next_offset_index r) (items v))"

definition drainable :: "profile \<Rightarrow> 'h payload_reader \<Rightarrow> bool" where
  "drainable prof r \<longleftrightarrow> (\<forall>off \<in> set (remaining r). \<forall>hb.
     data_at prof r off (layout_size BinderObjectHeader) = Inr hb \<longrightarrow>
     dec_header hb \<noteq> FDA \<and> dec_header hb \<noteq> PTR)"

lemma remaining_step:
  assumes "current_offset r = Some off"
  shows "remaining r = off # remaining (r\<lparr>next_offset_index := next_offset_index r + 1,
    next_data_index := k\<rparr>)"
    "remaining r = off # remaining (r\<lparr>next_offset_index := next_offset_index r + 1\<rparr>)"
  using assms by (auto simp: remaining_def current_offset_def Cons_nth_drop_Suc
      split: option.splits if_splits)

lemma data_at_upd [simp]:
  "data_at prof (r\<lparr>next_offset_index := n, next_data_index := k\<rparr>) = data_at prof r"
  "data_at prof (r\<lparr>next_offset_index := n\<rparr>) = data_at prof r"
  by (simp_all add: data_at_def fun_eq_iff)

lemma drainable_step:
  assumes "drainable prof r" and "current_offset r = Some off"
  shows "drainable prof (r\<lparr>next_offset_index := next_offset_index r + 1, next_data_index := k\<rparr>)"
    "drainable prof (r\<lparr>next_offset_index := next_offset_index r + 1\<rparr>)"
  using assms(1) remaining_step [OF assms(2)] by (auto simp: drainable_def)

lemma read_binder_ref_next:
  assumes "read_binder_ref prof r d = (Inr (Inr (x, r1)), d1)"
  obtains off k where "current_offset r = Some off"
    and "r1 = r\<lparr>next_offset_index := next_offset_index r + 1, next_data_index := k\<rparr>"
  using assms by (auto simp: read_binder_ref_def elim!: bind_Inr_cases
      split: option.splits if_splits sum.splits)

lemma read_fd_next:
  assumes "read_fd prof r = Inr (Inr (x, r1))"
  obtains off k where "current_offset r = Some off"
    and "r1 = r\<lparr>next_offset_index := next_offset_index r + 1, next_data_index := k\<rparr>"
  using assms by (auto simp: read_fd_def bind_out_eq_Inr Let_def split: option.splits if_splits)

lemma next_object_type_current:
  assumes "next_object_type prof r = Inr (Some ty)"
  obtains off hb where "current_offset r = Some off"
    and "data_at prof r off 4 = Inr hb" and "object_type_of (dec_header hb) = Some ty"
  using assms by (auto simp: next_object_type_def bind_out_eq_Inr split: option.splits)

lemma object_type_of_Fd: "object_type_of t = Some Type_Fd \<Longrightarrow> t = FD"
  by (auto simp: object_type_of_def split: if_splits)

lemma drain_returns: "drainable prof r \<Longrightarrow> drain prof r closed d \<noteq> None"
proof (induction "length (remaining r)" arbitrary: r closed d rule: less_induct)
  case less
  show ?case
  proof (cases "next_object_type prof r")
    case (Inl p)
    then show ?thesis by (simp add: drain.simps)
  next
    case (Inr o1)
    show ?thesis
    proof (cases o1)
      case None
      with Inr show ?thesis by (simp add: drain.simps)
    next
      case (Some ty)
      then obtain off hb where cur: "current_offset r = Some off" "data_at prof r off 4 = Inr hb"
        "object_type_of (dec_header hb) = Some ty"
        using Inr by (auto elim: next_object_type_current)
      have "off \<in> set (remaining r)" using remaining_step(2) [OF cur(1)] by (simp only: list.set_intros)
      then have "dec_header hb \<noteq> FDA" "dec_header hb \<noteq> PTR"
        using less.prems cur(2) by (auto simp: drainable_def)
      then have ty: "ty \<noteq> Type_FdArray" "ty \<noteq> Type_Buffer"
        using cur(3) by (auto simp: object_type_of_def split: if_splits)
      have IH: "drain prof (r\<lparr>next_offset_index := next_offset_index r + 1, next_data_index := k\<rparr>) cl d1 \<noteq> None"
        "drain prof (r\<lparr>next_offset_index := next_offset_index r + 1\<rparr>) cl d1 \<noteq> None" for k cl d1
        using less.hyps less.prems remaining_step [OF cur(1)] drainable_step [OF less.prems cur(1)]
        by (simp_all add: less_Suc_eq)
      have fd: "\<exists>p. read_fd prof r = Inl p \<or> (\<exists>x. read_fd prof r = Inr (Inr x))" if "ty = Type_Fd"
        using cur that object_type_of_Fd
        by (cases "read_fd prof r")
          (auto simp: read_fd_def bind_out_eq_Inr Let_def split: if_splits)
      show ?thesis
      proof (cases "ty = Type_Fd")
        case True
        from fd [OF this] consider p where "read_fd prof r = Inl p"
          | f ck r1 where "read_fd prof r = Inr (Inr ((f, ck), r1))" by force
        then show ?thesis
        proof cases
          case 2
          from read_fd_next [OF 2] obtain k where
            "r1 = r\<lparr>next_offset_index := next_offset_index r + 1, next_data_index := k\<rparr>" by blast
          with 2 True Inr Some IH(1) show ?thesis by (subst drain.simps) simp
        qed (use True Inr Some in \<open>subst drain.simps, simp\<close>)
      next
        case False
        then have "ty \<in> {Type_BinderObject, Type_WeakBinderObject, Type_BinderRef, Type_WeakBinderRef}"
          using ty by (cases ty) auto
        with Inr Some IH show ?thesis
          by (subst drain.simps) (auto split: prod.split sum.split elim!: read_binder_ref_next)
      qed
    qed
  qed
qed

lemma drain_stuck:
  assumes "next_object_type prof r = Inr (Some ty)" and "ty \<in> {Type_FdArray, Type_Buffer}"
  shows "drain prof r closed d = None"
proof -
  have "\<not> (next_object_type prof r = Inr (Some ty) \<and> ty \<in> {Type_FdArray, Type_Buffer})"
    if "drain prof r closed d = Some y" for prof r closed d y
  proof (rule drain.raw_induct [OF _ that], goal_cases)
    case (1 f prof r closed d y)
    show ?case
    proof
      assume h: "next_object_type prof r = Inr (Some ty) \<and> ty \<in> {Type_FdArray, Type_Buffer}"
      with 1(2) have "f prof r closed d = Some y" by auto
      from 1(1) [OF this] h show False by blast
    qed
  qed
  with assms show ?thesis by (metis option.exhaust)
qed

text \<open>C23: Dropping a reader returns, whatever was left unread and whatever the kernel or the
  handlers answer, as long as no unread object is a buffer or a descriptor array: every iteration
  of the destructor's loop moves to the next object, also when reading it is an error.\<close>

theorem reader_drop_returns:
  assumes "drainable prof r"
  shows "\<exists>res. reader_drop prof r d = Some res"
proof -
  obtain res d1 where "drain prof r [] d = Some (res, d1)" using drain_returns [OF assms] by fast
  then show ?thesis by (cases res) (simp_all add: reader_drop_def)
qed

theorem reader_drop_returns_witness:
  "\<exists>res. reader_drop Checked demo_reader (new_device (\<lambda>_. None)) = Some res"
proof -
  let ?p = "[1, 2, 3, 0, 0, 0, 0, 0] :: byte list"
  have "data_at Checked demo_reader 8 4 = Inr (take 4 (enc_fd (fd_object 0 15 9)))"
    by (simp add: data_at_def demo_reader_def)
  then have "drainable Checked demo_reader"
    by (simp add: drainable_def remaining_def) (simp add: demo_reader_def)
  then show ?thesis by (rule reader_drop_returns)
qed

text \<open>A reader with an unread buffer or descriptor array as its next object is never
  dropped: the destructor only logs such an object and tries it again, so it loops forever, and
  the kernel buffer is never freed.\<close>

theorem reader_drop_loops_on_buffers:
  assumes "next_object_type prof r = Inr (Some ty)" and "ty = Type_FdArray \<or> ty = Type_Buffer"
  shows "reader_drop prof r d = None"
  using drain_stuck [OF assms(1), of "[]" d] assms(2) by (auto simp: reader_drop_def)

definition demo_stuck :: "unit payload_reader" where
  "demo_stuck = from_kernel_raw (4096, enc_buffer \<lparr>buf_hdr_type = PTR, buf_flags = 0, buffer = 64,
     buf_length = 1, buf_parent = 0, buf_parent_offset = 0\<rparr>) (8192, [0])"

theorem reader_drop_loops_on_buffers_witness:
  "reader_drop Checked demo_stuck (new_device (\<lambda>_. None)) = None"
proof -
  let ?b = "\<lparr>buf_hdr_type = PTR, buf_flags = 0, buffer = 64, buf_length = 1, buf_parent = 0,
    buf_parent_offset = 0\<rparr>"
  have "current_offset demo_stuck = Some 0" by (simp add: current_offset_def demo_stuck_def
      from_kernel_raw_def)
  moreover have "data_at Checked demo_stuck 0 4 = Inr (take 4 (enc_buffer ?b))"
    by (simp add: data_at_def demo_stuck_def from_kernel_raw_def)
  moreover have "dec_header (enc_buffer ?b) = PTR" by simp
  ultimately have "next_object_type Checked demo_stuck = Inr (Some Type_Buffer)"
    by (simp add: next_object_type_def object_type_of_def)
  then show ?thesis by (rule reader_drop_loops_on_buffers) simp
qed

text \<open>What a reader leaves true of the device.\<close>

context ref_traffic begin

lemma object_lists [device_intros]:
  "keeps I (drop_objects prof xs)" "keeps I (clone_objects prof xs)"
  by (induction xs) (simp_all only: drop_objects.simps clone_objects.simps,
      (intro device_intros | assumption)+)

lemma resolved_flat [device_intros]: "keeps I (resolve_flat prof f)"
  unfolding resolve_flat_def by (intro device_intros)

lemma binder_ref_read [device_intros]: "keeps I (read_binder_ref prof r)"
  unfolding read_binder_ref_def by (intro device_intros)

lemma reader_built [device_intros]: "keeps I (from_builder prof junk dup b)"
  unfolding from_builder_def by (intro device_intros)

lemma drained:
  assumes "drain prof r closed d = Some (res, d1)" and "I d"
  shows "I d1"
proof -
  have "I d \<longrightarrow> I (snd y)" if "drain prof r closed d = Some y" for y prof r closed d
  proof (rule drain.raw_induct [OF _ that], goal_cases)
    case (1 f prof r closed d y)
    note IH = 1(1)
    have rb: "read_binder_ref prof r d = (x, d1) \<Longrightarrow> I d \<longrightarrow> I d1" for x d1
      using keepsD [OF binder_ref_read] by blast
    have od: "object_or_ref_drop prof x d1 = (u, d2) \<Longrightarrow> I d1 \<longrightarrow> I d2" for x d1 u d2
      using keepsD [OF object_or_refs(1)] by blast
    show ?case
      using 1(2) by (auto split: sum.splits option.splits if_splits prod.splits
          dest!: IH rb od)
  qed
  with assms show ?thesis by force
qed

end

text \<open>Reading and draining frees no buffer.\<close>

interpretation unfreed: ref_traffic "\<lambda>d. sends d BC_FREE_BUFFER a = n"
    "\<lambda>ca. fst ca \<noteq> BC_FREE_BUFFER" for a n
  by unfold_locales (auto simp: sends_def ref_commands_def)

lemma reader_drop_frees:
  assumes "reader_drop prof r d = Some (Inr closed, d1)"
  shows "sends d1 BC_FREE_BUFFER (Arg_Uintptr p) = sends d BC_FREE_BUFFER (Arg_Uintptr p) +
    (case pr_data r of Owned bs \<Rightarrow> 0 | KernelBorrowed ptr bs \<Rightarrow> if ptr = p then 1 else 0)"
proof -
  obtain d0 where d0: "drain prof r [] d = Some (Inr closed, d0)"
    and rest: "bind (free (pr_data r)) (\<lambda>_. bind (drop_objects prof (pr_binder_objects r))
      (\<lambda>_. ret closed)) d0 = (Inr closed, d1)"
    using assms by (auto simp: reader_drop_def elim!: bind_Inr_cases split: option.splits sum.splits)
  then obtain d2 where d2: "free (pr_data r) d0 = (Inr (), d2)"
    "drop_objects prof (pr_binder_objects r) d2 = (Inr (), d1)"
    by (auto elim!: bind_Inr_cases)
  have "sends d2 BC_FREE_BUFFER (Arg_Uintptr p) = sends d0 BC_FREE_BUFFER (Arg_Uintptr p) +
    (case pr_data r of Owned bs \<Rightarrow> 0 | KernelBorrowed ptr bs \<Rightarrow> if ptr = p then 1 else 0)"
    using d2(1) by (auto simp: free_def sends_def dev_write_struct_command_def bind_def
        write_binder_struct_command_def split: payload_reader_buffer.splits option.splits)
  then show ?thesis
    using keepsD [OF unfreed.object_lists(1) _ d2(2)] unfreed.drained [OF d0] by simp
qed

text \<open>C24: Dropping a reader gives the kernel buffer back exactly once: when the destructor
  returns, one \<open>BC_FREE_BUFFER\<close> with the address of the buffer has been sent for a payload that
  the kernel delivered, none for one that a builder made, and none with any other address.\<close>

theorem reader_drop_frees_once:
  assumes "reader_drop prof r d = Some (Inr closed, d1)"
  shows "sends d1 BC_FREE_BUFFER (Arg_Uintptr p) = sends d BC_FREE_BUFFER (Arg_Uintptr p) +
    (case pr_data r of Owned bs \<Rightarrow> 0 | KernelBorrowed ptr bs \<Rightarrow> if ptr = p then 1 else 0)"
  using assms by (rule reader_drop_frees)

definition demo_kernel_reader :: "unit payload_reader" where
  "demo_kernel_reader = from_kernel_raw (4096, [1, 2]) (0, [])"

theorem reader_drop_frees_once_witness:
  "sends (snd (the (reader_drop Checked demo_kernel_reader (new_device (\<lambda>_. None)))))
     BC_FREE_BUFFER (Arg_Uintptr 4096) = 1"
proof -
  let ?d = "new_device (\<lambda>_. None)"
  have "reader_drop Checked demo_kernel_reader ?d =
      Some (Inr [], ?d\<lparr>sent := [(BC_FREE_BUFFER, Arg_Uintptr 4096)]\<rparr>)"
    by (simp add: reader_drop_def demo_kernel_reader_def from_kernel_raw_def drain.simps free_def
        next_object_type_def current_offset_def new_device_empty)
  from reader_drop_frees_once [OF this, of 4096] this show ?thesis
    by (simp add: demo_kernel_reader_def from_kernel_raw_def sends_def new_device_empty)
qed

end
