(* ===== verification/Driver.thy ===== *)
theory Driver
  imports Payload_Reader
begin

text \<open>
  The conversation with the kernel in \<open>src/src/device.rs\<close>: \<open>binder_write_read\<close> with its
  dispatch over everything the driver can return, the marking of objects embedded in an
  outgoing payload, and the answers to incoming transactions.

  The kernel is a stream of answers to the \<open>BINDER_WRITE_READ\<close> calls: a failure, or the
  bytes it put in the read buffer with whether the device still existed when the call
  came back; no answer means that the call blocks forever. The other parameters are the
  memory the kernel maps, the handlers of the client, and the process identifiers.
  Operations give an option, none when they block or do not terminate.
\<close>

section \<open>The world around the device\<close>

datatype ioctl_answer = Ioctl_Failed errno | Ioctl_Read bool "byte list"

record 'h transaction =
  tr_code :: u32
  payload :: "'h payload_reader"
  tr_sender_pid :: i32
  tr_sender_euid :: u32

record 'h world =
  dev :: "'h binder_device"
  answers :: "nat \<Rightarrow> ioctl_answer option"
  calls :: nat
  ext_calls :: nat
  spawned_loopers :: nat
  spawned_tasks :: "('h \<times> 'h transaction) list"
  closed_fds :: "i32 list"

type_synonym ('h, 'a) prog = "'h world \<Rightarrow> ('a outcome \<times> 'h world) option"

definition pret :: "'a \<Rightarrow> ('h, 'a) prog" where
  "pret x = (\<lambda>w. Some (Inr x, w))"

definition ppanic :: "panic \<Rightarrow> ('h, 'a) prog" where
  "ppanic p = (\<lambda>w. Some (Inl p, w))"

definition pbind :: "('h, 'a) prog \<Rightarrow> ('a \<Rightarrow> ('h, 'b) prog) \<Rightarrow> ('h, 'b) prog" where
  "pbind m f = (\<lambda>w. Option.bind (m w)
     (\<lambda>rw. case fst rw of Inl p \<Rightarrow> Some (Inl p, snd rw) | Inr x \<Rightarrow> f x (snd rw)))"

definition pupdate :: "('h world \<Rightarrow> 'h world) \<Rightarrow> ('h, unit) prog" where
  "pupdate f = (\<lambda>w. Some (Inr (), f w))"

definition preads :: "('h world \<Rightarrow> 'a) \<Rightarrow> ('h, 'a) prog" where
  "preads f = (\<lambda>w. Some (Inr (f w), w))"

text \<open>An operation on the device, as a part of the program.\<close>

definition on_dev :: "('h, 'a) dev_action \<Rightarrow> ('h, 'a) prog" where
  "on_dev m = (\<lambda>w. case m (dev w) of (r, d) \<Rightarrow> Some (r, w\<lparr>dev := d\<rparr>))"

lemma prog_simps [simp]:
  "pret x w = Some (Inr x, w)" "ppanic p w = Some (Inl p, w)"
  "pupdate g w = Some (Inr (), g w)" "preads h w = Some (Inr (h w), w)"
  by (simp_all add: pret_def ppanic_def pupdate_def preads_def)

lemma pbind_simps [simp]:
  "m w = None \<Longrightarrow> pbind m f w = None"
  "m w = Some (Inl p, w1) \<Longrightarrow> pbind m f w = Some (Inl p, w1)"
  "m w = Some (Inr x, w1) \<Longrightarrow> pbind m f w = f x w1"
  by (simp_all add: pbind_def)

lemma pbind_Some_cases:
  assumes "pbind m f w = Some (r, w2)"
  obtains p where "m w = Some (Inl p, w2)" and "r = Inl p"
  | x w1 where "m w = Some (Inr x, w1)" and "f x w1 = Some (r, w2)"
  using assms by (cases "m w") (auto simp: pbind_def split: sum.splits)

lemma on_dev_simp: "m (dev w) = (r, d) \<Longrightarrow> on_dev m w = Some (r, w\<lparr>dev := d\<rparr>)"
  by (simp add: on_dev_def)

lemma pbind_mono [partial_function_mono]:
  assumes "\<And>w. mono_option (\<lambda>f. B f w)" and "\<And>y w. mono_option (\<lambda>f. C y f w)"
  shows "mono_option (\<lambda>f. pbind (B f) (\<lambda>y. C y f) w)"
proof -
  have "mono_option (\<lambda>f. case fst y of Inl p \<Rightarrow> Some (Inl p, snd y) | Inr x \<Rightarrow> C x f (snd y))" for y
    by (cases "fst y") (auto intro: assms option.const_mono)
  then show ?thesis unfolding pbind_def by (intro bind_mono assms)
qed

section \<open>Transactions\<close>

definition ONE_WAY :: u32 where "ONE_WAY = 0x01"
definition ACCEPT_FDS :: u32 where "ACCEPT_FDS = 0x10"

text \<open>What the program calls: the handlers, memory, and the operating system.\<close>

record 'h env =
  prof :: profile
  ioc :: ioc_fn
  kernel_memory :: "usize \<Rightarrow> nat \<Rightarrow> byte list"
  kernel_offsets :: "usize \<Rightarrow> nat \<Rightarrow> usize list"
  handle :: "'h \<Rightarrow> 'h transaction \<Rightarrow> ('h, 'h payload_builder) prog"
  handle_one_way :: "'h \<Rightarrow> 'h transaction \<Rightarrow> ('h, unit) prog"
  getpid :: i32
  getuid :: u32
  geteuid :: u32
  buffer_addresses :: "'h payload_builder \<Rightarrow> usize \<times> usize"
  extended_error :: "nat \<Rightarrow> i32 option"
  dup_fd :: dup_call
  union_junk :: u32

datatype write_read_error =
    WR_ObjectNotFound | WR_DeadReply | WR_FailedReply | WR_FrozenReply | WR_AsyncBufferFull
  | WR_NoDevice | WriteReadIoctlFailed errno

type_synonym 'h write_read_result = "write_read_error + u32 \<times> 'h payload_reader"

section \<open>Objects embedded in an outgoing payload\<close>

primrec embedded_loop :: "profile \<Rightarrow> byte list \<Rightarrow> (binder_object_id \<Rightarrow> ('h, unit) dev_action) \<Rightarrow>
    nat list \<Rightarrow> ('h, unit) dev_action" where
  "embedded_loop pf main_data f [] = ret ()"
| "embedded_loop pf main_data f (offset # offsets) =
     bind (of_outcome (bind_out (usize_add pf offset (layout_size BinderObjectHeader))
         (slice_index main_data offset))) (\<lambda>header_bytes.
     if dec_header header_bytes = BINDER then
       bind (of_outcome (bind_out (usize_add pf offset (layout_size FlatBinderObject))
           (slice_index main_data offset))) (\<lambda>obj_bytes.
       let flat_obj = dec_flat obj_bytes in
       bind (f (from_raw (obj_data flat_obj) (cookie flat_obj)))
         (\<lambda>_. embedded_loop pf main_data f offsets))
     else embedded_loop pf main_data f offsets)"

text \<open>The transaction points to the buffers of the builder.\<close>

definition for_each_embedded_binder_object :: "profile \<Rightarrow> 'h payload_builder \<Rightarrow>
    (binder_object_id \<Rightarrow> ('h, unit) dev_action) \<Rightarrow> ('h, unit) dev_action" where
  "for_each_embedded_binder_object pf b f = embedded_loop pf (pb_data b) f (obj_offsets b)"

text \<open>The closures that mark an object and take the mark back, where it has counts.\<close>

definition mark_one :: "profile \<Rightarrow> binder_object_id \<Rightarrow> ('h, unit) dev_action" where
  "mark_one pf i = bind (with_refstate i (mark_pending_remote pf)) (\<lambda>_. ret ())"

definition clear_one :: "profile \<Rightarrow> binder_object_id \<Rightarrow> ('h, unit) dev_action" where
  "clear_one pf i = bind (with_refstate i (clear_pending_remote pf)) (\<lambda>_. ret ())"

definition mark_objects_as_pending_remote :: "profile \<Rightarrow> 'h payload_builder \<Rightarrow>
    ('h, unit) dev_action" where
  "mark_objects_as_pending_remote pf b = for_each_embedded_binder_object pf b (mark_one pf)"

definition unmark_objects_as_pending_remote :: "profile \<Rightarrow> 'h payload_builder \<Rightarrow>
    ('h, unit) dev_action" where
  "unmark_objects_as_pending_remote pf b = for_each_embedded_binder_object pf b (clear_one pf)"

definition outgoing :: "'h env \<Rightarrow> usize \<Rightarrow> u32 \<Rightarrow> u32 \<Rightarrow> i32 \<Rightarrow> u32 \<Rightarrow> 'h payload_builder \<Rightarrow>
    transaction_data" where
  "outgoing E tgt cde flgs pid uid b = \<lparr>target = tgt, td_cookie = 0, code = cde,
     td_flags = flgs, sender_pid = pid, sender_euid = uid,
     data_size = word_of_nat (data_buffer_len b),
     offsets_size = word_of_nat (offset_buffer_len b) * 8,
     data_buffer = fst (buffer_addresses E b), data_offsets = snd (buffer_addresses E b)\<rparr>"

definition kernel_payload :: "'h env \<Rightarrow> transaction_data \<Rightarrow> 'h payload_reader" where
  "kernel_payload E t = from_kernel_raw
     (data_buffer t, kernel_memory E (data_buffer t) (unat (data_size t)))
     (data_offsets t, kernel_offsets E (data_offsets t) (unat (offsets_size t) div 8))"

text \<open>Dropping the values a transaction owned.\<close>

definition drop_reader :: "'h env \<Rightarrow> 'h payload_reader \<Rightarrow> ('h, unit) prog" where
  "drop_reader E r w = (case reader_drop (prof E) r (dev w) of
     None \<Rightarrow> None
   | Some (Inl p, d) \<Rightarrow> Some (Inl p, w\<lparr>dev := d\<rparr>)
   | Some (Inr fds, d) \<Rightarrow> Some (Inr (), w\<lparr>dev := d, closed_fds := closed_fds w @ fds\<rparr>))"

definition drop_builder :: "'h env \<Rightarrow> 'h payload_builder \<Rightarrow> ('h, unit) prog" where
  "drop_builder E b = pbind (pupdate (\<lambda>w. w\<lparr>closed_fds := closed_fds w @ owned_fds b\<rparr>))
     (\<lambda>_. on_dev (drop_objects (prof E) (binder_objects b)))"

section \<open>Writing\<close>

text \<open>The free functions that ignore, and that unwrap, the result of the call.\<close>

definition write_ignored :: "binder_command \<Rightarrow> cmd_arg \<Rightarrow> ('h, unit) prog" where
  "write_ignored c a = pbind (on_dev (write_binder_struct_command c a)) (\<lambda>_. pret ())"

definition write_unwrapped :: "binder_command \<Rightarrow> cmd_arg \<Rightarrow> ('h, unit) prog" where
  "write_unwrapped c a = on_dev (dev_write_struct_command c a)"

type_synonym write_data = "(binder_command \<times> cmd_arg) list"

definition write_data_bytes :: "ioc_fn \<Rightarrow> write_data \<Rightarrow> byte list" where
  "write_data_bytes op cs = concat (map (\<lambda>(c, a). struct_command_bytes op c a) cs)"

text \<open>The \<open>BINDER_WRITE_READ\<close> call of \<open>binder_write_read\<close>.\<close>

definition write_read_ioctl :: "write_data option \<Rightarrow> ('h, ioctl_answer) prog" where
  "write_read_ioctl data w =
     (let w1 = w\<lparr>calls := calls w + 1,
        dev := (dev w)\<lparr>sent := sent (dev w) @ (case data of None \<Rightarrow> [] | Some cs \<Rightarrow> cs)\<rparr>\<rparr> in
      case answers w (calls w) of None \<Rightarrow> None | Some a \<Rightarrow> Some (Inr a, w1))"

section \<open>Dispatch\<close>

text \<open>\<open>read_from_slice\<close>: the value, with the number of bytes consumed.\<close>

definition read_from_slice :: "nat \<Rightarrow> (byte list \<Rightarrow> 'a) \<Rightarrow> byte list \<Rightarrow> ('a \<times> nat) outcome" where
  "read_from_slice n dec bs = (if n \<le> length bs then Inr (dec bs, n) else Inl Assert_Failed)"

text \<open>What an arm of the dispatch does next: go on, leave the function, or send a reply.\<close>

datatype 'h next_step =
    Continue nat
  | Return "'h write_read_result"
  | Send_Reply nat "'h payload_builder" transaction_data

definition consume :: "nat \<Rightarrow> nat \<Rightarrow> byte list \<Rightarrow> ('h, 'h next_step) prog" where
  "consume n c bs = (case read_from_slice n (\<lambda>_. ()) bs of
     Inl p \<Rightarrow> ppanic p | Inr (u, k) \<Rightarrow> pret (Continue (c + k)))"

text \<open>The empty reply to a transaction whose target does not exist.\<close>

definition empty_reply :: "'h env \<Rightarrow> transaction_data \<Rightarrow> transaction_data" where
  "empty_reply E t = \<lparr>target = 0, td_cookie = 0, code = code t, td_flags = td_flags t,
     sender_pid = getpid E, sender_euid = getuid E, data_size = 0, offsets_size = 0,
     data_buffer = 0, data_offsets = 0\<rparr>"

definition is_one_way :: "transaction_data \<Rightarrow> bool" where
  "is_one_way t \<longleftrightarrow> td_flags t AND ONE_WAY = ONE_WAY"

definition incoming_transaction :: "'h env \<Rightarrow> nat \<Rightarrow> transaction_data \<Rightarrow> ('h, 'h next_step) prog" where
  "incoming_transaction E c t =
     (let tgt = from_raw (target t) (td_cookie t);
          reader = kernel_payload E t;
          tx = \<lparr>tr_code = code t, payload = reader, tr_sender_pid = sender_pid t,
            tr_sender_euid = sender_euid t\<rparr> in
      pbind (preads (\<lambda>w. get_handler (dev w) tgt)) (\<lambda>entry. case entry of
        None \<Rightarrow>
          pbind (drop_reader E reader) (\<lambda>_.
          pbind (if is_one_way t then pret ()
                 else write_unwrapped BC_REPLY (Arg_Transaction (empty_reply E t))) (\<lambda>_.
          pret (Return (Inl WR_ObjectNotFound))))
      | Some handler \<Rightarrow>
          if is_one_way t
          then pbind (handle_one_way E handler tx) (\<lambda>_. pret (Continue c))
          else pbind (handle E handler tx) (\<lambda>reply_data.
            let reply = outgoing E 0 (code t) (td_flags t) (getpid E) (getuid E) reply_data in
            pbind (on_dev (mark_objects_as_pending_remote (prof E) reply_data)) (\<lambda>_.
            pret (Send_Reply c reply_data reply)))))"

definition acquire :: "'h env \<Rightarrow> ptr_cookie \<Rightarrow> ('h, unit) prog" where
  "acquire E tgt =
     pbind (on_dev (with_refstate (from_raw (pc_ptr tgt) (pc_cookie tgt))
       (increase_remote (prof E)))) (\<lambda>_.
     write_ignored BC_ACQUIRE_DONE (Arg_Ptr_Cookie tgt))"

definition release :: "'h env \<Rightarrow> ptr_cookie \<Rightarrow> ('h, unit) prog" where
  "release E tgt =
     pbind (on_dev (with_refstate (from_raw (pc_ptr tgt) (pc_cookie tgt))
       (decrease_remote (prof E)))) (\<lambda>_. pret ())"

text \<open>\<open>-Errno::NOSPC\<close>\<close>

definition minus_NOSPC :: i32 where "minus_NOSPC = - 28"

definition failed_reply :: "'h env \<Rightarrow> ('h, 'h next_step) prog" where
  "failed_reply E =
     pbind (preads ext_calls) (\<lambda>n.
     pbind (pupdate (\<lambda>w. w\<lparr>ext_calls := n + 1\<rparr>)) (\<lambda>_.
     case extended_error E n of None \<Rightarrow> ppanic Unwrap_Failed
     | Some param \<Rightarrow> pret (Return (Inl
         (if param = minus_NOSPC then WR_AsyncBufferFull else WR_FailedReply)))))"

text \<open>
  The arms of the \<open>match\<close>: \<open>c\<close> is \<open>consumed\<close> after the header, \<open>bs\<close> the rest of the slice.
\<close>

fun with_value :: "('a \<times> nat) outcome \<Rightarrow> nat \<Rightarrow> ('a \<Rightarrow> nat \<Rightarrow> ('h, 'b) prog) \<Rightarrow> ('h, 'b) prog" where
  "with_value (Inl p) c f = ppanic p"
| "with_value (Inr (v, k)) c f = f v (c + k)"

fun dispatch :: "'h env \<Rightarrow> nat \<Rightarrow> byte list \<Rightarrow> binder_return option \<Rightarrow> ('h, 'h next_step) prog" where
  "dispatch E c bs None = pret (Continue c)"
| "dispatch E c bs (Some BR_ERROR) = consume 4 c bs"
| "dispatch E c bs (Some BR_OK) = pret (Continue c)"
| "dispatch E c bs (Some BR_TRANSACTION_SEC_CTX) = with_value
     (read_from_slice (layout_size BinderTransactionDataSecCtx) dec_transaction bs) c
     (\<lambda>t c. incoming_transaction E c t)"
| "dispatch E c bs (Some BR_TRANSACTION) = with_value
     (read_from_slice (layout_size BinderTransactionData) dec_transaction bs) c
     (\<lambda>t c. incoming_transaction E c t)"
| "dispatch E c bs (Some BR_REPLY) = with_value
     (read_from_slice (layout_size BinderTransactionData) dec_transaction bs) c
     (\<lambda>t c. pret (Return (Inr (code t, kernel_payload E t))))"
| "dispatch E c bs (Some BR_ACQUIRE_RESULT) = consume 4 c bs"
| "dispatch E c bs (Some BR_DEAD_REPLY) = pret (Return (Inl WR_DeadReply))"
| "dispatch E c bs (Some BR_TRANSACTION_COMPLETE) = pret (Continue c)"
| "dispatch E c bs (Some BR_INCREFS) = with_value
     (read_from_slice (layout_size BinderPtrCookie) dec_ptr_cookie bs) c
     (\<lambda>v c. pbind (write_ignored BC_INCREFS_DONE (Arg_Ptr_Cookie v)) (\<lambda>_. pret (Continue c)))"
| "dispatch E c bs (Some BR_ACQUIRE) = with_value
     (read_from_slice (layout_size BinderPtrCookie) dec_ptr_cookie bs) c
     (\<lambda>tgt c. pbind (acquire E tgt) (\<lambda>_. pret (Continue c)))"
| "dispatch E c bs (Some BR_RELEASE) = with_value
     (read_from_slice (layout_size BinderPtrCookie) dec_ptr_cookie bs) c
     (\<lambda>tgt c. pbind (release E tgt) (\<lambda>_. pret (Continue c)))"
| "dispatch E c bs (Some BR_DECREFS) = consume (layout_size BinderPtrCookie) c bs"
| "dispatch E c bs (Some BR_ATTEMPT_ACQUIRE) = consume (layout_size BinderPtrCookie) c bs"
| "dispatch E c bs (Some BR_NOOP) = pret (Continue c)"
| "dispatch E c bs (Some BR_SPAWN_LOOPER) =
     pbind (pupdate (\<lambda>w. w\<lparr>spawned_loopers := spawned_loopers w + 1\<rparr>)) (\<lambda>_. pret (Continue c))"
| "dispatch E c bs (Some BR_FINISHED) = pret (Continue c)"
| "dispatch E c bs (Some BR_DEAD_BINDER) = with_value (read_from_slice 8 u64_of bs) c
     (\<lambda>v c. pbind (on_dev (dead_binder v)) (\<lambda>_. pret (Continue c)))"
| "dispatch E c bs (Some BR_CLEAR_DEATH_NOTIFICATION_DONE) = consume 8 c bs"
| "dispatch E c bs (Some BR_FAILED_REPLY) = failed_reply E"
| "dispatch E c bs (Some BR_FROZEN_REPLY) = pret (Return (Inl WR_FrozenReply))"
| "dispatch E c bs (Some BR_ONEWAY_SPAM_SUSPECT) = pret (Continue c)"
| "dispatch E c bs (Some BR_TRANSACTION_PENDING_FROZEN) = pret (Continue c)"
| "dispatch E c bs (Some BR_FROZEN_BINDER) = consume (layout_size BinderFrozenStateInfo) c bs"
| "dispatch E c bs (Some BR_CLEAR_FREEZE_NOTIFICATION_DONE) = consume 8 c bs"

text \<open>One iteration of the loop over the read buffer, of which \<open>buf\<close> is the part consumed up
  to \<open>read_consumed\<close>.\<close>

definition one_return :: "'h env \<Rightarrow> byte list \<Rightarrow> nat \<Rightarrow> ('h, 'h next_step) prog" where
  "one_return E buf c = (case slice_index buf c (length buf) of Inl p \<Rightarrow> ppanic p
     | Inr read_slice \<Rightarrow> (case slice_index read_slice 0 4 of Inl p \<Rightarrow> ppanic p
       | Inr header \<Rightarrow> with_value (read_from_slice 4 u32_of header) c
           (\<lambda>v c. dispatch E c (drop 4 read_slice) (match_return (ioc E) v))))"

text \<open>The end of a two-way transaction, by what the call that sent the reply gave.\<close>

definition after_reply :: "'h env \<Rightarrow> 'h payload_builder \<Rightarrow> 'h write_read_result option \<Rightarrow>
    ('h, unit) prog" where
  "after_reply E reply_data res =
     pbind (case res of
       Some (Inr (cde, reader)) \<Rightarrow> drop_reader E reader
     | Some (Inl e) \<Rightarrow> on_dev (unmark_objects_as_pending_remote (prof E) reply_data)
     | None \<Rightarrow> pret ()) (\<lambda>_. drop_builder E reply_data)"

text \<open>What a call gives before its answer is looked at: an error, or the buffer to parse.\<close>

definition call_kernel :: "write_data option \<Rightarrow> ('h, write_read_error + byte list) prog" where
  "call_kernel data = pbind (write_read_ioctl data) (\<lambda>a. pret (case a of
     Ioctl_Failed e \<Rightarrow> Inl (WriteReadIoctlFailed e)
   | Ioctl_Read alive bs \<Rightarrow> if alive then Inr bs else Inl WR_NoDevice))"

partial_function (option) parse :: "'h env \<Rightarrow> byte list \<Rightarrow> nat \<Rightarrow>
    ('h, 'h write_read_result option) prog" where
  "parse E buf c w =
     (if c = length buf then Some (Inr None, w)
      else pbind (one_return E buf c) (\<lambda>nx. case nx of
        Continue c1 \<Rightarrow> parse E buf c1
      | Return res \<Rightarrow> pret (Some res)
      | Send_Reply c1 reply_data reply \<Rightarrow>
          pbind (call_kernel (Some [(BC_REPLY, Arg_Transaction reply)])) (\<lambda>k.
          pbind (case k of Inl e \<Rightarrow> pret (Some (Inl e)) | Inr bs \<Rightarrow> parse E bs 0) (\<lambda>res.
          pbind (after_reply E reply_data res) (\<lambda>_. parse E buf c1)))) w)"

definition binder_write_read :: "'h env \<Rightarrow> write_data option \<Rightarrow>
    ('h, 'h write_read_result option) prog" where
  "binder_write_read E data = pbind (call_kernel data)
     (\<lambda>k. case k of Inl e \<Rightarrow> pret (Some (Inl e)) | Inr bs \<Rightarrow> parse E bs 0)"

section \<open>Framing\<close>

definition declared_size :: "binder_return \<Rightarrow> nat" where
  "declared_size r = snd (snd (return_spec r))"

lemma with_value_cases:
  assumes "with_value m c f w = Some (Inr x, w1)"
  obtains v k where "m = Inr (v, k)" and "f v (c + k) w = Some (Inr x, w1)"
  using assms by (cases m) auto

lemma read_from_slice_Inr:
  "read_from_slice n dec bs = Inr (v, k) \<longleftrightarrow> n \<le> length bs \<and> v = dec bs \<and> k = n"
  by (auto simp: read_from_slice_def)

text \<open>Where the parser continues after an arm that does not leave the function.\<close>

fun next_position :: "'h next_step \<Rightarrow> nat option" where
  "next_position (Continue c) = Some c"
| "next_position (Return res) = None"
| "next_position (Send_Reply c b t) = Some c"

lemma incoming_position:
  "incoming_transaction E c t w = Some (Inr nx, w1) \<Longrightarrow> next_position nx = Some c1 \<Longrightarrow> c1 = c"
  by (auto simp: incoming_transaction_def Let_def split: option.splits if_splits
      elim!: pbind_Some_cases)

lemma failed_reply_position:
  "failed_reply E w = Some (Inr nx, w1) \<Longrightarrow> next_position nx = None"
  by (auto simp: failed_reply_def split: option.splits elim!: pbind_Some_cases)

lemma dispatch_position:
  assumes "dispatch E c bs (Some r) w = Some (Inr nx, w1)" and "next_position nx = Some c1"
  shows "c1 = c + (if r = BR_ATTEMPT_ACQUIRE then 16 else declared_size r) \<and> c1 \<le> c + length bs"
  using assms
  by (cases r) (auto simp: declared_size_def consume_def read_from_slice_def
      split: if_splits elim!: pbind_Some_cases with_value_cases
      dest: incoming_position failed_reply_position)

lemma one_return_cases:
  assumes "one_return E buf c w = Some (Inr nx, w1)"
  shows "c + 4 \<le> length buf"
    "dispatch E (c + 4) (drop (c + 4) buf) (match_return (ioc E) (u32_of (drop c buf))) w =
       Some (Inr nx, w1)"
  using assms
  by (auto simp: one_return_def slice_index_Inr read_from_slice_Inr add.commute
      split: sum.splits elim!: with_value_cases)

lemma one_return_progress:
  assumes "one_return E buf c w = Some (Inr nx, w1)" and "next_position nx = Some c1"
  shows "c < c1 \<and> c1 \<le> length buf"
proof (cases "match_return (ioc E) (u32_of (drop c buf))")
  case None
  with one_return_cases [OF assms(1)] assms(2) show ?thesis by auto
next
  case (Some r)
  with one_return_cases [OF assms(1)] have "c + 4 \<le> length buf"
    "dispatch E (c + 4) (drop (c + 4) buf) (Some r) w = Some (Inr nx, w1)" by simp_all
  with dispatch_position [OF this(2) assms(2)] show ?thesis by (auto split: if_splits)
qed

text \<open>C8: The parser stays in step with the driver: whatever a return is and whatever handling
  it does, the loop continues exactly behind the code and the argument of the size that the
  opcode declares, except for \<open>BR_ATTEMPT_ACQUIRE\<close>, where it reads 16 of the declared 24 bytes
  and takes the rest of the argument for the next code.\<close>

theorem parser_stays_in_step:
  assumes "ioctl_opcode (ioc E)" and "u32_of (drop c buf) = return_code (ioc E) r"
    and "one_return E buf c w = Some (Inr nx, w1)" and "next_position nx = Some c1"
  shows "c1 = c + 4 + (if r = BR_ATTEMPT_ACQUIRE then declared_size r - 8 else declared_size r)"
proof -
  have "match_return (ioc E) (u32_of (drop c buf)) = Some r"
    using ioctl_opcode.match_return_code [OF assms(1)] assms(2) by simp
  then have "dispatch E (c + 4) (drop (c + 4) buf) (Some r) w = Some (Inr nx, w1)"
    using one_return_cases(2) [OF assms(3)] by simp
  from dispatch_position [OF this assms(4)] show ?thesis
    by (simp add: declared_size_def split: if_splits)
qed

section \<open>Termination of the parser\<close>

text \<open>Whether a return of the buffer, wherever it may start, is an incoming transaction.\<close>

definition has_transaction :: "'h env \<Rightarrow> byte list \<Rightarrow> bool" where
  "has_transaction E buf \<longleftrightarrow> (\<exists>k < length buf. match_return (ioc E) (u32_of (drop k buf)) \<in>
     {Some BR_TRANSACTION, Some BR_TRANSACTION_SEC_CTX})"

definition returns :: "('h, 'a) prog \<Rightarrow> 'h world \<Rightarrow> bool" where
  "returns m w \<longleftrightarrow> (\<exists>r. m w = Some r)"

named_theorems returns_intros \<open>programs that return\<close>

lemma returns_basic [returns_intros]:
  "returns (pret x) w" "returns (ppanic p) w" "returns (on_dev m) w" "returns (pupdate g) w"
  "returns (preads h) w"
  by (auto simp: returns_def on_dev_def split: prod.split)

lemma returns_pbind [returns_intros]:
  "returns m w \<Longrightarrow> (\<And>x w1. m w = Some (Inr x, w1) \<Longrightarrow> returns (f x) w1) \<Longrightarrow> returns (pbind m f) w"
  by (auto simp: returns_def pbind_def split: sum.split)

lemma returns_with_value [returns_intros]:
  "(\<And>v c. returns (f v c) w) \<Longrightarrow> returns (with_value m c f) w"
  by (cases m) (auto intro: returns_intros)

lemma returns_arms [returns_intros]:
  "returns (consume n c bs) w" "returns (write_ignored cmd a) w" "returns (acquire E tgt) w"
  "returns (release E tgt) w" "returns (failed_reply E) w"
  by (auto simp: consume_def write_ignored_def acquire_def release_def failed_reply_def
      intro!: returns_intros split: sum.split option.split)

lemma dispatch_returns:
  assumes "r \<notin> {Some BR_TRANSACTION, Some BR_TRANSACTION_SEC_CTX}"
  shows "returns (dispatch E c bs r) w"
proof (cases r)
  case (Some br)
  with assms show ?thesis by (cases br) (auto intro!: returns_intros)
qed (auto intro: returns_intros)

lemma dispatch_not_reply:
  assumes "r \<notin> {Some BR_TRANSACTION, Some BR_TRANSACTION_SEC_CTX}"
  shows "dispatch E c bs r w \<noteq> Some (Inr (Send_Reply c1 b t), w1)"
proof (cases r)
  case (Some br)
  with assms show ?thesis
    by (cases br) (auto simp: consume_def failed_reply_def split: sum.splits option.splits
        elim!: pbind_Some_cases with_value_cases)
qed simp

lemma one_return_returns:
  assumes "match_return (ioc E) (u32_of (drop c buf)) \<notin>
    {Some BR_TRANSACTION, Some BR_TRANSACTION_SEC_CTX}"
  shows "returns (one_return E buf c) w"
    and "one_return E buf c w \<noteq> Some (Inr (Send_Reply c1 b t), w1)"
proof -
  show "returns (one_return E buf c) w"
    using assms unfolding one_return_def
    by (auto simp: slice_index_Inr read_from_slice_def
        intro!: returns_intros dispatch_returns split: sum.split)
  show "one_return E buf c w \<noteq> Some (Inr (Send_Reply c1 b t), w1)"
    using one_return_cases(2) [of E buf c w] dispatch_not_reply [OF assms] by metis
qed

text \<open>C22: Parsing always returns: for any bytes whatever in the read buffer, well-formed or not,
  without an incoming transaction among them, the dispatch loop ends with a result or a panic,
  since every iteration consumes at least the four bytes of a code.\<close>

theorem parser_terminates:
  assumes "\<not> has_transaction E buf"
  shows "\<exists>res. parse E buf c w = Some res"
proof (induction "length buf - c" arbitrary: c w rule: less_induct)
  case less
  show ?case
  proof (cases "c = length buf")
    case True
    then show ?thesis by (simp add: parse.simps)
  next
    case False
    show ?thesis
    proof (cases "c < length buf")
      case True
      then have "match_return (ioc E) (u32_of (drop c buf)) \<notin>
          {Some BR_TRANSACTION, Some BR_TRANSACTION_SEC_CTX}"
        using assms by (auto simp: has_transaction_def)
      note one = one_return_returns [OF this]
      obtain r w1 where r: "one_return E buf c w = Some (r, w1)"
        using one(1) [of w] unfolding returns_def by fast
      have next_iteration: "\<exists>res. parse E buf c1 w1 = Some res" if "r = Inr (Continue c1)" for c1
      proof -
        have "c < c1 \<and> c1 \<le> length buf"
          using one_return_progress [of E buf c w "Continue c1" w1 c1] r that by simp
        with True show ?thesis using less.hyps [of c1 w1] by (simp add: diff_less_mono2)
      qed
      show ?thesis
      proof (cases r)
        case (Inl p)
        with r False show ?thesis by (simp add: parse.simps)
      next
        case (Inr nx)
        with r False next_iteration one(2) show ?thesis
          by (cases nx) (auto simp: parse.simps)
      qed
    next
      case False
      with \<open>c \<noteq> length buf\<close> have "one_return E buf c w = Some (Inl Slice_Out_Of_Range, w)"
        by (simp add: one_return_def slice_index_def slice_get_def)
      with \<open>c \<noteq> length buf\<close> show ?thesis by (simp add: parse.simps)
    qed
  qed
qed

section \<open>Acquires, releases and missing targets\<close>

text \<open>An acquire from the driver takes the object over: for an object the device knows, whose
  counts are in order, \<open>BR_ACQUIRE\<close> raises its remote count by one, drops every guard of a send
  in flight, publishes the new total, answers with \<open>BC_ACQUIRE_DONE\<close> for the same object and
  touches nothing else.\<close>

theorem acquire_takes_over:
  assumes "object_refcounts (dev w) i = Some st" and "i = from_raw (pc_ptr tgt) (pc_cookie tgt)"
    and "\<not> poisoned st" and "unat (local (counts st)) + unat (remote (counts st)) + 1 < 2 ^ 32"
    and "ptr_bytes = enc_ptr_cookie tgt @ rest"
  shows "dispatch E c ptr_bytes (Some BR_ACQUIRE) w = Some (Inr (Continue (c + 16)), w\<lparr>dev := (dev w)
    \<lparr>object_refcounts := (object_refcounts (dev w))(i \<mapsto> st\<lparr>
       counts := (counts st)\<lparr>remote := remote (counts st) + 1, pending := 0\<rparr>,
       strong_count := local (counts st) + (remote (counts st) + 1)\<rparr>),
     sent := sent (dev w) @ [(BC_ACQUIRE_DONE, Arg_Ptr_Cookie tgt)]\<rparr>\<rparr>)"
proof -
  let ?c = "counts st"
  have r: "unat (remote ?c + 1) = unat (remote ?c) + 1"
    using assms(4) by (intro unat_plus1) simp
  have "add_checked (prof E) (remote ?c) 1 = Inr (remote ?c + 1)"
    using assms(4) by (intro add_checked_fits) simp
  moreover have "add_checked (prof E) (local ?c) (remote ?c + 1) = Inr (local ?c + (remote ?c + 1))"
    using assms(4) by (intro add_checked_fits) (simp add: r)
  moreover have "add_checked (prof E) x 0 = Inr x" for x :: u32
    using unat_u32_less [of x] by (simp add: add_checked_def)
  ultimately have "increase_remote (prof E) st = (Inr (?c\<lparr>remote := remote ?c + 1, pending := 0\<rparr>),
      st\<lparr>counts := ?c\<lparr>remote := remote ?c + 1, pending := 0\<rparr>,
         strong_count := local ?c + (remote ?c + 1)\<rparr>)"
    using assms(3) by (simp add: increase_remote_def update_def total_def)
  then show ?thesis
    using assms(1,2,5)
    by (simp add: read_from_slice_def acquire_def on_dev_def with_refstate_def pbind_def
        write_ignored_def write_binder_struct_command_def ptr_cookie_codec.dec_enc)
qed

definition commands_from :: "'h binder_device \<Rightarrow> 'h binder_device \<Rightarrow> (binder_command \<times> cmd_arg) list" where
  "commands_from d d1 = drop (length (sent d)) (sent d1)"

text \<open>A transaction for an object that does not exist is answered, not leaked: its buffer is
  given back exactly once, after that an empty reply goes out exactly when the caller waits for
  one, no handler runs, and the call reports \<open>ObjectNotFound\<close>.\<close>

theorem missing_target_is_answered:
  assumes "get_handler (dev w) (from_raw (target t) (td_cookie t)) = None"
    and "incoming_transaction E c t w = Some (Inr nx, w1)"
  shows "nx = Return (Inl WR_ObjectNotFound) \<and> calls w1 = calls w \<and>
    sends (dev w1) BC_FREE_BUFFER (Arg_Uintptr (data_buffer t)) =
      sends (dev w) BC_FREE_BUFFER (Arg_Uintptr (data_buffer t)) + 1 \<and>
    (\<exists>cs. sent (dev w1) = cs @
      (if is_one_way t then [] else [(BC_REPLY, Arg_Transaction (empty_reply E t))]))"
proof -
  let ?r = "kernel_payload E t"
  obtain w2 where w2: "drop_reader E ?r w = Some (Inr (), w2)"
    and rest: "pbind (if is_one_way t then pret ()
         else write_unwrapped BC_REPLY (Arg_Transaction (empty_reply E t)))
       (\<lambda>_. pret (Return (Inl WR_ObjectNotFound))) w2 = Some (Inr nx, w1)"
    using assms by (auto simp: incoming_transaction_def Let_def elim!: pbind_Some_cases)
  from w2 obtain fds d where d: "reader_drop (prof E) ?r (dev w) = Some (Inr fds, d)"
    and w2d: "dev w2 = d" "calls w2 = calls w"
    by (auto simp: drop_reader_def split: option.splits prod.splits sum.splits)
  have "sends d BC_FREE_BUFFER (Arg_Uintptr (data_buffer t)) =
      sends (dev w) BC_FREE_BUFFER (Arg_Uintptr (data_buffer t)) + 1"
    using reader_drop_frees [OF d, of "data_buffer t"]
    by (simp add: kernel_payload_def from_kernel_raw_def)
  with rest w2d show ?thesis
    by (cases "is_one_way t")
      (auto simp: write_unwrapped_def on_dev_def dev_write_struct_command_def bind_def sends_def
        write_binder_struct_command_def split: option.splits prod.splits elim!: pbind_Some_cases)
qed

section \<open>Guards of a send in flight\<close>

text \<open>The objects embedded in a payload, in order.\<close>

definition embedded_ids :: "'h payload_builder \<Rightarrow> binder_object_id list" where
  "embedded_ids b = concat (map (\<lambda>off. let f = dec_flat (drop off (pb_data b)) in
     if dec_header (drop off (pb_data b)) = BINDER then [from_raw (obj_data f) (cookie f)] else [])
     (obj_offsets b))"

primrec each_id :: "(binder_object_id \<Rightarrow> ('h, unit) dev_action) \<Rightarrow> binder_object_id list \<Rightarrow>
    ('h, unit) dev_action" where
  "each_id f [] = ret ()"
| "each_id f (i # ids) = bind (f i) (\<lambda>_. each_id f ids)"

lemma dec_flat_take: "dec_flat (take 24 bs) = dec_flat bs"
  by (simp add: dec_flat_def drop_take)

lemma bind_pure [simp]: "bind (of_outcome (Inr x)) f = f x"
  by (rule ext) (simp add: bind_def)

lemma for_each_is_each_id:
  assumes "builder_ok b" and "data_buffer_len b < 2 ^ 64"
  shows "for_each_embedded_binder_object pf b f = each_id f (embedded_ids b)"
proof -
  have "embedded_loop pf bs f offs = each_id f (concat (map (\<lambda>off. let fl = dec_flat (drop off bs) in
      if dec_header (drop off bs) = BINDER then [from_raw (obj_data fl) (cookie fl)] else []) offs))"
    if "\<forall>off \<in> set offs. off + 24 \<le> length bs" "length bs < 2 ^ 64" for offs bs
    using that
  proof (induction offs)
    case (Cons off offs)
    then have "bind_out (usize_add pf off n) (slice_index bs off) = Inr (take n (drop off bs))"
      if "n \<le> 24" for n using that by simp
    with Cons show ?case by (simp add: dec_flat_take Let_def)
  qed simp
  then show ?thesis
    using assms laid_out_member [OF assms(1)]
    by (simp add: for_each_embedded_binder_object_def embedded_ids_def data_buffer_len_def)
qed

text \<open>The counts of an object with \<open>n\<close> more guards.\<close>

definition guarded :: "nat \<Rightarrow> object_ref_state \<Rightarrow> object_ref_state" where
  "guarded n st = (if remote (counts st) = 0 then st
     \<lparr>counts := (counts st)\<lparr>pending := pending (counts st) + word_of_nat n\<rparr>,
      strong_count := strong_count st + word_of_nat n\<rparr> else st)"

text \<open>
  A state of the counts between two sends: the published value is the total, with room
  for \<open>n\<close> more guards, and a remotely held object has no guard.
\<close>

definition settled :: "nat \<Rightarrow> object_ref_state \<Rightarrow> bool" where
  "settled n st \<longleftrightarrow> \<not> poisoned st \<and>
     strong_count st = local (counts st) + remote (counts st) + pending (counts st) \<and>
     unat (local (counts st)) + unat (remote (counts st)) + unat (pending (counts st)) + n < 2 ^ 32 \<and>
     (remote (counts st) \<noteq> 0 \<longrightarrow> pending (counts st) = 0)"

lemma guarded_0 [simp]: "guarded 0 st = st"
  by (simp add: guarded_def)

lemma map_guarded_0 [simp]: "map_option (guarded 0) x = x"
  by (cases x) simp_all

lemma guarded_guarded: "guarded m (guarded n st) = guarded (n + m) st"
  by (simp add: guarded_def add.assoc)

lemma total_settled:
  assumes "unat a + unat b + unat c < 2 ^ 32"
  shows "total pf \<lparr>local = a, remote = b, pending = c\<rparr> = Inr (a + b + c)"
proof -
  have "unat (a + b) = unat a + unat b" using assms by (intro unat_add_lem [THEN iffD1]) simp
  with assms show ?thesis by (simp add: total_def add_checked_fits)
qed

lemma counts_eta: "c = \<lparr>local = local c, remote = remote c, pending = pending c\<rparr>"
  by simp

lemma mark_settled:
  assumes "settled (Suc n) st"
  shows "\<exists>c. mark_pending_remote pf st = (Inr c, guarded 1 st)" and "settled n (guarded 1 st)"
proof -
  let ?c = "counts st"
  have u: "remote ?c = 0 \<Longrightarrow> unat (pending ?c + 1) = unat (pending ?c) + 1"
    using assms by (intro unat_plus1) (simp add: settled_def)
  have "add_checked pf (pending ?c) 1 = Inr (pending ?c + 1)"
    using assms by (intro add_checked_fits) (simp add: settled_def)
  moreover have "remote ?c = 0 \<Longrightarrow> total pf (?c\<lparr>pending := pending ?c + 1\<rparr>) =
      Inr (local ?c + remote ?c + (pending ?c + 1))"
    using assms u total_settled [of "local ?c" "remote ?c" "pending ?c + 1"] counts_eta [of ?c]
    by (cases ?c) (simp add: settled_def)
  moreover have "remote ?c \<noteq> 0 \<Longrightarrow> total pf ?c = Inr (local ?c + remote ?c + pending ?c)"
    using assms total_settled [of "local ?c" "remote ?c" "pending ?c"]
    by (cases ?c) (simp add: settled_def)
  ultimately show "\<exists>c. mark_pending_remote pf st = (Inr c, guarded 1 st)"
    using assms
    by (cases "remote ?c = 0") (simp_all add: mark_pending_remote_def update_def guarded_def settled_def
        add.assoc)
  show "settled n (guarded 1 st)"
    using assms u by (auto simp: settled_def guarded_def)
qed

lemma clear_settled:
  assumes "settled (Suc n) st"
  shows "\<exists>c. clear_pending_remote pf (guarded (Suc n) st) = (Inr c, guarded n st)"
proof (cases "remote (counts st) = 0")
  case True
  let ?c = "counts st"
  have room: "unat (local ?c) + unat (pending ?c) + Suc n < 2 ^ 32" using assms True by (simp add: settled_def)
  then have n: "unat (word_of_nat k :: u32) = k" if "k \<le> Suc n" for k
    using that by (intro unat_u32_of_nat) simp
  have p: "unat (pending ?c + word_of_nat k) = unat (pending ?c) + k" if "k \<le> Suc n" for k
    using that room n [OF that] by (subst unat_add_lem [THEN iffD1]) simp_all
  have step: "saturating_sub (pending ?c + word_of_nat (Suc n)) 1 = pending ?c + word_of_nat n"
    using p [of "Suc n"] by (auto simp: saturating_sub_def word_less_1 add.assoc [symmetric])
  have "total pf (?c\<lparr>pending := pending ?c + word_of_nat n\<rparr>) =
      Inr (local ?c + remote ?c + (pending ?c + word_of_nat n))"
    using total_settled [of "local ?c" "remote ?c" "pending ?c + word_of_nat n"] True room p [of n]
    by (cases ?c) simp
  with assms True step show ?thesis
    by (simp add: clear_pending_remote_def update_def guarded_def settled_def add.assoc)
next
  case False
  let ?c = "counts st"
  have z: "pending ?c = 0" using assms False by (simp add: settled_def)
  moreover have "total pf ?c = Inr (local ?c + remote ?c + pending ?c)"
    using assms total_settled [of "local ?c" "remote ?c" "pending ?c"]
    by (cases ?c) (simp add: settled_def)
  ultimately show ?thesis
    using assms False
    by (cases ?c) (simp add: clear_pending_remote_def update_def guarded_def settled_def
        saturating_sub_def)
qed

definition with_guards :: "binder_object_id list \<Rightarrow> 'h binder_device \<Rightarrow> 'h binder_device" where
  "with_guards ids d = d\<lparr>object_refcounts :=
     (\<lambda>i. map_option (guarded (count_list ids i)) (object_refcounts d i))\<rparr>"

definition all_settled :: "nat \<Rightarrow> 'h binder_device \<Rightarrow> bool" where
  "all_settled n d \<longleftrightarrow> (\<forall>i st. object_refcounts d i = Some st \<longrightarrow> settled n st)"

lemma settled_less: "settled (Suc n) st \<Longrightarrow> settled n st"
  by (auto simp: settled_def)

lemma settled_le: "settled n st \<Longrightarrow> m \<le> n \<Longrightarrow> settled m st"
  by (auto simp: settled_def)

lemma with_guards_Nil [simp]: "with_guards [] d = d"
  by (simp add: with_guards_def)

lemma mark_one_eq:
  assumes "all_settled (Suc n) d"
  shows "mark_one pf i d = (Inr (), with_guards [i] d)" and "all_settled n (with_guards [i] d)"
proof -
  show "mark_one pf i d = (Inr (), with_guards [i] d)"
  proof (cases "object_refcounts d i")
    case None
    then have "(\<lambda>j. map_option (guarded (count_list [i] j)) (object_refcounts d j)) = object_refcounts d"
      by (auto simp: fun_eq_iff)
    then have "with_guards [i] d = d" by (simp add: with_guards_def)
    with None show ?thesis by (simp add: mark_one_def with_refstate_def bind_def)
  next
    case (Some st)
    then obtain c where "mark_pending_remote pf st = (Inr c, guarded 1 st)"
      using assms mark_settled(1) by (fastforce simp: all_settled_def)
    moreover have "(object_refcounts d)(i \<mapsto> guarded 1 st) =
        (\<lambda>j. map_option (guarded (count_list [i] j)) (object_refcounts d j))"
      using Some by (auto simp: fun_eq_iff map_option_case guarded_def split: option.split)
    ultimately show ?thesis
      using Some by (simp add: mark_one_def with_refstate_def bind_def with_guards_def)
  qed
  show "all_settled n (with_guards [i] d)"
    using assms mark_settled(2) settled_less
    by (auto simp: all_settled_def with_guards_def)
qed

lemma marks_eq:
  "all_settled (length ids) d \<Longrightarrow> each_id (mark_one pf) ids d = (Inr (), with_guards ids d)"
proof (induction ids arbitrary: d)
  case (Cons i ids)
  from Cons.prems have s: "all_settled (Suc (length ids)) d" by simp
  have "with_guards ids (with_guards [i] d) = with_guards (i # ids) d"
    by (auto simp: with_guards_def guarded_guarded fun_eq_iff option.map_comp comp_def
        intro!: option.map_cong0)
  with mark_one_eq(2) [OF s] mark_one_eq(1) [OF s, where pf = pf and i = i] Cons.IH [of "with_guards [i] d"] show ?case
    by simp
qed simp

lemma clear_one_eq:
  assumes "all_settled (Suc (length ids)) d"
  shows "clear_one pf i (with_guards (i # ids) d) = (Inr (), with_guards ids d)"
proof (cases "object_refcounts d i")
  case None
  then have "with_guards (i # ids) d = with_guards ids d"
    by (auto simp: with_guards_def fun_eq_iff map_option_case split: option.split)
  with None show ?thesis by (simp add: clear_one_def with_refstate_def bind_def with_guards_def)
next
  case (Some st)
  let ?n = "count_list ids i"
  have "settled (Suc ?n) st"
    using assms Some count_le_length [of ids i] settled_le by (fastforce simp: all_settled_def)
  then obtain c where c: "clear_pending_remote pf (guarded (Suc ?n) st) = (Inr c, guarded ?n st)"
    using clear_settled by blast
  have "(object_refcounts (with_guards (i # ids) d))(i \<mapsto> guarded ?n st) =
      object_refcounts (with_guards ids d)"
    using Some by (auto simp: with_guards_def fun_eq_iff map_option_case split: option.split)
  with Some c show ?thesis
    by (simp add: clear_one_def with_refstate_def bind_def with_guards_def)
qed

lemma clears_eq:
  "all_settled (length ids) d \<Longrightarrow> each_id (clear_one pf) ids (with_guards ids d) = (Inr (), d)"
proof (induction ids arbitrary: d)
  case (Cons i ids)
  then have "all_settled (Suc (length ids)) d" by simp
  moreover from this have "all_settled (length ids) d"
    using settled_less by (auto simp: all_settled_def)
  ultimately show ?case
    using Cons.IH [of d] clear_one_eq [where ids = ids and d = d and pf = pf and i = i] by simp
qed simp

lemma with_guards_positive:
  assumes "all_settled (length ids) d" and "i \<in> set ids"
    and "object_refcounts (with_guards ids d) i = Some st"
  shows "strong_count st \<noteq> 0"
proof -
  obtain st0 where st0: "object_refcounts d i = Some st0" "st = guarded (count_list ids i) st0"
    using assms(3) by (auto simp: with_guards_def)
  let ?c = "counts st0" and ?n = "count_list ids i"
  have n: "0 < ?n" "?n \<le> length ids" using assms(2) count_list_pos count_le_length by fast+
  have s: "settled (length ids) st0" using assms(1) st0(1) by (auto simp: all_settled_def)
  then have un: "unat (word_of_nat ?n :: u32) = ?n"
    using n by (intro unat_u32_of_nat) (simp add: settled_def)
  show ?thesis
  proof (cases "remote ?c = 0")
    case True
    have "unat (local ?c + pending ?c) = unat (local ?c) + unat (pending ?c)"
      using s by (intro unat_add_lem [THEN iffD1]) (simp add: settled_def)
    then have "unat (local ?c + pending ?c + word_of_nat ?n) = unat (local ?c) + unat (pending ?c) + ?n"
      using s n un by (subst unat_add_lem [THEN iffD1]) (simp_all add: settled_def)
    then have "unat (strong_count st) \<noteq> 0"
      using s True st0(2) n by (simp add: guarded_def settled_def)
    then show ?thesis by auto
  next
    case False
    have "unat (local ?c + remote ?c) = unat (local ?c) + unat (remote ?c)"
      using s by (intro unat_add_lem [THEN iffD1]) (simp add: settled_def)
    moreover have "pending ?c = 0" using s False by (simp add: settled_def)
    moreover have "unat (remote ?c) \<noteq> 0" using False by (simp add: unat_eq_0)
    ultimately have "unat (strong_count st) \<noteq> 0"
      using s False st0(2) by (simp add: guarded_def settled_def)
    then show ?thesis by auto
  qed
qed

lemma marking_eq:
  assumes "pushes pf0 ps new_builder d0 = (Inr (Some b), d1)" and "data_buffer_len b < 2 ^ 64"
    and "all_settled (length (embedded_ids b)) d"
  shows "mark_objects_as_pending_remote pf b d = (Inr (), with_guards (embedded_ids b) d)"
    and "unmark_objects_as_pending_remote pf b (with_guards (embedded_ids b) d) = (Inr (), d)"
proof -
  have "builder_ok b" by (rule pushes_ok [OF _ assms(1)]) (simp add: new_builder_def)
  then have each: "for_each_embedded_binder_object pf b f = each_id f (embedded_ids b)" for f
    using for_each_is_each_id assms(2) by blast
  show "mark_objects_as_pending_remote pf b d = (Inr (), with_guards (embedded_ids b) d)"
    unfolding mark_objects_as_pending_remote_def each by (rule marks_eq [OF assms(3)])
  show "unmark_objects_as_pending_remote pf b (with_guards (embedded_ids b) d) = (Inr (), d)"
    unfolding unmark_objects_as_pending_remote_def each by (rule clears_eq [OF assms(3)])
qed

text \<open>C10: Guards of a send: marking the objects of an outgoing payload publishes a positive count
  for each of them, and taking the marks back after a failed send restores every count of the
  device exactly, for any payload a builder can make, with any object embedded any number of
  times, as long as nothing else happens in between.\<close>

theorem failed_send_restores_counts:
  assumes "pushes pf ps new_builder d0 = (Inr (Some b), d1)" and "data_buffer_len b < 2 ^ 64"
    and "all_settled (length (embedded_ids b)) d"
  shows "\<exists>d2. mark_objects_as_pending_remote pf b d = (Inr (), d2) \<and>
    unmark_objects_as_pending_remote pf b d2 = (Inr (), d) \<and>
    (\<forall>i \<in> set (embedded_ids b). \<forall>st. object_refcounts d2 i = Some st \<longrightarrow> strong_count st \<noteq> 0)"
  using marking_eq [OF assms] with_guards_positive [OF assms(3)] by blast

section \<open>Witnesses\<close>

text \<open>A device with one object and a world whose kernel answers as told.\<close>

definition demo_id :: binder_object_id where "demo_id = \<lparr>id_raw = 1, id_cookie = 0\<rparr>"

definition demo_device :: "unit binder_device" where
  "demo_device = snd (register_object () (new_device (\<lambda>_. None)))"

lemma demo_device_fields:
  "object_refcounts demo_device = [demo_id \<mapsto> new_ref_state demo_id]"
  "objects demo_device = [demo_id \<mapsto> ()]" "sent demo_device = []"
  "kernel_err demo_device = (\<lambda>_. None)"
  by (simp_all add: demo_device_def register_object_def new_device_def demo_id_def Let_def)

definition demo_world :: "ioctl_answer list \<Rightarrow> unit world" where
  "demo_world as = \<lparr>dev = demo_device, answers = (\<lambda>n. if n < length as then Some (as ! n) else None),
     calls = 0, ext_calls = 0, spawned_loopers = 0, spawned_tasks = [], closed_fds = []\<rparr>"

definition demo_env :: "unit env" where
  "demo_env = \<lparr>prof = Checked, ioc = linux_ioc, kernel_memory = (\<lambda>p n. replicate n 0),
     kernel_offsets = (\<lambda>p n. []), handle = (\<lambda>h tx. pret new_builder),
     handle_one_way = (\<lambda>h tx. pret ()), getpid = 1, getuid = 0, geteuid = 0,
     buffer_addresses = (\<lambda>b. (4096, 8192)), extended_error = (\<lambda>n. Some 0), dup_fd = (\<lambda>n fd. Some fd),
     union_junk = 0\<rparr>"

lemma demo_env_ioc [simp]: "ioc demo_env = linux_ioc" "prof demo_env = Checked"
  by (simp_all add: demo_env_def)

lemma u32_of_append: "u32_of (u32_bytes v @ rest) = v"
  by (rule u32_codec.dec_enc)

theorem parser_stays_in_step_witness:
  "\<exists>nx w1. one_return demo_env (u32_bytes (return_code linux_ioc BR_ATTEMPT_ACQUIRE) @ replicate 24 0) 0
     (demo_world []) = Some (Inr nx, w1) \<and> next_position nx = Some 20"
proof -
  let ?buf = "u32_bytes (return_code linux_ioc BR_ATTEMPT_ACQUIRE) @ replicate 24 0"
  have code: "u32_of (drop 0 ?buf) = return_code (ioc demo_env) BR_ATTEMPT_ACQUIRE" by simp
  have "one_return demo_env ?buf 0 (demo_world []) = Some (Inr (Continue 20), demo_world [])"
    by (simp add: one_return_def linux.match_return_code read_from_slice_def consume_def
        u32_codec.dec_exact)
  moreover from parser_stays_in_step [OF _ code this]
  have "next_position (Continue 20 :: unit next_step) = Some (0 + 4 + (declared_size BR_ATTEMPT_ACQUIRE - 8))"
    by (simp add: linux.ioctl_opcode_axioms declared_size_def)
  ultimately show ?thesis by (auto simp: declared_size_def)
qed

lemma match_return_zero: "match_return linux_ioc 0 = None"
proof -
  have "0 \<noteq> return_code linux_ioc r" for r
  proof
    assume "0 = return_code linux_ioc r"
    moreover obtain d n s where sp: "return_spec r = (d, n, s)" by (metis prod_cases3)
    moreover from this have "s < 2 ^ 14" using spec_size_bounds(1) [of r] by simp
    ultimately have "dir_bits d * 2 ^ 30 + s * 2 ^ 16 + unat (114 :: u8) * 2 ^ 8 + unat n = 0"
      using unat_linux_ioc [of s d 114 n] by (simp add: return_code_def)
    then show False by simp
  qed
  then show ?thesis
    by (cases "match_return linux_ioc 0") (auto simp: linux.match_return_Some_iff)
qed

theorem parser_terminates_witness:
  "\<exists>res. parse demo_env [0, 0, 0, 0, 0] 0 (demo_world []) = Some res"
proof (rule parser_terminates)
  have "u32_of (drop k [0, 0, 0, 0, 0]) = 0" for k
    by (cases k; cases "k - 1"; cases "k - 2"; cases "k - 3"; cases "k - 4")
      (auto simp: u32_of_def numeral_eq_Suc split: nat.splits)
  then show "\<not> has_transaction demo_env [0, 0, 0, 0, 0]"
    by (simp add: has_transaction_def match_return_zero)
qed

theorem acquire_takes_over_witness:
  "\<exists>w1. dispatch demo_env 4 (enc_ptr_cookie \<lparr>pc_ptr = 1, pc_cookie = 0\<rparr>) (Some BR_ACQUIRE)
     (demo_world []) = Some (Inr (Continue 20), w1) \<and>
     sent (dev w1) = [(BC_ACQUIRE_DONE, Arg_Ptr_Cookie \<lparr>pc_ptr = 1, pc_cookie = 0\<rparr>)]"
proof -
  have "object_refcounts (dev (demo_world [])) demo_id = Some (new_ref_state demo_id)"
    by (simp add: demo_world_def demo_device_fields)
  from acquire_takes_over [OF this, of "\<lparr>pc_ptr = 1, pc_cookie = 0\<rparr>"
      "enc_ptr_cookie \<lparr>pc_ptr = 1, pc_cookie = 0\<rparr>" "[]" demo_env 4]
  show ?thesis
    by (simp add: demo_id_def from_raw_def new_ref_state_def zero_counts_def demo_world_def
        demo_device_fields)
qed

definition demo_call :: transaction_data where
  "demo_call = \<lparr>target = 9, td_cookie = 0, code = 5, td_flags = 0x10, sender_pid = 2, sender_euid = 0,
     data_size = 2, offsets_size = 0, data_buffer = 4096, data_offsets = 0\<rparr>"

theorem missing_target_is_answered_witness:
  "\<exists>w1. incoming_transaction demo_env 68 demo_call (demo_world []) =
     Some (Inr (Return (Inl WR_ObjectNotFound)), w1) \<and>
     sends (dev w1) BC_FREE_BUFFER (Arg_Uintptr 4096) = 1"
proof -
  have no: "get_handler (dev (demo_world [])) (from_raw (target demo_call) (td_cookie demo_call)) = None"
    by (simp add: get_handler_def demo_world_def demo_device_fields demo_call_def from_raw_def demo_id_def)
  have "reader_drop Checked (kernel_payload demo_env demo_call) demo_device =
      Some (Inr [], demo_device\<lparr>sent := [(BC_FREE_BUFFER, Arg_Uintptr 4096)]\<rparr>)"
    by (simp add: reader_drop_def kernel_payload_def demo_call_def from_kernel_raw_def drain.simps
        next_object_type_def current_offset_def free_def demo_device_fields kernel_ok_def)
  with no obtain w1 where w1: "incoming_transaction demo_env 68 demo_call (demo_world []) =
      Some (Inr (Return (Inl WR_ObjectNotFound)), w1)"
    by (simp add: incoming_transaction_def Let_def drop_reader_def demo_world_def demo_call_def
        is_one_way_def ONE_WAY_def write_unwrapped_def on_dev_def kernel_ok_def demo_device_fields)
  from missing_target_is_answered [OF no w1] w1 show ?thesis
    by (simp add: demo_call_def demo_world_def sends_def demo_device_fields)
qed

theorem failed_send_restores_counts_witness:
  "\<exists>d2. mark_objects_as_pending_remote Checked demo_builder demo_device = (Inr (), d2) \<and>
     unmark_objects_as_pending_remote Checked demo_builder d2 = (Inr (), demo_device)"
proof -
  have "length (embedded_ids demo_builder) \<le> 2"
    by (simp add: embedded_ids_def demo_builder(2) Let_def)
  then have "all_settled (length (embedded_ids demo_builder)) demo_device"
    by (auto simp: all_settled_def demo_device_fields settled_def new_ref_state_def zero_counts_def
        split: if_splits)
  from failed_send_restores_counts [OF demo_builder(1) _ this] show ?thesis
    using demo_builder(3) by (auto simp: data_buffer_len_def)
qed

end
