(* ===== verification/Transact.thy ===== *)
theory Transact
  imports Driver
begin

text \<open>
  Transactions in \<open>src/src/device.rs\<close>: the target of a call, calls to objects of this
  process and to remote ones, two-way and one-way, the looper threads, and the context
  manager. The loops are those of the source, so a call that waits forever gives none.
\<close>

section \<open>Errors\<close>

text \<open>\<open>Error\<close> of \<open>src/src/error.rs\<close>; \<open>Io\<close> carries the kind of the \<open>io::Error\<close>.\<close>

datatype error =
    E_Io string | E_Os i32 | E_Binder errno | E_InvalidHandle u32 | E_HandleNotFound u32
  | E_InvalidTransaction | E_Transaction string | E_ObjectNotFound | E_InvalidObjectType
  | E_NotConnected | E_AlreadyConnected | E_PermissionDenied | E_OutOfMemory
  | E_InvalidArgument | E_Shutdown | E_ChannelFull | E_DeadBinder | E_DeadReply
  | E_FrozenReply | E_AlreadyExists | E_Unknown i32

text \<open>The error a call gives for one of the driver loop; a full buffer is tried again.\<close>

fun error_of :: "write_read_error \<Rightarrow> error option" where
  "error_of WR_NoDevice = Some E_Shutdown"
| "error_of WR_DeadReply = Some E_DeadReply"
| "error_of WR_ObjectNotFound = Some E_ObjectNotFound"
| "error_of WR_FailedReply = Some (E_Unknown 1)"
| "error_of WR_FrozenReply = Some E_FrozenReply"
| "error_of WR_AsyncBufferFull = None"
| "error_of (WriteReadIoctlFailed err) = Some (E_Binder err)"

section \<open>Targets\<close>

text \<open>The implementors of \<open>TransactionTarget\<close>.\<close>

datatype 'h transaction_target =
    Target_Object "'h binder_object"
  | Target_Object_Ref "'h binder_object_ref"
  | Target_Borrowed "'h borrowed_binder_object"
  | Target_Weak_Object binder_object_id
  | Target_Ref "binder_ref arc"
  | Target_Weak_Ref "weak_binder_ref arc"
  | Target_Erased "'h binder_object_or_ref"
  | Target_Context_Manager

definition context_manager_handle :: "'h binder_device \<Rightarrow> transaction_target_handle" where
  "context_manager_handle d = (if ctx_manager d \<noteq> 0
     then Local \<lparr>id_raw = ctx_manager d, id_cookie = 0\<rparr> else Remote 0)"

definition object_target :: "'h binder_object \<Rightarrow> transaction_target_handle" where
  "object_target ob = Local (bo_id ob)"

definition object_ref_target :: "'h binder_object_ref \<Rightarrow> transaction_target_handle" where
  "object_ref_target r = Local (bor_id r)"

definition borrowed_target :: "'h borrowed_binder_object \<Rightarrow> transaction_target_handle" where
  "borrowed_target b = Local (bbo_id b)"

definition weak_object_target :: "binder_object_id \<Rightarrow> transaction_target_handle" where
  "weak_object_target i = Local i"

definition ref_target :: "binder_ref arc \<Rightarrow> transaction_target_handle" where
  "ref_target a = Remote (ref_handle a)"

definition weak_ref_target :: "weak_binder_ref arc \<Rightarrow> transaction_target_handle" where
  "weak_ref_target w = Remote (weak_handle w)"

definition object_or_ref_target :: "'h binder_object_or_ref \<Rightarrow> transaction_target_handle" where
  "object_or_ref_target x = (case x of
     Object b \<Rightarrow> borrowed_target b
   | WeakObject i \<Rightarrow> weak_object_target i
   | Ref a \<Rightarrow> ref_target a
   | WeakRef w \<Rightarrow> weak_ref_target w)"

text \<open>The implementors of \<open>TransactionTarget\<close>.\<close>

definition get_transaction_target_handle :: "'h binder_device \<Rightarrow> 'h transaction_target \<Rightarrow>
    transaction_target_handle" where
  "get_transaction_target_handle d t = (case t of
     Target_Object ob \<Rightarrow> object_target ob
   | Target_Object_Ref r \<Rightarrow> object_ref_target r
   | Target_Borrowed b \<Rightarrow> borrowed_target b
   | Target_Weak_Object i \<Rightarrow> weak_object_target i
   | Target_Ref a \<Rightarrow> ref_target a
   | Target_Weak_Ref v \<Rightarrow> weak_ref_target v
   | Target_Erased x \<Rightarrow> object_or_ref_target x
   | Target_Context_Manager \<Rightarrow> context_manager_handle d)"

lemmas target_defs [simp] = object_target_def object_ref_target_def borrowed_target_def
  weak_object_target_def ref_target_def weak_ref_target_def object_or_ref_target_def

section \<open>Calls to objects of this process\<close>

type_synonym 'h call_result = "error + u32 \<times> 'h payload_reader"

definition self_transact_blocking :: "'h env \<Rightarrow> binder_object_id \<Rightarrow> u32 \<Rightarrow> 'h payload_builder \<Rightarrow>
    ('h, 'h call_result) prog" where
  "self_transact_blocking E i cde data =
     pbind (preads (\<lambda>w. get_handler (dev w) i)) (\<lambda>h. case h of
       None \<Rightarrow> pbind (drop_builder E data) (\<lambda>_. pret (Inl E_ObjectNotFound))
     | Some handler \<Rightarrow>
         pbind (on_dev (from_builder (prof E) (union_junk E) (dup_fd E) data)) (\<lambda>reader.
         pbind (handle E handler \<lparr>tr_code = cde, payload = reader, tr_sender_pid = getpid E,
           tr_sender_euid = geteuid E\<rparr>) (\<lambda>reply.
         pbind (on_dev (from_builder (prof E) (union_junk E) (dup_fd E) reply)) (\<lambda>reply_reader.
         pbind (drop_builder E reply) (\<lambda>_.
         pbind (drop_builder E data) (\<lambda>_.
         pret (Inr (cde, reply_reader))))))))"

text \<open>The handler runs later, as a task of the runtime.\<close>

definition self_transact_one_way :: "'h env \<Rightarrow> binder_object_id \<Rightarrow> u32 \<Rightarrow> 'h payload_builder \<Rightarrow>
    ('h, error + unit) prog" where
  "self_transact_one_way E i cde data =
     pbind (preads (\<lambda>w. get_handler (dev w) i)) (\<lambda>h. case h of
       None \<Rightarrow> pbind (drop_builder E data) (\<lambda>_. pret (Inl E_ObjectNotFound))
     | Some handler \<Rightarrow>
         pbind (on_dev (from_builder (prof E) (union_junk E) (dup_fd E) data)) (\<lambda>reader.
         pbind (pupdate (\<lambda>w. w\<lparr>spawned_tasks := spawned_tasks w @ [(handler, \<lparr>tr_code = cde,
           payload = reader, tr_sender_pid = getpid E, tr_sender_euid = geteuid E\<rparr>)]\<rparr>)) (\<lambda>_.
         pbind (drop_builder E data) (\<lambda>_. pret (Inr ())))))"

section \<open>Calls to remote objects\<close>

definition call_data :: "transaction_data \<Rightarrow> write_data" where
  "call_data t = [(BC_ENTER_LOOPER, Arg_None), (BC_TRANSACTION, Arg_Transaction t),
     (BC_EXIT_LOOPER, Arg_None)]"

text \<open>The write data is taken by the first iteration.\<close>

partial_function (option) blocking_loop :: "'h env \<Rightarrow> write_data option \<Rightarrow>
    'h payload_builder \<Rightarrow> ('h, 'h call_result) prog" where
  "blocking_loop E write_data data w = pbind (binder_write_read E write_data) (\<lambda>v. case v of
     Some (Inr r) \<Rightarrow> pret (Inr r)
   | Some (Inl e) \<Rightarrow> (case error_of e of
        Some err \<Rightarrow> pbind (on_dev (unmark_objects_as_pending_remote (prof E) data))
          (\<lambda>_. pret (Inl err))
      | None \<Rightarrow> blocking_loop E None data)
   | None \<Rightarrow> blocking_loop E None data) w"

definition remote_transact_blocking :: "'h env \<Rightarrow> u32 \<Rightarrow> u32 \<Rightarrow> 'h payload_builder \<Rightarrow>
    ('h, 'h call_result) prog" where
  "remote_transact_blocking E hdl cde data =
     (let t = outgoing E (union_write32 (union_junk E) hdl) cde ACCEPT_FDS 0 0 data in
      pbind (on_dev (mark_objects_as_pending_remote (prof E) data)) (\<lambda>_.
      pbind (blocking_loop E (Some (call_data t)) data) (\<lambda>res.
      pbind (drop_builder E data) (\<lambda>_. pret res))))"

text \<open>The one-way loop writes the same bytes each time.\<close>

partial_function (option) one_way_loop :: "'h env \<Rightarrow> write_data \<Rightarrow> 'h payload_builder \<Rightarrow>
    ('h, error + unit) prog" where
  "one_way_loop E bytes data w = pbind (binder_write_read E (Some bytes)) (\<lambda>v. case v of
     Some (Inl e) \<Rightarrow> (case error_of e of
        Some err \<Rightarrow> pbind (on_dev (unmark_objects_as_pending_remote (prof E) data))
          (\<lambda>_. pret (Inl err))
      | None \<Rightarrow> one_way_loop E bytes data)
   | Some (Inr (cde, reader)) \<Rightarrow> pbind (drop_reader E reader) (\<lambda>_. pret (Inr ()))
   | None \<Rightarrow> pret (Inr ())) w"

definition remote_transact_one_way :: "'h env \<Rightarrow> u32 \<Rightarrow> u32 \<Rightarrow> 'h payload_builder \<Rightarrow>
    ('h, error + unit) prog" where
  "remote_transact_one_way E hdl cde data =
     (let t = outgoing E (union_write32 (union_junk E) hdl) cde (ACCEPT_FDS OR ONE_WAY) 0 0 data in
      pbind (on_dev (mark_objects_as_pending_remote (prof E) data)) (\<lambda>_.
      pbind (one_way_loop E (call_data t) data) (\<lambda>res.
      pbind (drop_builder E data) (\<lambda>_. pret res))))"

definition transact_blocking :: "'h env \<Rightarrow> 'h transaction_target \<Rightarrow> u32 \<Rightarrow> 'h payload_builder \<Rightarrow>
    ('h, 'h call_result) prog" where
  "transact_blocking E t cde data =
     pbind (preads (\<lambda>w. get_transaction_target_handle (dev w) t)) (\<lambda>th. case th of
       Local i \<Rightarrow> self_transact_blocking E i cde data
     | Remote hdl \<Rightarrow> remote_transact_blocking E hdl cde data)"

definition transact_one_way :: "'h env \<Rightarrow> 'h transaction_target \<Rightarrow> u32 \<Rightarrow> 'h payload_builder \<Rightarrow>
    ('h, error + unit) prog" where
  "transact_one_way E t cde data =
     pbind (preads (\<lambda>w. get_transaction_target_handle (dev w) t)) (\<lambda>th. case th of
       Local i \<Rightarrow> self_transact_one_way E i cde data
     | Remote hdl \<Rightarrow> remote_transact_one_way E hdl cde data)"

section \<open>Loopers\<close>

partial_function (option) looper_loop :: "'h env \<Rightarrow> write_data option \<Rightarrow> ('h, unit) prog" where
  "looper_loop E init_data w = pbind (binder_write_read E init_data) (\<lambda>v. case v of
     Some (Inr (cde, reader)) \<Rightarrow> pbind (drop_reader E reader) (\<lambda>_. looper_loop E None)
   | Some (Inl e) \<Rightarrow> (case e of WR_NoDevice \<Rightarrow> pret () | _ \<Rightarrow> looper_loop E None)
   | None \<Rightarrow> looper_loop E None) w"

definition looper :: "'h env \<Rightarrow> bool \<Rightarrow> ('h, unit) prog" where
  "looper E spawned =
     pbind (looper_loop E (Some [(if spawned then BC_REGISTER_LOOPER else BC_ENTER_LOOPER, Arg_None)]))
       (\<lambda>_. write_unwrapped BC_EXIT_LOOPER Arg_None)"

section \<open>The context manager\<close>

text \<open>
  \<open>set_mgr\<close> is the kernel's answer to \<open>BINDER_SET_CONTEXT_MGR_EXT\<close>, given the object it is asked
  to take.
\<close>

definition set_context_manager :: "(flat_binder_object \<Rightarrow> errno option) \<Rightarrow> 'h binder_object \<Rightarrow>
    ('h, error + unit) dev_action" where
  "set_context_manager set_mgr ob =
     (let flat = \<lparr>hdr_type = BINDER, flags = ACCEPTS_FDS, obj_data = id_raw (bo_id ob),
        cookie = id_cookie (bo_id ob)\<rparr> in
      bind (modify (\<lambda>d. d\<lparr>ctx_manager := id_raw (bo_id ob)\<rparr>)) (\<lambda>_.
      ret (case set_mgr flat of None \<Rightarrow> Inr () | Some e \<Rightarrow> Inl E_PermissionDenied)))"

section \<open>Calls that fail at once\<close>

text \<open>Kernel answers that end a call with an error in its first iteration.\<close>

fun failing_answer :: "ioc_fn \<Rightarrow> ioctl_answer \<Rightarrow> error \<Rightarrow> bool" where
  "failing_answer op (Ioctl_Failed e) err = (err = E_Binder e)"
| "failing_answer op (Ioctl_Read False bs) err = (err = E_Shutdown)"
| "failing_answer op (Ioctl_Read True bs) err =
     ((\<exists>rest. bs = u32_bytes (return_code op BR_DEAD_REPLY) @ rest) \<and> err = E_DeadReply \<or>
      (\<exists>rest. bs = u32_bytes (return_code op BR_FROZEN_REPLY) @ rest) \<and> err = E_FrozenReply)"

lemma parse_first:
  assumes "ioctl_opcode (ioc E)" and "bs = u32_bytes (return_code (ioc E) r) @ rest"
    and "dispatch E 4 rest (Some r) w = Some (Inr (Return res), w1)"
  shows "parse E bs 0 w = Some (Inr (Some res), w1)"
proof -
  have "one_return E bs 0 w = Some (Inr (Return res), w1)"
    using assms by (simp add: one_return_def read_from_slice_def u32_codec.dec_exact
        ioctl_opcode.match_return_code)
  moreover have "0 \<noteq> length bs" using assms(2) by simp
  ultimately show ?thesis by (subst parse.simps) simp
qed

definition wrote :: "write_data \<Rightarrow> 'h world \<Rightarrow> 'h world" where
  "wrote cs w = w\<lparr>calls := calls w + 1, dev := (dev w)\<lparr>sent := sent (dev w) @ cs\<rparr>\<rparr>"

lemma write_read_ioctl_wrote:
  "answers w (calls w) = Some a \<Longrightarrow> write_read_ioctl (Some cs) w = Some (Inr a, wrote cs w)"
  by (simp add: write_read_ioctl_def wrote_def Let_def)

lemma failing_write_read:
  assumes "ioctl_opcode (ioc E)" and "answers w (calls w) = Some a"
    and "failing_answer (ioc E) a err"
  obtains e where "binder_write_read E (Some cs) w = Some (Inr (Some (Inl e)), wrote cs w)"
    and "error_of e = Some err"
proof -
  note call = write_read_ioctl_wrote [OF assms(2), of cs]
  show thesis
  proof (cases a)
    case (Ioctl_Failed e)
    with assms(3) call that [of "WriteReadIoctlFailed e"] show thesis
      by (simp add: binder_write_read_def call_kernel_def)
  next
    case (Ioctl_Read alive bs)
    show thesis
    proof (cases alive)
      case False
      with Ioctl_Read assms(3) call that [of WR_NoDevice] show thesis
        by (simp add: binder_write_read_def call_kernel_def)
    next
      case True
      with Ioctl_Read assms(3) consider
        rest where "bs = u32_bytes (return_code (ioc E) BR_DEAD_REPLY) @ rest" "err = E_DeadReply"
      | rest where "bs = u32_bytes (return_code (ioc E) BR_FROZEN_REPLY) @ rest" "err = E_FrozenReply"
        by auto
      then show thesis
      proof cases
        case 1
        have "parse E bs 0 w1 = Some (Inr (Some (Inl WR_DeadReply)), w1)" for w1
          by (rule parse_first [OF assms(1) 1(1)]) simp
        with 1 True Ioctl_Read call that [of WR_DeadReply] show thesis
          by (simp add: binder_write_read_def call_kernel_def)
      next
        case 2
        have "parse E bs 0 w1 = Some (Inr (Some (Inl WR_FrozenReply)), w1)" for w1
          by (rule parse_first [OF assms(1) 2(1)]) simp
        with 2 True Ioctl_Read call that [of WR_FrozenReply] show thesis
          by (simp add: binder_write_read_def call_kernel_def)
      qed
    qed
  qed
qed

lemma with_guards_sent [simp]:
  "(with_guards ids d)\<lparr>sent := x\<rparr> = with_guards ids (d\<lparr>sent := x\<rparr>)"
  "sent (with_guards ids d) = sent d" "all_settled n (d\<lparr>sent := x\<rparr>) = all_settled n d"
  by (simp_all add: with_guards_def all_settled_def)

text \<open>The state of a call in flight, and what the failure makes of it.\<close>

lemma failing_iteration:
  assumes "ioctl_opcode (ioc E)" and "pushes pf ps new_builder d0 = (Inr (Some b), d1)"
    and "data_buffer_len b < 2 ^ 64" and "all_settled (length (embedded_ids b)) (dev w)"
    and "answers w (calls w) = Some a" and "failing_answer (ioc E) a err"
  shows "on_dev (mark_objects_as_pending_remote (prof E) b) w =
      Some (Inr (), w\<lparr>dev := with_guards (embedded_ids b) (dev w)\<rparr>)"
    and "\<exists>e. error_of e = Some err \<and>
      binder_write_read E (Some cs) (w\<lparr>dev := with_guards (embedded_ids b) (dev w)\<rparr>) =
        Some (Inr (Some (Inl e)), (wrote cs w)\<lparr>dev := with_guards (embedded_ids b) (dev (wrote cs w))\<rparr>)"
    and "on_dev (unmark_objects_as_pending_remote (prof E) b)
      ((wrote cs w)\<lparr>dev := with_guards (embedded_ids b) (dev (wrote cs w))\<rparr>) =
        Some (Inr (), wrote cs w)"
proof -
  let ?g = "with_guards (embedded_ids b)"
  have w: "wrote cs (w\<lparr>dev := ?g (dev w)\<rparr>) = (wrote cs w)\<lparr>dev := ?g (dev (wrote cs w))\<rparr>"
    by (simp add: wrote_def)
  show "on_dev (mark_objects_as_pending_remote (prof E) b) w = Some (Inr (), w\<lparr>dev := ?g (dev w)\<rparr>)"
    by (rule on_dev_simp) (rule marking_eq(1) [OF assms(2-4)])
  have "answers (w\<lparr>dev := ?g (dev w)\<rparr>) (calls (w\<lparr>dev := ?g (dev w)\<rparr>)) = Some a"
    using assms(5) by simp
  from failing_write_read [OF assms(1) this assms(6), of cs] obtain e where
    "binder_write_read E (Some cs) (w\<lparr>dev := ?g (dev w)\<rparr>) =
       Some (Inr (Some (Inl e)), wrote cs (w\<lparr>dev := ?g (dev w)\<rparr>))" "error_of e = Some err"
    by blast
  then show "\<exists>e. error_of e = Some err \<and> binder_write_read E (Some cs) (w\<lparr>dev := ?g (dev w)\<rparr>) =
      Some (Inr (Some (Inl e)), (wrote cs w)\<lparr>dev := ?g (dev (wrote cs w))\<rparr>)"
    unfolding w by blast
  have "all_settled (length (embedded_ids b)) (dev (wrote cs w))"
    using assms(4) by (simp add: wrote_def)
  from marking_eq(2) [OF assms(2,3) this, of "prof E"]
  show "on_dev (unmark_objects_as_pending_remote (prof E) b)
      ((wrote cs w)\<lparr>dev := ?g (dev (wrote cs w))\<rparr>) = Some (Inr (), wrote cs w)"
    by (simp add: on_dev_def)
qed

section \<open>Properties of calls\<close>


text \<open>The iterations that end with another one: \<open>nxt\<close> is what the next one writes.\<close>

definition tries_again :: "'h write_read_result option \<Rightarrow> bool" where
  "tries_again v \<longleftrightarrow> v = None \<or> (\<exists>e. v = Some (Inl e) \<and> error_of e = None)"

inductive retried :: "'h env \<Rightarrow> (write_data option \<Rightarrow> write_data option) \<Rightarrow> write_data option \<Rightarrow>
    'h world \<Rightarrow> write_data option \<Rightarrow> 'h world \<Rightarrow> bool" for E nxt where
  first: "retried E nxt data w data w"
| again: "binder_write_read E data w = Some (Inr v, w1) \<Longrightarrow> tries_again v \<Longrightarrow>
    retried E nxt (nxt data) w1 data2 w2 \<Longrightarrow> retried E nxt data w data2 w2"

text \<open>The loop ended with \<open>err\<close>: its last iteration failed and the guards were taken back.\<close>

definition failed_after :: "'h env \<Rightarrow> (write_data option \<Rightarrow> write_data option) \<Rightarrow> write_data option \<Rightarrow>
    'h payload_builder \<Rightarrow> 'h world \<Rightarrow> error \<Rightarrow> 'h world \<Rightarrow> bool" where
  "failed_after E nxt data b w err w2 \<longleftrightarrow> (\<exists>data1 w0 e w1. retried E nxt data w data1 w0 \<and>
     binder_write_read E data1 w0 = Some (Inr (Some (Inl e)), w1) \<and> error_of e = Some err \<and>
     on_dev (unmark_objects_as_pending_remote (prof E) b) w1 = Some (Inr (), w2))"

lemma failed_now:
  "binder_write_read E data w = Some (Inr (Some (Inl e)), w1) \<Longrightarrow> error_of e = Some err \<Longrightarrow>
   on_dev (unmark_objects_as_pending_remote (prof E) b) w1 = Some (Inr (), w2) \<Longrightarrow>
   failed_after E nxt data b w err w2"
  unfolding failed_after_def by (blast intro: retried.first)

lemma failed_later:
  "binder_write_read E data w = Some (Inr v, w1) \<Longrightarrow> tries_again v \<Longrightarrow>
   failed_after E nxt (nxt data) b w1 err w2 \<Longrightarrow> failed_after E nxt data b w err w2"
  unfolding failed_after_def by (blast intro: retried.again)

text \<open>C31: No error without the rollback: whatever the kernel answers, for however many iterations,
  when a two-way or one-way call ends with an error, then after some iterations that were to be
  repeated one failed with exactly that error, and taking back the guards of the payload from the
  state it left is the last thing the call did.\<close>

theorem errors_only_after_rollback:
  "(blocking_loop E data b w = Some (Inr (Inl err), w2) \<longrightarrow>
      failed_after E (\<lambda>_. None) data b w err w2) \<and>
   (one_way_loop E cs b w = Some (Inr (Inl err), w2) \<longrightarrow>
      failed_after E (\<lambda>data. data) (Some cs) b w err w2)"
proof -
  have 1: "fst y = Inr (Inl err) \<Longrightarrow> failed_after E (\<lambda>_. None) data b w err (snd y)"
    if "blocking_loop E data b w = Some y" for E data b y and w :: "'a world"
  proof (induction rule: blocking_loop.raw_induct [OF _ that])
    case (1 f E data b w y)
    obtain v w1 where v: "binder_write_read E data w = Some (Inr v, w1)"
      and k: "(case v of None \<Rightarrow> f E None b
        | Some (Inl e) \<Rightarrow> (case error_of e of None \<Rightarrow> f E None b
            | Some err \<Rightarrow> pbind (on_dev (unmark_objects_as_pending_remote (prof E) b)) (\<lambda>_. pret (Inl err)))
        | Some (Inr r) \<Rightarrow> pret (Inr r)) w1 = Some y"
      using 1(2,3) by (cases y) (auto elim!: pbind_Some_cases)
    show ?case
    proof (cases "tries_again v")
      case True
      with k have "f E None b w1 = Some y"
        by (auto simp: tries_again_def split: option.splits sum.splits)
      from 1(1) [OF this 1(3)] show ?thesis by (rule failed_later [OF v True])
    next
      case False
      then obtain e err1 where e: "v = Some (Inl e)" "error_of e = Some err1"
        using k 1(3) by (cases v; cases "the v") (auto simp: tries_again_def split: option.splits)
      with k 1(3) show ?thesis
        by (cases y) (auto elim!: pbind_Some_cases intro: failed_now [OF v [unfolded e(1)]])
    qed
  qed
  have 2: "fst y = Inr (Inl err) \<Longrightarrow> failed_after E (\<lambda>data. data) (Some cs) b w err (snd y)"
    if "one_way_loop E cs b w = Some y" for E cs b y and w :: "'a world"
  proof (induction rule: one_way_loop.raw_induct [OF _ that])
    case (1 f E cs b w y)
    obtain v w1 where v: "binder_write_read E (Some cs) w = Some (Inr v, w1)"
      and k: "(case v of None \<Rightarrow> pret (Inr ())
        | Some (Inl e) \<Rightarrow> (case error_of e of None \<Rightarrow> f E cs b
            | Some err \<Rightarrow> pbind (on_dev (unmark_objects_as_pending_remote (prof E) b)) (\<lambda>_. pret (Inl err)))
        | Some (Inr (cde, reader)) \<Rightarrow> pbind (drop_reader E reader) (\<lambda>_. pret (Inr ()))) w1 = Some y"
      using 1(2,3) by (cases y) (auto elim!: pbind_Some_cases)
    show ?case
    proof (cases "\<exists>e. v = Some (Inl e) \<and> error_of e = None")
      case True
      with k have "f E cs b w1 = Some y" by auto
      from 1(1) [OF this 1(3)] show ?thesis
        by (intro failed_later [OF v]) (use True in \<open>auto simp: tries_again_def\<close>)
    next
      case False
      then obtain e err1 where e: "v = Some (Inl e)" "error_of e = Some err1"
        using k 1(3) by (cases y; cases v; cases "the v") (auto elim!: pbind_Some_cases split: prod.splits)
      with k 1(3) show ?thesis
        by (cases y) (auto elim!: pbind_Some_cases intro: failed_now [OF v [unfolded e(1)]])
    qed
  qed
  from 1 2 show ?thesis by force
qed

text \<open>A two-way call that meets a full buffer never sends its transaction again: the bytes
  were taken by the first iteration, so the call goes on waiting for a reply to a transaction the
  kernel has refused, while a one-way call in the same situation writes the transaction anew.\<close>

theorem full_buffer_loses_two_way_call:
  assumes "binder_write_read E (Some cs) w = Some (Inr (Some (Inl WR_AsyncBufferFull)), w1)"
  shows "blocking_loop E (Some cs) b w = blocking_loop E None b w1 \<and>
    one_way_loop E cs b w = one_way_loop E cs b w1"
  using assms by (subst blocking_loop.simps, subst (2) one_way_loop.simps)
    (simp add: one_way_loop.simps)

text \<open>A looper ends only with its device: when \<open>looper\<close> returns, a call to the kernel has
  found the device gone, and \<open>BC_EXIT_LOOPER\<close> is the one command sent after that.\<close>

theorem looper_ends_with_device:
  assumes "looper E spawned w = Some (Inr (), w2)"
  shows "\<exists>data w0 w1. binder_write_read E data w0 = Some (Inr (Some (Inl WR_NoDevice)), w1) \<and>
    sent (dev w2) = sent (dev w1) @ [(BC_EXIT_LOOPER, Arg_None)]"
proof -
  have loop: "fst y = Inr () \<Longrightarrow>
      \<exists>data w0. binder_write_read E data w0 = Some (Inr (Some (Inl WR_NoDevice)), snd y)"
    if "looper_loop E data w = Some y" for E data y and w :: "'a world"
  proof (induction rule: looper_loop.raw_induct [OF _ that])
    case (1 f E data w y)
    then show ?case
      by (cases y, auto split: option.splits sum.splits write_read_error.splits
          elim!: pbind_Some_cases, blast+)
  qed
  from assms obtain data w1 where l: "looper_loop E data w = Some (Inr (), w1)"
    and x: "write_unwrapped BC_EXIT_LOOPER Arg_None w1 = Some (Inr (), w2)"
    by (auto simp: looper_def elim!: pbind_Some_cases)
  from x have "sent (dev w2) = sent (dev w1) @ [(BC_EXIT_LOOPER, Arg_None)]"
    by (auto simp: write_unwrapped_def on_dev_def dev_write_struct_command_def bind_def
        write_binder_struct_command_def split: option.splits)
  with loop [OF l] show ?thesis by auto
qed

text \<open>C39: A looper whose calls keep failing spins forever: the device is looked at only after a
  call that succeeded, so with a kernel that fails every call the looper neither ends nor lets go,
  whether or not the device still exists.\<close>

theorem failing_looper_spins:
  assumes "\<forall>n. \<exists>e. answers w n = Some (Ioctl_Failed e)"
  shows "looper E spawned w = None"
proof -
  have fails: "\<exists>e w1. binder_write_read E data w = Some (Inr (Some (Inl (WriteReadIoctlFailed e))), w1)
      \<and> answers w1 = answers w"
    if h: "\<forall>n. \<exists>e. answers w n = Some (Ioctl_Failed e)" for E data and w :: "'a world"
  proof -
    obtain e where "answers w (calls w) = Some (Ioctl_Failed e)" using h by blast
    then show ?thesis
      by (simp add: binder_write_read_def call_kernel_def write_read_ioctl_def Let_def)
  qed
  have "\<not> (\<forall>n. \<exists>e. answers w n = Some (Ioctl_Failed e))"
    if "looper_loop E data w = Some y" for E data y and w :: "'a world"
  proof (induction rule: looper_loop.raw_induct [OF _ that])
    case (1 f E data w y)
    show ?case
    proof
      assume h: "\<forall>n. \<exists>e. answers w n = Some (Ioctl_Failed e)"
      then obtain e w1 where r: "binder_write_read E data w =
          Some (Inr (Some (Inl (WriteReadIoctlFailed e))), w1)" "answers w1 = answers w"
        using fails by blast
      with 1(2) have "f E None w1 = Some y" by simp
      from 1(1) [OF this] h r(2) show False by simp
    qed
  qed
  then have "looper_loop E data w = None" for data
    using assms by (metis option.exhaust)
  then show ?thesis by (simp add: looper_def)
qed

text \<open>A refused context manager is not undone: \<open>set_context_manager\<close> stores the object
  before it asks the kernel, so also after an error, as after a success, every call to the context
  manager goes to the local object instead of to handle 0.\<close>

theorem refused_context_manager_sticks:
  assumes "set_context_manager set_mgr ob (dev w) = (res, d1)" and "id_raw (bo_id ob) \<noteq> 0"
  shows "transact_blocking E Target_Context_Manager cde b (w\<lparr>dev := d1\<rparr>) =
      self_transact_blocking E \<lparr>id_raw = id_raw (bo_id ob), id_cookie = 0\<rparr> cde b (w\<lparr>dev := d1\<rparr>) \<and>
    (res = Inr (Inr ()) \<or> res = Inr (Inl E_PermissionDenied))"
  using assms by (auto simp: set_context_manager_def transact_blocking_def Let_def
      get_transaction_target_handle_def context_manager_handle_def split: option.splits)

section \<open>Witnesses\<close>

lemma demo_settled: "all_settled (length (embedded_ids demo_builder)) demo_device"
proof -
  have "length (embedded_ids demo_builder) \<le> 2"
    by (simp add: embedded_ids_def demo_builder(2) Let_def)
  then show ?thesis
    by (auto simp: all_settled_def demo_device_fields settled_def new_ref_state_def zero_counts_def
        split: if_splits)
qed

lemma demo_builder_drop:
  "drop_builder demo_env demo_builder w = Some (Inr (), w)"
proof -
  have "owned_fds demo_builder = [] \<and>
      binder_objects demo_builder = [WeakObject \<lparr>id_raw = 1, id_cookie = 0\<rparr>]"
    by (simp add: demo_builder_def demo_pushes_def push_fd_def push_binder_ref_def
        to_binder_object_or_ref_def align_eq new_builder_def push_bytes_def append_object_def
        padding_def)
  then show ?thesis
    by (simp add: drop_builder_def on_dev_def object_or_ref_drop_def bind_def)
qed


theorem errors_only_after_rollback_witness:
  "failed_after demo_env (\<lambda>_. None) None new_builder (demo_world [Ioctl_Failed 5]) (E_Binder 5)
     ((demo_world [Ioctl_Failed 5])\<lparr>calls := 1\<rparr>)"
proof -
  let ?w = "demo_world [Ioctl_Failed 5]"
  have "blocking_loop demo_env None new_builder ?w = Some (Inr (Inl (E_Binder 5)), ?w\<lparr>calls := 1\<rparr>)"
    by (subst blocking_loop.simps)
      (simp add: binder_write_read_def call_kernel_def write_read_ioctl_def Let_def demo_world_def
        on_dev_def unmark_objects_as_pending_remote_def for_each_embedded_binder_object_def
        new_builder_def)
  with errors_only_after_rollback [of demo_env None new_builder ?w "E_Binder 5"] show ?thesis by simp
qed

definition busy_env :: "unit env" where
  "busy_env = demo_env\<lparr>extended_error := (\<lambda>n. Some minus_NOSPC)\<rparr>"

definition busy_world :: "unit world" where
  "busy_world = demo_world [Ioctl_Read True (u32_bytes (return_code linux_ioc BR_FAILED_REPLY))]"

lemma busy_write_read:
  "binder_write_read busy_env (Some cs) busy_world =
     Some (Inr (Some (Inl WR_AsyncBufferFull)), (wrote cs busy_world)\<lparr>ext_calls := 1\<rparr>)"
proof -
  have "parse busy_env (u32_bytes (return_code linux_ioc BR_FAILED_REPLY)) 0 w =
      Some (Inr (Some (Inl WR_AsyncBufferFull)), w\<lparr>ext_calls := 1\<rparr>)" if "ext_calls w = 0" for w
    using that by (intro parse_first [where rest = "[]" and r = BR_FAILED_REPLY])
      (simp_all add: busy_env_def linux.ioctl_opcode_axioms failed_reply_def)
  then show ?thesis
    by (simp add: binder_write_read_def call_kernel_def write_read_ioctl_def Let_def busy_world_def
        demo_world_def wrote_def)
qed

theorem full_buffer_loses_two_way_call_witness:
  "blocking_loop busy_env (Some []) new_builder busy_world =
     blocking_loop busy_env None new_builder ((wrote [] busy_world)\<lparr>ext_calls := 1\<rparr>)"
  using full_buffer_loses_two_way_call [OF busy_write_read] by blast

theorem looper_ends_with_device_witness:
  "\<exists>w2. looper demo_env False (demo_world [Ioctl_Read False []]) = Some (Inr (), w2) \<and>
     (\<exists>s. sent (dev w2) = s @ [(BC_EXIT_LOOPER, Arg_None)])"
proof -
  obtain w2 where w2: "looper demo_env False (demo_world [Ioctl_Read False []]) = Some (Inr (), w2)"
    by (simp add: looper_def looper_loop.simps binder_write_read_def call_kernel_def
        write_read_ioctl_def Let_def demo_world_def write_unwrapped_def on_dev_def kernel_ok_def
        demo_device_fields)
  with looper_ends_with_device [OF w2] show ?thesis by auto
qed

theorem failing_looper_spins_witness:
  "looper demo_env True ((demo_world [])\<lparr>answers := (\<lambda>n. Some (Ioctl_Failed 9))\<rparr>) = None"
  by (rule failing_looper_spins) simp

theorem refused_context_manager_sticks_witness:
  "transact_blocking demo_env Target_Context_Manager 7 new_builder
     ((demo_world [])\<lparr>dev := demo_device\<lparr>ctx_manager := 1\<rparr>\<rparr>) =
   self_transact_blocking demo_env \<lparr>id_raw = 1, id_cookie = 0\<rparr> 7 new_builder
     ((demo_world [])\<lparr>dev := demo_device\<lparr>ctx_manager := 1\<rparr>\<rparr>)"
proof -
  let ?ob = "\<lparr>bo_id = demo_id, bo_handler = ()\<rparr>"
  have "set_context_manager (\<lambda>_. Some 16) ?ob (dev (demo_world [])) =
      (Inr (Inl E_PermissionDenied), demo_device\<lparr>ctx_manager := 1\<rparr>)"
    by (simp add: set_context_manager_def bind_def demo_world_def demo_id_def Let_def)
  from refused_context_manager_sticks [OF this] show ?thesis by (simp add: demo_id_def)
qed

end
