(* ===== verification/Driver_Invariants.thy ===== *)
theory Driver_Invariants
  imports Transact
begin

text \<open>
  What calls, one-way calls and loopers leave true of the device: the laws of
  \<open>Device_Invariants\<close> carried through every arm of the driver loop and every retry loop, for
  any answers of the kernel and any handlers that keep the property themselves.
\<close>

section \<open>Programs\<close>

definition kept :: "('h binder_device \<Rightarrow> bool) \<Rightarrow> ('h, 'a) prog \<Rightarrow> bool" where
  "kept I m \<longleftrightarrow> (\<forall>w r w1. I (dev w) \<longrightarrow> m w = Some (r, w1) \<longrightarrow> I (dev w1))"

named_theorems kept_intros \<open>programs that keep a property of the device\<close>

lemma keptD: "kept I m \<Longrightarrow> m w = Some (r, w1) \<Longrightarrow> I (dev w) \<Longrightarrow> I (dev w1)"
  by (auto simp: kept_def)

lemma kept_pure [kept_intros]:
  "kept I (pret x)" "kept I (ppanic p)" "kept I (preads h)"
  "(\<And>w. dev (g w) = dev w) \<Longrightarrow> kept I (pupdate g)"
  by (simp_all add: kept_def)

lemma kept_on_dev [kept_intros]: "keeps I m1 \<Longrightarrow> kept I (on_dev m1)"
  unfolding kept_def on_dev_def by (auto simp: keeps_def split: prod.splits)

lemma kept_pbind [kept_intros]:
  assumes "kept I m" and "\<And>x. kept I (f x)"
  shows "kept I (pbind m f)"
  unfolding kept_def
proof (intro allI impI)
  fix w r w2
  assume w: "I (dev w)" and "pbind m f w = Some (r, w2)"
  from this(2) show "I (dev w2)"
  proof (cases rule: pbind_Some_cases)
    case (1 p)
    then show ?thesis using keptD [OF assms(1)] w by blast
  next
    case (2 x w1)
    then show ?thesis using keptD [OF assms(1)] keptD [OF assms(2)] w by blast
  qed
qed

lemma kept_cases [kept_intros]:
  "kept I m \<Longrightarrow> (\<And>x. kept I (f x)) \<Longrightarrow> kept I (case ob of None \<Rightarrow> m | Some x \<Rightarrow> f x)"
  "(\<And>e. kept I (g e)) \<Longrightarrow> (\<And>x. kept I (k x)) \<Longrightarrow> kept I (case sm of Inl e \<Rightarrow> g e | Inr x \<Rightarrow> k x)"
  "kept I m \<Longrightarrow> kept I m1 \<Longrightarrow> kept I (if b then m else m1)"
  "(\<And>x y. kept I (p2 x y)) \<Longrightarrow> kept I (case pr of (x, y) \<Rightarrow> p2 x y)"
  by (auto split: option.split sum.split prod.split)

lemma kept_with_value [kept_intros]: "(\<And>v c. kept I (f v c)) \<Longrightarrow> kept I (with_value m c f)"
  by (cases m) (auto intro: kept_intros)

text \<open>Handlers are programs of the client; they are asked to keep the property too.\<close>

definition handlers_keep :: "('h binder_device \<Rightarrow> bool) \<Rightarrow> 'h env \<Rightarrow> bool" where
  "handlers_keep I E \<longleftrightarrow> (\<forall>h tx. kept I (handle E h tx) \<and> kept I (handle_one_way E h tx))"

definition well_formed_data :: "write_data option \<Rightarrow> bool" where
  "well_formed_data data \<longleftrightarrow> (case data of None \<Rightarrow> True | Some cs \<Rightarrow> \<forall>c \<in> set cs. well_formed_command c)"

lemma well_formed_data_simps [simp]:
  "well_formed_data None" "well_formed_data (Some (call_data t))"
  "well_formed_data (Some [(BC_REPLY, Arg_Transaction t)])"
  "well_formed_data (Some [(if b then BC_REGISTER_LOOPER else BC_ENTER_LOOPER, Arg_None)])"
  by (simp_all add: well_formed_data_def call_data_def)

section \<open>The laws of the driver\<close>

text \<open>The driver sends commands of every kind, each with the argument its opcode declares.\<close>

locale driver_invariant = ref_traffic +
  assumes ok_all: "well_formed_command ca \<Longrightarrow> ok ca"
begin

lemma buffer_freed [device_intros]: "keeps I (free b)"
  unfolding free_def by (cases b; simp only: payload_reader_buffer.case; intro device_intros ok_all commands_well_formed)

lemma embedded_kept [device_intros]:
  "keeps I (mark_objects_as_pending_remote pf b)"
  "keeps I (unmark_objects_as_pending_remote pf b)"
proof -
  have "keeps I (embedded_loop pf bs f offs)" if "\<And>i. keeps I (f i)" for bs offs f
    by (induction offs) (simp_all only: embedded_loop.simps Let_def, (intro device_intros that | assumption)+)
  moreover have "keeps I (mark_one pf i)" "keeps I (clear_one pf i)" for i
    unfolding mark_one_def clear_one_def by (intro device_intros)+
  ultimately show "keeps I (mark_objects_as_pending_remote pf b)"
    "keeps I (unmark_objects_as_pending_remote pf b)"
    unfolding mark_objects_as_pending_remote_def unmark_objects_as_pending_remote_def
      for_each_embedded_binder_object_def by blast+
qed

lemma death_reported [device_intros]: "keeps I (dead_binder ck)"
  by (intro death_kept ok_all commands_well_formed)

lemma reader_dropped:
  assumes "reader_drop pf r d = Some (x, d1)" and "I d"
  shows "I d1"
proof -
  obtain res d0 where d0: "drain pf r [] d = Some (res, d0)"
    using assms(1) by (cases "drain pf r [] d") (auto simp: reader_drop_def)
  have ok: "I d0" using drained [OF d0 assms(2)] .
  have k: "keeps I (bind (free (pr_data r)) (\<lambda>_.
      bind (drop_objects pf (pr_binder_objects r)) (\<lambda>_. ret closed)))" for closed :: "i32 list"
    by (intro device_intros)
  show ?thesis
  proof (cases res)
    case (Inl p)
    with assms(1) d0 ok show ?thesis by (simp add: reader_drop_def)
  next
    case (Inr closed)
    with assms(1) d0 have "bind (free (pr_data r)) (\<lambda>_.
        bind (drop_objects pf (pr_binder_objects r)) (\<lambda>_. ret closed)) d0 = (x, d1)"
      by (simp add: reader_drop_def)
    then show ?thesis by (rule keepsD [OF k ok])
  qed
qed

lemma kept_drop_reader [kept_intros]: "kept I (drop_reader E r)"
  unfolding kept_def drop_reader_def
  using reader_dropped by (fastforce split: option.splits sum.splits prod.splits)

lemma kept_writes [kept_intros]:
  assumes "well_formed_command (c, a)"
  shows "kept I (write_ignored c a)" "kept I (write_unwrapped c a)"
  unfolding write_ignored_def write_unwrapped_def
  by (intro kept_intros device_intros ok_all assms)+

lemma kept_drop_builder [kept_intros]: "kept I (drop_builder E b)"
  unfolding drop_builder_def by (intro kept_intros device_intros) simp

lemma kept_counts [kept_intros]:
  "kept I (acquire E tgt)" "kept I (release E tgt)"
  unfolding acquire_def release_def by (intro kept_intros device_intros commands_well_formed)+

lemma kept_failed_reply [kept_intros]: "kept I (failed_reply E)"
  unfolding failed_reply_def by (intro kept_intros) simp

lemma kept_consume [kept_intros]: "kept I (consume n k bs)"
  unfolding consume_def by (intro kept_intros)

lemma all_sent: "I d \<Longrightarrow> \<forall>ca \<in> set cs. well_formed_command ca \<Longrightarrow> I (d\<lparr>sent := sent d @ cs\<rparr>)"
proof (induction cs arbitrary: d)
  case (Cons ca cs)
  from Cons.IH [OF I_sent [OF Cons.prems(1) ok_all, of ca]] Cons.prems(2) show ?case by simp
qed simp

lemma kept_call [kept_intros]:
  assumes "well_formed_data data"
  shows "kept I (call_kernel data)"
proof -
  have "kept I (write_read_ioctl data)"
    using assms all_sent
    by (auto simp: kept_def write_read_ioctl_def Let_def well_formed_data_def split: option.splits)
  then show ?thesis unfolding call_kernel_def by (intro kept_intros)
qed

lemma kept_incoming [kept_intros]:
  "handlers_keep I E \<Longrightarrow> kept I (incoming_transaction E c t)"
  unfolding incoming_transaction_def Let_def
  by (auto intro!: kept_intros device_intros simp: handlers_keep_def)

lemma kept_dispatch [kept_intros]:
  assumes "handlers_keep I E"
  shows "kept I (dispatch E c bs r)"
proof (cases r)
  case (Some br)
  with assms show ?thesis by (cases br) (auto intro!: kept_intros device_intros)
qed (auto intro: kept_intros)

lemma kept_one_return [kept_intros]:
  "handlers_keep I E \<Longrightarrow> kept I (one_return E buf c)"
  unfolding one_return_def by (intro kept_intros)

lemma kept_after_reply [kept_intros]: "kept I (after_reply E b res)"
  unfolding after_reply_def by (intro kept_intros device_intros)

lemma kept_parse [kept_intros]:
  assumes "handlers_keep I E"
  shows "kept I (parse E buf c)"
proof -
  have "I (dev (snd y))"
    if "parse E buf c w = Some y" "handlers_keep I E" "I (dev w)" for E buf c w y
    using that(2,3)
  proof (induction rule: parse.raw_induct [OF _ that(1)])
    case (1 f E buf c w y)
    have f: "kept I (f E bs k)" for bs k
      using 1(1) 1(3) by (fastforce simp: kept_def)
    have reply: "well_formed_data (Some [(BC_REPLY, Arg_Transaction t)])" for t
      by (simp add: well_formed_data_def)
    have nx: "kept I (case nx of Continue c1 \<Rightarrow> f E buf c1 | Return res \<Rightarrow> pret (Some res)
        | Send_Reply c1 b t \<Rightarrow> pbind (call_kernel (Some [(BC_REPLY, Arg_Transaction t)])) (\<lambda>k.
            pbind (case k of Inl e \<Rightarrow> pret (Some (Inl e)) | Inr bs \<Rightarrow> f E bs 0) (\<lambda>res.
            pbind (after_reply E b res) (\<lambda>_. f E buf c1))))" for nx
      by (cases nx) (auto intro!: kept_intros f reply)
    have "kept I (pbind (one_return E buf c) (\<lambda>nx. case nx of Continue c1 \<Rightarrow> f E buf c1
        | Return res \<Rightarrow> pret (Some res)
        | Send_Reply c1 b t \<Rightarrow> pbind (call_kernel (Some [(BC_REPLY, Arg_Transaction t)])) (\<lambda>k.
            pbind (case k of Inl e \<Rightarrow> pret (Some (Inl e)) | Inr bs \<Rightarrow> f E bs 0) (\<lambda>res.
            pbind (after_reply E b res) (\<lambda>_. f E buf c1)))))"
      by (intro kept_intros nx 1(3))
    with 1(2,4) show ?case
      by (cases y) (auto split: if_splits dest: keptD)
  qed
  with assms show ?thesis by (fastforce simp: kept_def)
qed

lemma kept_write_read [kept_intros]:
  "handlers_keep I E \<Longrightarrow> well_formed_data data \<Longrightarrow> kept I (binder_write_read E data)"
  unfolding binder_write_read_def by (intro kept_intros)

lemma kept_blocking_loop [kept_intros]:
  assumes "handlers_keep I E" and "well_formed_data data0"
  shows "kept I (blocking_loop E data0 data)"
proof -
  have "I (dev (snd y))"
    if "blocking_loop E data0 data w = Some y" "handlers_keep I E" "well_formed_data data0"
      "I (dev w)" for E data0 data w y
    using that(2-4)
  proof (induction rule: blocking_loop.raw_induct [OF _ that(1)])
    case (1 f E data0 data w y)
    have f: "kept I (f E None data)"
      using 1(1) 1(3) by (fastforce simp: kept_def well_formed_data_def)
    have "kept I (pbind (binder_write_read E data0) (\<lambda>v. case v of
        None \<Rightarrow> f E None data
      | Some (Inl e) \<Rightarrow> (case error_of e of None \<Rightarrow> f E None data
          | Some err \<Rightarrow> pbind (on_dev (unmark_objects_as_pending_remote (prof E) data))
              (\<lambda>_. pret (Inl err)))
      | Some (Inr r) \<Rightarrow> pret (Inr r)))"
      by (intro kept_intros device_intros f 1(3,4))
    with 1(2,5) show ?case by (cases y) (auto dest: keptD)
  qed
  with assms show ?thesis by (fastforce simp: kept_def)
qed

lemma kept_one_way_loop [kept_intros]:
  assumes "handlers_keep I E" and "well_formed_data (Some cs)"
  shows "kept I (one_way_loop E cs data)"
proof -
  have "I (dev (snd y))"
    if "one_way_loop E cs data w = Some y" "handlers_keep I E" "well_formed_data (Some cs)"
      "I (dev w)" for E cs data w y
    using that(2-4)
  proof (induction rule: one_way_loop.raw_induct [OF _ that(1)])
    case (1 f E cs data w y)
    have f: "kept I (f E cs data)"
      using 1(1) 1(3,4) by (fastforce simp: kept_def)
    have "kept I (pbind (binder_write_read E (Some cs)) (\<lambda>v. case v of
        None \<Rightarrow> pret (Inr ())
      | Some (Inl e) \<Rightarrow> (case error_of e of None \<Rightarrow> f E cs data
          | Some err \<Rightarrow> pbind (on_dev (unmark_objects_as_pending_remote (prof E) data))
              (\<lambda>_. pret (Inl err)))
      | Some (Inr (cde, reader)) \<Rightarrow> pbind (drop_reader E reader) (\<lambda>_. pret (Inr ()))))"
      by (intro kept_intros device_intros f 1(3,4))
    with 1(2,5) show ?case by (cases y) (auto dest: keptD)
  qed
  with assms show ?thesis by (fastforce simp: kept_def)
qed

lemma kept_looper_loop [kept_intros]:
  assumes "handlers_keep I E" and "well_formed_data data0"
  shows "kept I (looper_loop E data0)"
proof -
  have "I (dev (snd y))"
    if "looper_loop E data0 w = Some y" "handlers_keep I E" "well_formed_data data0"
      "I (dev w)" for E data0 w y
    using that(2-4)
  proof (induction rule: looper_loop.raw_induct [OF _ that(1)])
    case (1 f E data0 w y)
    have f: "kept I (f E None)"
      using 1(1) 1(3) by (fastforce simp: kept_def well_formed_data_def)
    have e: "kept I (case e of WR_NoDevice \<Rightarrow> pret () | _ \<Rightarrow> f E None)" for e
      by (cases e) (auto intro: kept_intros f)
    have "kept I (pbind (binder_write_read E data0) (\<lambda>v. case v of
        None \<Rightarrow> f E None
      | Some (Inl e) \<Rightarrow> (case e of WR_NoDevice \<Rightarrow> pret () | _ \<Rightarrow> f E None)
      | Some (Inr (cde, reader)) \<Rightarrow> pbind (drop_reader E reader) (\<lambda>_. f E None)))"
      by (intro kept_intros device_intros f e 1(3,4))
    with 1(2,5) show ?case by (cases y) (auto dest: keptD)
  qed
  with assms show ?thesis by (fastforce simp: kept_def)
qed

lemma kept_mains [kept_intros]:
  assumes "handlers_keep I E"
  shows "kept I (transact_blocking E t c b)" "kept I (transact_one_way E t c b)"
    "kept I (looper E s)"
  subgoal
    unfolding transact_blocking_def self_transact_blocking_def remote_transact_blocking_def Let_def
    using assms by (auto intro!: kept_intros device_intros split: transaction_target_handle.split
        simp: handlers_keep_def)
  subgoal
    unfolding transact_one_way_def self_transact_one_way_def remote_transact_one_way_def Let_def
    using assms by (auto intro!: kept_intros device_intros split: transaction_target_handle.split
        simp: handlers_keep_def)
  subgoal
    unfolding looper_def using assms by (intro kept_intros) simp_all
  done

end

end
