(* ===== verification/Wire_Format.thy ===== *)
theory Wire_Format
  imports Driver_Invariants
begin

text \<open>
  What is written to and read from the kernel: the byte layouts of \<open>src/src/sys.rs\<close>, its
  type tags and opcodes, and the arguments of every command the program sends.
\<close>

section \<open>Structures, tags and opcodes\<close>


lemma unat_u8_bound: "unat (c :: u8) < 256"
  by (rule unat_u8_less)

lemma bit_b_pack_chars:
  "bit (b_pack_chars c1 c2 c3 c4) n \<longleftrightarrow>
    (if n < 8 then bit c4 n else if n < 16 then bit c3 (n - 8)
     else if n < 24 then bit c2 (n - 16) else n < 32 \<and> bit c1 (n - 24))"
proof -
  have out: "bit (c :: u8) k \<Longrightarrow> k < 8" for c k using bit_imp_le_length [of c k] by simp
  show ?thesis
    by (auto simp: b_pack_chars_def bit_simps dest: out)
qed

text \<open>Type tags are told apart: packing four characters into a tag loses nothing, so two tags
  are equal only if all their characters are, and the seven object types are distinct.\<close>

theorem type_tags_distinct:
  "(b_pack_chars c1 c2 c3 c4 = b_pack_chars e1 e2 e3 e4 \<longleftrightarrow>
     c1 = e1 \<and> c2 = e2 \<and> c3 = e3 \<and> c4 = e4) \<and> distinct binder_types"
proof -
  have "c1 = e1 \<and> c2 = e2 \<and> c3 = e3 \<and> c4 = e4"
    if eq: "b_pack_chars c1 c2 c3 c4 = b_pack_chars e1 e2 e3 e4"
  proof -
    have b: "bit (b_pack_chars c1 c2 c3 c4) n = bit (b_pack_chars e1 e2 e3 e4) n" for n
      using eq by simp
    have "bit c4 n = bit e4 n" "bit c3 n = bit e3 n" "bit c2 n = bit e2 n" "bit c1 n = bit e1 n"
      if "n < 8" for n
      using b [of n] b [of "8 + n"] b [of "16 + n"] b [of "24 + n"] that
      by (simp_all add: bit_b_pack_chars)
    then have "c4 = e4" "c3 = e3" "c2 = e2" "c1 = e1"
      by (auto intro!: bit_word_eqI)
    then show ?thesis by blast
  qed
  then show ?thesis using distinct_binder_types by auto
qed

text \<open>The calls of the device files; \<open>b'b'\<close> is 98.\<close>

definition version_opcode :: "ioc_fn \<Rightarrow> u32" where
  "version_opcode op = op Dir_Read_Write 98 9 (layout_size BinderVersion)"

definition write_read_opcode :: "ioc_fn \<Rightarrow> u32" where
  "write_read_opcode op = op Dir_Read_Write 98 1 (layout_size BinderWriteRead)"

definition add_device_opcode :: "ioc_fn \<Rightarrow> u32" where
  "add_device_opcode op = op Dir_Read_Write 98 1 (layout_size BinderfsDevice)"

definition set_context_mgr_opcode :: "ioc_fn \<Rightarrow> u32" where
  "set_context_mgr_opcode op = op Dir_Write 98 13 (layout_size FlatBinderObject)"

definition set_max_threads_opcode :: "ioc_fn \<Rightarrow> u32" where
  "set_max_threads_opcode op = op Dir_Write 98 5 (layout_size [f32])"

definition extended_error_opcode :: "ioc_fn \<Rightarrow> u32" where
  "extended_error_opcode op = op Dir_Read_Write 98 17 (layout_size BinderExtendedError)"

definition device_opcodes :: "ioc_fn \<Rightarrow> u32 list" where
  "device_opcodes op = [version_opcode op, write_read_opcode op, add_device_opcode op,
     set_context_mgr_opcode op, set_max_threads_opcode op, extended_error_opcode op]"

lemma layout_size_f32: "layout_size [f32] = 4"
  by (simp add: layout_defs)

lemma device_opcodes_distinct:
  assumes "ioctl_opcode op"
  shows "distinct (device_opcodes op)"
proof -
  have "op d g n s \<noteq> op d1 g1 n1 s1"
    if "s < 2 ^ 14" "s1 < 2 ^ 14" "(n, s) \<noteq> (n1, s1)" for d g n s d1 g1 n1 s1
    using ioctl_opcode.ioc_inj [OF assms that(1,2)] that(3) by blast
  then show ?thesis
    by (simp add: device_opcodes_def version_opcode_def write_read_opcode_def add_device_opcode_def
        set_context_mgr_opcode_def set_max_threads_opcode_def extended_error_opcode_def layout_size_f32)
qed

text \<open>Every return is recognised: with opcode functions that keep direction, group, number
  and size apart, the dispatch takes the arm of a return exactly for that return's code, also for
  the two transaction returns that share a number, no two commands have the same code, and the
  six calls of the device files are distinct, though two of them have direction and number in
  common.\<close>

theorem return_codes_decoded:
  assumes "ioctl_opcode op"
  shows "(match_return op v = Some r \<longleftrightarrow> v = return_code op r) \<and>
    (command_code op c = command_code op c1 \<longleftrightarrow> c = c1) \<and> distinct (device_opcodes op)"
  using device_opcodes_distinct [OF assms] ioctl_opcode.match_return_Some_iff [OF assms] ioctl_opcode.command_code_inj [OF assms]
  by auto

theorem return_codes_decoded_witness:
  "match_return linux_ioc 0x80407202 = Some BR_TRANSACTION \<and>
   match_return linux_ioc 0x80487202 = Some BR_TRANSACTION_SEC_CTX \<and>
   write_read_opcode linux_ioc \<noteq> add_device_opcode linux_ioc"
  using return_codes_decoded [OF linux.ioctl_opcode_axioms, of "0x80407202" BR_TRANSACTION]
    return_codes_decoded [OF linux.ioctl_opcode_axioms, of "0x80487202" BR_TRANSACTION_SEC_CTX]
  by (simp add: return_code_def linux_ioc_def device_opcodes_def)

section \<open>Commands\<close>

definition well_formed_log :: "'h binder_device \<Rightarrow> bool" where
  "well_formed_log d \<longleftrightarrow> (\<forall>ca \<in> set (sent d). well_formed_command ca)"

interpretation logged: driver_invariant well_formed_log well_formed_command
  by unfold_locales (auto simp: well_formed_log_def)

text \<open>C13: Every command is complete: as long as the handlers do the same, everything that calls,
  one-way calls and looper threads write to the kernel, in whatever the kernel answers, are
  commands followed by exactly as many argument bytes as their opcode declares; so the kernel
  never reads one command's argument as the next command.\<close>

theorem commands_carry_declared_bytes:
  assumes "handlers_keep well_formed_log E" and "well_formed_log (dev w)"
    and "transact_blocking E t c b w = Some (r, w1) \<or> transact_one_way E t c b w = Some (r1, w1) \<or>
      looper E s w = Some (r2, w1)"
  shows "\<forall>(cmd, a) \<in> set (sent (dev w1)). length (arg_bytes a) = snd (snd (command_spec cmd))"
proof -
  have "well_formed_log (dev w1)"
    using assms logged.kept_mains [OF assms(1)] by (metis keptD)
  then show ?thesis by (auto simp: well_formed_log_def well_formed_command_def)
qed

lemma demo_handlers: "handlers_keep I demo_env"
  by (simp add: handlers_keep_def demo_env_def kept_pure)

theorem commands_carry_declared_bytes_witness:
  "\<exists>w1. looper demo_env False (demo_world [Ioctl_Read False []]) = Some (Inr (), w1) \<and>
     list_all (\<lambda>(cmd, a). length (arg_bytes a) = snd (snd (command_spec cmd))) (sent (dev w1))"
proof -
  obtain w1 where w1: "looper demo_env False (demo_world [Ioctl_Read False []]) = Some (Inr (), w1)"
    by (simp add: looper_def looper_loop.simps binder_write_read_def call_kernel_def
        write_read_ioctl_def Let_def demo_world_def write_unwrapped_def on_dev_def kernel_ok_def
        demo_device_fields)
  have "well_formed_log (dev (demo_world [Ioctl_Read False []]))"
    by (simp add: well_formed_log_def demo_world_def demo_device_fields)
  from commands_carry_declared_bytes [OF demo_handlers this disjI2 [OF disjI2 [OF w1]]] w1
  show ?thesis by (auto simp: list_all_iff)
qed

end
