(* ===== verification/Bench_Echo.thy ===== *)
theory Bench_Echo
  imports Wire_Format
begin

text \<open>
  The echo services of the examples: the one of \<open>src/examples/bench.rs\<close>, with the
  message its client sends and the counters it keeps, and the one of
  \<open>src/examples/self_transaction.rs\<close>, which looks for the objects itself.

  A loop that pushes objects may not return if the alignment does not, so the results are
  options as those of the builder. The descriptor that stands for \<open>devnull\<close> and the upper
  half of a union that only its \<open>fd\<close> is written to are arguments.
\<close>

section \<open>The message of the benchmark\<close>

text \<open>\<open>[u32 refs][u32 fds][payload]\<close>, then the references, then the descriptors.\<close>

definition message_pushes :: "u32 \<Rightarrow> 'h binder_object \<Rightarrow> i32 \<Rightarrow> byte list \<Rightarrow> nat \<Rightarrow> nat \<Rightarrow>
    'h push_op list" where
  "message_pushes junk reply_obj devnull content nrefs nfds =
     [Push_Bytes (u32_bytes (word_of_nat nrefs)), Push_Bytes (u32_bytes (word_of_nat nfds)),
      Push_Bytes content] @
     replicate nrefs (Push_Binder junk (Send_Object reply_obj)) @
     replicate nfds (Push_Fd junk devnull 0)"

definition message :: "profile \<Rightarrow> u32 \<Rightarrow> 'h binder_object \<Rightarrow> i32 \<Rightarrow> byte list \<Rightarrow> nat \<Rightarrow> nat \<Rightarrow>
    ('h, 'h payload_builder option) dev_action" where
  "message pf junk reply_obj devnull content nrefs nfds =
     pushes pf (message_pushes junk reply_obj devnull content nrefs nfds) new_builder"

definition header_counts :: "byte list \<Rightarrow> u32 \<times> u32" where
  "header_counts bs = (if length bs < 8 then (0, 0)
     else (u32_of (take 4 bs), u32_of (take 4 (drop 4 bs))))"

section \<open>The echo of the benchmark\<close>

text \<open>The loops: the reader and the builder, and whether the loop ran to its end.\<close>

type_synonym 'h echo_state = "bool \<times> 'h payload_reader \<times> 'h payload_builder"

primrec echo_refs :: "profile \<Rightarrow> u32 \<Rightarrow> nat \<Rightarrow> 'h payload_reader \<Rightarrow> 'h payload_builder \<Rightarrow>
    ('h, 'h echo_state option) dev_action" where
  "echo_refs pf junk 0 r b = ret (Some (True, r, b))"
| "echo_refs pf junk (Suc n) r b = bind (read_binder_ref pf r) (\<lambda>res. case res of
     Inl e \<Rightarrow> ret (Some (False, r, b))
   | Inr (x, r1) \<Rightarrow> bind (push_binder_ref pf junk (Send_Erased x) b) (\<lambda>pushed. case pushed of
       None \<Rightarrow> ret None
     | Some b1 \<Rightarrow> bind (object_or_ref_drop pf x) (\<lambda>_. echo_refs pf junk n r1 b1)))"

primrec echo_fds :: "profile \<Rightarrow> u32 \<Rightarrow> nat \<Rightarrow> 'h payload_reader \<Rightarrow> 'h payload_builder \<Rightarrow>
    ('h, 'h echo_state option) dev_action" where
  "echo_fds pf junk 0 r b = ret (Some (True, r, b))"
| "echo_fds pf junk (Suc n) r b = bind (of_outcome (read_fd pf r)) (\<lambda>res. case res of
     Inl e \<Rightarrow> ret (Some (False, r, b))
   | Inr ((fd, ck), r1) \<Rightarrow> (case push_owned_fd junk fd ck b of
       None \<Rightarrow> ret None
     | Some b1 \<Rightarrow> echo_fds pf junk n r1 b1))"

definition echo_into :: "profile \<Rightarrow> u32 \<Rightarrow> 'h payload_reader \<Rightarrow> 'h payload_builder \<Rightarrow>
    ('h, ('h payload_reader \<times> 'h payload_builder) option) dev_action" where
  "echo_into pf junk r b =
     bind (of_outcome (bytes_until_next_obj pf r)) (\<lambda>block.
     bind (of_outcome (read_bytes pf block r)) (\<lambda>res. case res of
       Inl e \<Rightarrow> ret (Some (r, b))
     | Inr (bs, r1) \<Rightarrow>
         let (nrefs, nfds) = header_counts bs in
         bind (echo_refs pf junk (unat nrefs) r1 (push_bytes bs b)) (\<lambda>st. case st of
           None \<Rightarrow> ret None
         | Some (ok, r2, b2) \<Rightarrow>
             if \<not> ok then ret (Some (r2, b2))
             else bind (echo_fds pf junk (unat nfds) r2 b2)
               (\<lambda>st. ret (map_option snd st)))))"

section \<open>The service and its counters\<close>

definition ECHO_CODE :: u32 where "ECHO_CODE = 1"
definition STATS_CODE :: u32 where "STATS_CODE = 2"
definition RESET_CODE :: u32 where "RESET_CODE = 3"

text \<open>The counters are \<open>AtomicU64\<close>, whose \<open>fetch_add\<close> wraps.\<close>

record echo_service =
  one_way :: "64 word"
  one_way_bytes :: "64 word"

definition handle_echo :: "profile \<Rightarrow> u32 \<Rightarrow> echo_service \<Rightarrow> 'h transaction \<Rightarrow>
    ('h, (echo_service \<times> 'h payload_reader \<times> 'h payload_builder) option) dev_action" where
  "handle_echo pf junk s tx =
     (if tr_code tx = STATS_CODE then
        ret (Some (s, payload tx,
          push_bytes (u64_bytes (one_way_bytes s)) (push_bytes (u64_bytes (one_way s)) new_builder)))
      else if tr_code tx = RESET_CODE then
        ret (Some (s\<lparr>one_way := 0, one_way_bytes := 0\<rparr>, payload tx,
          push_bytes [111, 107] new_builder))
      else bind (echo_into pf junk (payload tx) new_builder)
        (\<lambda>st. ret (map_option (\<lambda>(r, b). (s, r, b)) st)))"

definition handle_echo_one_way :: "profile \<Rightarrow> echo_service \<Rightarrow> 'h payload_reader \<Rightarrow>
    echo_service outcome" where
  "handle_echo_one_way pf s r = bind_out (bytes_until_next_obj pf r) (\<lambda>n.
     Inr \<lparr>one_way = one_way s + 1, one_way_bytes = one_way_bytes s + word_of_nat n\<rparr>)"

text \<open>\<open>Client::service_stats\<close> on the reply it gets; a short reply is a panic of \<open>expect\<close>.\<close>

definition read_service_stats :: "profile \<Rightarrow> 'h payload_reader \<Rightarrow> (64 word \<times> 64 word) outcome" where
  "read_service_stats pf reply = bind_out (read_bytes pf 16 reply) (\<lambda>res. case res of
     Inl e \<Rightarrow> Inl Unwrap_Failed
   | Inr (bs, r) \<Rightarrow> Inr (u64_of (take 8 bs), u64_of (drop 8 bs)))"

section \<open>The echo of the self transaction example\<close>

partial_function (option) self_echo_loop :: "profile \<Rightarrow> u32 \<Rightarrow> 'h payload_reader \<Rightarrow>
    'h payload_builder \<Rightarrow> 'h binder_device \<Rightarrow>
    (('h payload_reader \<times> 'h payload_builder) outcome \<times> 'h binder_device) option" where
  "self_echo_loop pf junk r b d = (case bytes_until_next_obj pf r of
     Inl p \<Rightarrow> Some (Inl p, d)
   | Inr n \<Rightarrow>
       if n \<noteq> 0 then (case read_bytes pf n r of
           Inl p \<Rightarrow> Some (Inl p, d)
         | Inr (Inl e) \<Rightarrow> Some (Inr (r, b), d)
         | Inr (Inr (bs, r1)) \<Rightarrow> self_echo_loop pf junk r1 (push_bytes bs b) d)
       else (case next_object_type pf r of
           Inl p \<Rightarrow> Some (Inl p, d)
         | Inr ty \<Rightarrow>
             if ty \<in> {Some Type_BinderRef, Some Type_WeakBinderRef, Some Type_WeakBinderObject,
                 Some Type_BinderObject} then
               (case read_binder_ref pf r d of
                  (Inl p, d1) \<Rightarrow> Some (Inl p, d1)
                | (Inr (Inl e), d1) \<Rightarrow> Some (Inl Unwrap_Failed, d1)
                | (Inr (Inr (x, r1)), d1) \<Rightarrow>
                    (case push_binder_ref pf junk (Send_Erased x) b d1 of
                       (Inl p, d2) \<Rightarrow> Some (Inl p, d2)
                     | (Inr None, d2) \<Rightarrow> None
                     | (Inr (Some b1), d2) \<Rightarrow> (case object_or_ref_drop pf x d2 of
                          (Inl p, d3) \<Rightarrow> Some (Inl p, d3)
                        | (Inr u, d3) \<Rightarrow> self_echo_loop pf junk r1 b1 d3)))
             else if ty = Some Type_Fd then
               (case read_fd pf r of
                  Inl p \<Rightarrow> Some (Inl p, d)
                | Inr (Inl e) \<Rightarrow> Some (Inl Unwrap_Failed, d)
                | Inr (Inr ((fd, ck), r1)) \<Rightarrow> (case push_owned_fd junk fd ck b of
                     None \<Rightarrow> None
                   | Some b1 \<Rightarrow> self_echo_loop pf junk r1 b1 d))
             else Some (Inr (r, b), d)))"

text \<open>\<open>b"unknown transaction code"\<close>\<close>

definition unknown_code_reply :: "byte list" where
  "unknown_code_reply = map of_char ''unknown transaction code''"

definition handle_self_echo :: "profile \<Rightarrow> u32 \<Rightarrow> 'h transaction \<Rightarrow> 'h binder_device \<Rightarrow>
    (('h payload_reader \<times> 'h payload_builder) outcome \<times> 'h binder_device) option" where
  "handle_self_echo pf junk tx d =
     (if tr_code tx \<noteq> ECHO_CODE
      then Some (Inr (payload tx, push_bytes unknown_code_reply new_builder), d)
      else self_echo_loop pf junk (payload tx) new_builder d)"

section \<open>Readers of a message\<close>

lemma padding_8_multiple: "n mod 8 = 0 \<Longrightarrow> padding 8 n = 0"
  by (simp add: padding_def)

lemma padded_multiple [simp]: "(n + padding 8 n) mod 8 = 0"
  by (rule padding_multiple) simp

fun is_object :: "'h item \<Rightarrow> bool" where
  "is_object (It_Bytes bs) = False"
| "is_object it = True"

text \<open>The padding before an object belongs to the block of bytes before it.\<close>

lemma lay_padded:
  assumes "is_object it"
  shows "lay_bytes k (it # its) = replicate (padding 8 k) 0 @ lay_bytes (k + padding 8 k) (it # its)"
    and "lay_offsets k (it # its) = lay_offsets (k + padding 8 k) (it # its)"
  using assms by (cases it; simp add: padding_8_multiple)+

lemma until_next_is_block:
  assumes "unread (It_Bytes bs # its) r" and "bs \<noteq> []"
    and "its = [] \<or> (\<exists>it its1. its = it # its1 \<and> is_object it \<and> (next_data_index r + length bs) mod 8 = 0)"
  shows "bytes_until_next_obj pf r = Inr (length bs)"
proof -
  obtain pre opre v where u: "items (pr_data r) = pre @ bs @ lay_bytes (length pre + length bs) its"
    "pr_offsets r = Some v" "items v = opre @ lay_offsets (length pre + length bs) its"
    "\<forall>off \<in> set opre. off < length pre" "next_data_index r = length pre"
    using assms(1) by (auto simp: unread_def)
  have old: "\<forall>x \<in> set opre. \<not> length pre < x" using u(4) by auto
  show ?thesis
  proof (cases its)
    case Nil
    then have "find (\<lambda>off. length pre < off) (items v) = None"
      using u(3) old by (auto simp: find_None_iff)
    with u Nil show ?thesis by (simp add: bytes_until_next_obj_def Let_def)
  next
    case (Cons it its1)
    with assms(3) u(5) have it: "is_object it" "(length pre + length bs) mod 8 = 0" by auto
    then have offs: "lay_offsets (length pre + length bs) its = (length pre + length bs) #
        lay_offsets (length pre + length bs + 24) its1"
      using Cons by (cases it) (simp_all add: padding_8_multiple)
    have "find (\<lambda>off. length pre < off) (items v) = Some (length pre + length bs)"
      unfolding u(3) find_skip [where P = "\<lambda>off. length pre < off", OF old] offs using assms(2) by simp
    with u show ?thesis by (simp add: bytes_until_next_obj_def Let_def)
  qed
qed

section \<open>Echoing objects and descriptors\<close>

text \<open>An object of this process, known by its id.\<close>

definition local_item :: "binder_object_id \<Rightarrow> 'h item \<Rightarrow> bool" where
  "local_item i it \<longleftrightarrow> (\<exists>j b. it = It_Object j (Object b) \<and> bbo_id b = i)"

lemma local_item_is_object: "local_item i it \<Longrightarrow> is_object it"
  by (auto simp: local_item_def)

lemma local_item_layout:
  assumes "local_item i it" and "local_item i it1"
  shows "lay_bytes k (it # its) = lay_bytes k (it1 # its)"
    "lay_offsets k (it # its) = lay_offsets k (it1 # its)"
  using assms by (auto simp: local_item_def get_flat_binder_object_def)

lemma extended_by_nil: "extended_by b [] b"
  by (simp add: extended_by_def)

lemma extended_by_Cons:
  "extended_by b [it] b1 \<Longrightarrow> extended_by b1 its c \<Longrightarrow> extended_by b (it # its) c"
  using lay_bytes_Cons [of _ it its] lay_offsets_Cons [of _ it its]
  by (simp add: extended_by_def)

lemma extended_by_append:
  "extended_by b its b1 \<Longrightarrow> extended_by b1 its1 c \<Longrightarrow> extended_by b (its @ its1) c"
proof (induction its arbitrary: b)
  case Nil
  then show ?case by (simp add: extended_by_def)
next
  case (Cons it its)
  let ?b = "b\<lparr>pb_data := pb_data b @ lay_bytes (length (pb_data b)) [it],
    obj_offsets := obj_offsets b @ lay_offsets (length (pb_data b)) [it]\<rparr>"
  have first: "extended_by b [it] ?b" by (simp add: extended_by_def)
  have "extended_by ?b its b1"
    using Cons.prems(1) lay_bytes_Cons [of "length (pb_data b)" it its]
      lay_offsets_Cons [of "length (pb_data b)" it its]
    by (simp add: extended_by_def)
  from extended_by_Cons [OF first Cons.IH [OF this Cons.prems(2)]] show ?case by simp
qed

lemma push_bytes_extended: "extended_by b [It_Bytes bs] (push_bytes bs b)"
  by (simp add: extended_by_def push_bytes_def)

lemma push_owned_fd_extended:
  "\<exists>c. push_owned_fd junk fd ck b = Some c \<and> extended_by b [It_Fd junk fd ck] c \<and>
     owned_fds c = owned_fds b @ [fd]"
  by (simp add: push_owned_fd_def align_eq extended_by_def append_object_def)

lemma push_local_extended:
  assumes "push_binder_ref pf junk (Send_Erased (Object x)) b d = (Inr pushed, d1)"
    and "local_item (bbo_id x) it"
  shows "\<exists>c. pushed = Some c \<and> extended_by b [it] c \<and> owned_fds c = owned_fds b"
proof -
  obtain port c where c: "pushed = Some c" "owned_fds c = owned_fds b"
    using assms(1) by (auto simp: push_binder_ref_def align_eq append_object_def elim!: bind_Inr_cases)
  have "push_step pf (Push_Binder junk (Send_Erased (Object x))) b d = (Inr (Some c), d1)"
    using assms(1) c(1) by simp
  from push_step_item [OF _ this] obtain it1 where
    it1: "carries (Push_Binder junk (Send_Erased (Object x))) it1" "extended_by b [it1] c"
    by (auto simp del: carries.simps)
  then have "local_item (bbo_id x) it1"
    by (auto simp: local_item_def split: item.splits elim: same_target.elims)
  then have "extended_by b [it] c"
    using it1(2) local_item_layout [OF assms(2)] by (simp add: extended_by_def)
  with c show ?thesis by blast
qed

text \<open>A handler stays registered whatever is read, pushed or dropped.\<close>

interpretation handler: driver_invariant "\<lambda>d. objects d i = Some h" "\<lambda>ca. True" for i h
  by unfold_locales simp_all

lemmas handler_kept = handler.borrowed_from_id handler.sendables(2) handler.object_or_refs(1)

lemma borrowed_from_id_registered:
  assumes "objects d i = Some h" and "borrowed_from_id pf i d = (Inr ob, d1)"
  shows "\<exists>b. ob = Some b \<and> bbo_id b = i"
  using assms by (auto simp: borrowed_from_id_def get_handler_def elim!: bind_Inr_cases)

lemma bind_Inr: "m s = (Inr x, t) \<Longrightarrow> bind m f s = f x t"
  by (simp add: bind_def)

lemma echo_refs_unread:
  assumes "unread (os @ its) r" and "list_all (local_item i) os" and "objects d i = Some h"
    and "echo_refs pf junk (length os) r b d = (Inr res, d1)"
  shows "\<exists>r1 b1. res = Some (True, r1, b1) \<and> unread its r1 \<and> extended_by b os b1 \<and>
    owned_fds b1 = owned_fds b"
  using assms
proof (induction os arbitrary: r b d)
  case Nil
  then show ?case by (auto simp: extended_by_nil)
next
  case (Cons it os)
  then obtain j x where it: "it = It_Object j (Object x)" "bbo_id x = i" and loc: "local_item i it"
    by (auto simp: local_item_def)
  obtain r1 where r1: "unread (os @ its) r1"
    and rd: "read_binder_ref pf r = bind (recover pf (Object x))
      (\<lambda>res. case res of Inl e \<Rightarrow> ret (Inl e) | Inr y \<Rightarrow> ret (Inr (y, r1)))"
    using Cons.prems(1) it by (auto elim: unread_binder)
  obtain ob d2 where bf: "borrowed_from_id pf i d = (Inr ob, d2)"
    using Cons.prems(4) it by (auto simp: rd recover_def elim!: bind_Inr_cases)
  then obtain y where y: "ob = Some y" "bbo_id y = i"
    using borrowed_from_id_registered [OF Cons.prems(3)] by blast
  have h2: "objects d2 i = Some h" using keepsD [OF handler_kept(1) Cons.prems(3) bf] .
  have "read_binder_ref pf r d = (Inr (Inr (Object y, r1)), d2)"
    using bf y it by (simp add: rd recover_def bind_def)
  then have "bind (push_binder_ref pf junk (Send_Erased (Object y)) b) (\<lambda>pushed. case pushed of
      None \<Rightarrow> ret None
    | Some b1 \<Rightarrow> bind (object_or_ref_drop pf (Object y)) (\<lambda>_. echo_refs pf junk (length os) r1 b1)) d2 =
      (Inr res, d1)"
    using Cons.prems(4) by (simp add: bind_Inr)
  then obtain pushed d3 where
    push: "push_binder_ref pf junk (Send_Erased (Object y)) b d2 = (Inr pushed, d3)"
    and rest: "(case pushed of None \<Rightarrow> ret None | Some b1 \<Rightarrow>
      bind (object_or_ref_drop pf (Object y)) (\<lambda>_. echo_refs pf junk (length os) r1 b1)) d3 = (Inr res, d1)"
    by (rule bind_Inr_cases)
  obtain c where c: "pushed = Some c" "extended_by b [it] c" "owned_fds c = owned_fds b"
    using push_local_extended [OF push] loc y(2) by blast
  have h3: "objects d3 i = Some h" using keepsD [OF handler_kept(2) h2 push] .
  from rest c(1) obtain u d4 where drop: "object_or_ref_drop pf (Object y) d3 = (Inr u, d4)"
    and rest: "echo_refs pf junk (length os) r1 c d4 = (Inr res, d1)"
    by (auto elim: bind_Inr_cases)
  have "objects d4 i = Some h" using keepsD [OF handler_kept(3) h3 drop] .
  with Cons.IH [OF r1 _ _ rest] Cons.prems(2) c show ?case by (auto intro: extended_by_Cons)
qed

definition fd_item :: "u32 \<Rightarrow> 'h item \<Rightarrow> bool" where
  "fd_item junk it \<longleftrightarrow> (\<exists>fd ck. it = It_Fd junk fd ck)"

lemma echo_fds_unread:
  assumes "unread (fs @ its) r" and "list_all (fd_item junk) fs"
  shows "\<exists>r1 b1. echo_fds pf junk (length fs) r b d = (Inr (Some (True, r1, b1)), d) \<and>
    unread its r1 \<and> extended_by b fs b1 \<and> length (owned_fds b1) = length (owned_fds b) + length fs"
  using assms
proof (induction fs arbitrary: r b)
  case Nil
  then show ?case by (simp add: extended_by_nil ret_def)
next
  case (Cons it fs)
  then obtain fd ck where it: "it = It_Fd junk fd ck" by (auto simp: fd_item_def)
  obtain r1 where r1: "read_fd pf r = Inr (Inr ((fd, ck), r1))" "unread (fs @ its) r1"
    using Cons.prems(1) it unread_fd by fastforce
  obtain c where c: "push_owned_fd junk fd ck b = Some c" "extended_by b [it] c"
    "owned_fds c = owned_fds b @ [fd]"
    using push_owned_fd_extended it by blast
  have "echo_fds pf junk (length (it # fs)) r b d = echo_fds pf junk (length fs) r1 c d"
    using r1(1) c(1) by (simp add: bind_def of_outcome_def)
  with Cons.IH [OF r1(2), of c] Cons.prems(2) c show ?case
    by (auto intro: extended_by_Cons)
qed

section \<open>The echo returns the message\<close>

lemma message_items:
  fixes ob :: "'h binder_object"
  assumes "message pf junk ob devnull content nrefs nfds d0 = (Inr (Some b), d1)"
  obtains os where "pb_data b = lay_bytes 0 ([It_Bytes (u32_bytes (word_of_nat nrefs)),
      It_Bytes (u32_bytes (word_of_nat nfds)), It_Bytes content] @ os @
      replicate nfds (It_Fd junk devnull 0))"
    and "obj_offsets b = lay_offsets 0 ([It_Bytes (u32_bytes (word_of_nat nrefs)),
      It_Bytes (u32_bytes (word_of_nat nfds)), It_Bytes content] @ os @
      replicate nfds (It_Fd junk devnull 0))"
    and "length (os :: 'h item list) = nrefs" and "list_all (local_item (bo_id ob)) os"
proof -
  have "list_all plain (message_pushes junk ob devnull content nrefs nfds)"
    by (auto simp: message_pushes_def list_all_iff)
  then obtain its where its: "list_all2 carries (message_pushes junk ob devnull content nrefs nfds) its"
    "extended_by new_builder its b"
    using pushes_items assms unfolding message_def by blast
  obtain os fs where split: "its = [It_Bytes (u32_bytes (word_of_nat nrefs)),
      It_Bytes (u32_bytes (word_of_nat nfds)), It_Bytes content] @ os @ fs"
    and os: "list_all2 carries (replicate nrefs (Push_Binder junk (Send_Object ob))) os"
    and fs: "list_all2 carries (replicate nfds (Push_Fd junk devnull 0)) fs"
    using its(1) by (auto simp: message_pushes_def list_all2_Cons1 list_all2_append1)
  have carried: "local_item (bo_id ob) it" if "carries (Push_Binder junk (Send_Object ob)) it" for it
    using that by (auto simp: local_item_def split: item.splits elim: same_target.elims)
  have "list_all (local_item (bo_id ob)) os"
    using os carried by (auto simp: list_all2_conv_all_nth list_all_length)
  moreover have "fs = replicate nfds (It_Fd junk devnull 0)"
    using fs by (intro nth_equalityI) (auto simp: list_all2_conv_all_nth)
  moreover have "length os = nrefs" using os list_all2_lengthD by fastforce
  ultimately show ?thesis
    using that [of os] its(2) split by (simp add: extended_by_def new_builder_def)
qed

lemma dup_items_append:
  "dup_items junk dup n (map It_Bytes bss @ its) = bind_out (dup_items junk dup n its)
     (\<lambda>its1. Inr (map It_Bytes bss @ its1))"
  by (induction bss) (auto simp: bind_out_def split: sum.split)

lemma dup_items_local:
  assumes "list_all (local_item i) os"
  shows "dup_items junk dup n (os @ its) = bind_out (dup_items junk dup n its) (\<lambda>its1. Inr (os @ its1))"
  using assms
  by (induction os) (auto simp: local_item_def bind_out_def split: sum.split)

lemma dup_items_fds:
  assumes "dup_items junk dup n (replicate k (It_Fd j fd ck)) = Inr fs"
  shows "length fs = k \<and> list_all (fd_item junk) fs"
  using assms
proof (induction k arbitrary: n fs)
  case (Suc k)
  then show ?case by (auto simp: bind_out_eq_Inr fd_item_def split: option.splits)
qed simp

lemma dup_message_items:
  assumes "dup_items junk dup 0 ([It_Bytes a, It_Bytes b, It_Bytes c] @ os @
      replicate n (It_Fd junk fd ck)) = Inr its1" and "list_all (local_item i) os"
  obtains fs where "its1 = [It_Bytes a, It_Bytes b, It_Bytes c] @ os @ fs"
    and "length fs = n" and "list_all (fd_item junk) fs"
proof -
  from assms(1) obtain fs where eq: "its1 = [It_Bytes a, It_Bytes b, It_Bytes c] @ os @ fs"
    and fs: "dup_items junk dup 0 (replicate n (It_Fd junk fd ck)) = Inr fs"
    by (auto simp: bind_out_eq_Inr dup_items_local [OF assms(2)])
  show ?thesis using dup_items_fds [OF fs] by (intro that [OF eq]) simp_all
qed

lemma block_aligned:
  assumes "length a = 4" and "length b = 4" and "its \<noteq> []"
  shows "length (a @ b @ c @ (if its = [] then []
    else replicate (padding 8 (length a + length b + length c)) (0 :: byte))) mod 8 = 0"
  using assms padded_multiple [of "8 + length c"] by (simp add: add.assoc del: padded_multiple)

text \<open>The bytes up to the first object, padding included, as one block.\<close>

lemma merge_block:
  fixes a b c :: "byte list"
  assumes "list_all is_object its"
  defines "pad \<equiv> (if its = [] then [] else replicate (padding 8 (length a + length b + length c)) 0)"
  shows "lay_bytes 0 ([It_Bytes a, It_Bytes b, It_Bytes c] @ its) =
      lay_bytes 0 (It_Bytes (a @ b @ c @ pad) # its)"
    and "lay_offsets 0 ([It_Bytes a, It_Bytes b, It_Bytes c] @ its) =
      lay_offsets 0 (It_Bytes (a @ b @ c @ pad) # its)"
proof -
  show "lay_bytes 0 ([It_Bytes a, It_Bytes b, It_Bytes c] @ its) =
      lay_bytes 0 (It_Bytes (a @ b @ c @ pad) # its)"
    using assms lay_padded(1) [of "hd its" "length a + length b + length c" "tl its"]
    by (cases its) (auto simp: pad_def add.assoc)
  show "lay_offsets 0 ([It_Bytes a, It_Bytes b, It_Bytes c] @ its) =
      lay_offsets 0 (It_Bytes (a @ b @ c @ pad) # its)"
    using assms lay_padded(2) [of "hd its" "length a + length b + length c" "tl its"]
    by (cases its) (auto simp: pad_def add.assoc)
qed

lemma u32_bytes_not_Nil: "u32_bytes v \<noteq> []"
  using u32_codec.enc_width [of v] by fastforce

lemma header_counts_message:
  assumes "nrefs < 2 ^ 32" and "nfds < 2 ^ 32"
  shows "header_counts (u32_bytes (word_of_nat nrefs) @ u32_bytes (word_of_nat nfds) @ rest) =
    (word_of_nat nrefs, word_of_nat nfds)"
proof -
  have "u32_of (u32_bytes v @ xs) = v" for v xs by (rule u32_codec.dec_enc)
  from this [where xs = "[]"] show ?thesis by (simp add: header_counts_def)
qed

lemma from_builder_reader:
  assumes "pb_data b = lay_bytes 0 its" and "obj_offsets b = lay_offsets 0 its"
    and "data_buffer_len b < 2 ^ 64" and "from_builder pf junk dup b d = (Inr r, d1)"
  obtains its1 where "dup_items junk dup 0 its = Inr its1" and "pr_data r = Owned (lay_bytes 0 its1)"
    and "pr_offsets r = Some (Owned (lay_offsets 0 its1))" and "next_offset_index r = 0"
    and "next_data_index r = 0" and "lay_offsets 0 its1 = obj_offsets b"
    and "length (lay_bytes 0 its1) < 2 ^ 64"
proof -
  have laid: "dup_fds pf junk dup 0 (lay_offsets 0 its) (lay_bytes 0 its) =
      bind_out (dup_items junk dup 0 its) (\<lambda>its1. Inr (lay_bytes 0 its1))"
    using dup_fds_laid [of "[]" its] assms(1,3) by (simp add: data_buffer_len_def)
  obtain its1 where its1: "dup_items junk dup 0 its = Inr its1"
    and r: "pr_data r = Owned (lay_bytes 0 its1)" "pr_offsets r = Some (Owned (lay_offsets 0 its))"
      "next_offset_index r = 0" "next_data_index r = 0"
    using assms(4) by (auto simp: from_builder_def laid assms(1,2) bind_out_eq_Inr elim!: bind_Inr_cases)
  from that [OF its1] r dup_items_kinds [OF its1, of 0] dup_items_length [OF its1, of 0] assms(1-3)
  show ?thesis by (simp add: data_buffer_len_def)
qed

lemma bind_outcome: "bind (of_outcome (Inr x)) f = f x"
  by (simp add: bind_def of_outcome_def fun_eq_iff)

lemma echo_into_block:
  assumes "bytes_until_next_obj pf r = Inr n" and "read_bytes pf n r = Inr (Inr (block, r1))"
    and "header_counts block = (word_of_nat nrefs, word_of_nat nfds)"
    and "nrefs < 2 ^ 32" and "nfds < 2 ^ 32"
  shows "echo_into pf junk r b = bind (echo_refs pf junk nrefs r1 (push_bytes block b)) (\<lambda>st. case st of
      None \<Rightarrow> ret None
    | Some (ok, r2, b2) \<Rightarrow> if \<not> ok then ret (Some (r2, b2))
        else bind (echo_fds pf junk nfds r2 b2) (\<lambda>st. ret (map_option snd st)))"
proof -
  have "unat (word_of_nat nrefs :: u32) = nrefs" "unat (word_of_nat nfds :: u32) = nfds"
    using assms(4,5) by (simp_all add: unsigned_of_nat take_bit_eq_mod)
  with assms(1-3) show ?thesis
    by (simp add: echo_into_def bind_outcome cong del: option.case_cong_weak if_weak_cong)
qed


section \<open>The counters\<close>

text \<open>The one-way transactions a service handled, one after the other.\<close>

primrec handle_all_one_way :: "profile \<Rightarrow> echo_service \<Rightarrow> 'h payload_reader list \<Rightarrow>
    echo_service outcome" where
  "handle_all_one_way pf s [] = Inr s"
| "handle_all_one_way pf s (r # rs) =
     bind_out (handle_echo_one_way pf s r) (\<lambda>s1. handle_all_one_way pf s1 rs)"

lemma handle_all_one_way_counts:
  assumes "list_all2 (\<lambda>r n. bytes_until_next_obj pf r = Inr n) rs ns"
  shows "handle_all_one_way pf s rs = Inr \<lparr>one_way = one_way s + word_of_nat (length ns),
    one_way_bytes = one_way_bytes s + word_of_nat (sum_list ns)\<rparr>"
  using assms
proof (induction arbitrary: s rule: list_all2_induct)
  case Nil
  then show ?case by simp
next
  case (Cons r rs n ns)
  then show ?case by (simp add: handle_echo_one_way_def algebra_simps)
qed

lemma bytes_reply:
  assumes "from_builder pf junk dup (push_bytes bs new_builder) d = (Inr r, d1)"
  shows "pr_data r = Owned bs" "pr_offsets r = Some (Owned [])" "next_data_index r = 0"
  using assms by (auto simp: from_builder_def push_bytes_def new_builder_def bind_def of_outcome_def)

text \<open>The counters count: after a reset and any number of one-way transactions, a \<open>STATS_CODE\<close>
  call decoded by \<open>service_stats\<close> reports how many were handled and the total of their leading
  bytes, each modulo 2 to the 64, and changes neither.\<close>

theorem stats_report_one_way_traffic:
  assumes "tr_code rtx = RESET_CODE"
    and "handle_echo pf junk s0 rtx d0 = (Inr (Some (s1, r1, b1)), d1)"
    and "list_all2 (\<lambda>r n. bytes_until_next_obj pf r = Inr n) rs ns"
    and "handle_all_one_way pf s1 rs = Inr s2" and "tr_code stx = STATS_CODE"
    and "handle_echo pf junk s2 stx d2 = (Inr (Some (s3, r3, b3)), d3)"
    and "from_builder pf junk dup b3 d4 = (Inr reply, d5)"
  shows "read_service_stats pf reply = Inr (word_of_nat (length ns), word_of_nat (sum_list ns)) \<and>
    s3 = s2"
proof -
  have s1: "one_way s1 = 0" "one_way_bytes s1 = 0"
    using assms(1,2) by (auto simp: handle_echo_def RESET_CODE_def STATS_CODE_def)
  have s2: "s2 = \<lparr>one_way = word_of_nat (length ns), one_way_bytes = word_of_nat (sum_list ns)\<rparr>"
    using assms(4) s1 by (simp add: handle_all_one_way_counts [OF assms(3)])
  have s3: "s3 = s2" and b3: "b3 = push_bytes (u64_bytes (one_way s2) @ u64_bytes (one_way_bytes s2)) new_builder"
    using assms(5,6) by (auto simp: handle_echo_def push_bytes_def)
  note r = bytes_reply [OF assms(7) [unfolded b3]]
  have "read_bytes pf 16 reply = Inr (Inr (u64_bytes (one_way s2) @ u64_bytes (one_way_bytes s2),
      reply\<lparr>next_data_index := 16\<rparr>))"
    using r by (subst read_bytes_ok) simp_all
  then show ?thesis
    using s2 s3 by (simp add: read_service_stats_def u64_codec.dec_exact)
qed

section \<open>The echo that looks for objects\<close>

text \<open>A reader of one object of this process and nothing else, and its states.\<close>

definition lone_reader :: "flat_binder_object \<Rightarrow> 'h binder_object_or_ref list \<Rightarrow> nat \<Rightarrow> nat \<Rightarrow>
    'h payload_reader" where
  "lone_reader f objs k i = \<lparr>pr_data = Owned (enc_flat f), pr_offsets = Some (Owned [0]),
     pr_binder_objects = objs, next_offset_index = k, next_data_index = i\<rparr>"

lemma lone_reader_bytes:
  "bytes_until_next_obj pf (lone_reader f objs k 0) = Inr 24"
  "read_bytes pf 24 (lone_reader f objs k 0) = Inr (Inr (enc_flat f, lone_reader f objs k 24))"
  "bytes_until_next_obj pf (lone_reader f objs k 24) = Inr 0"
  "next_object_type pf (lone_reader f objs (Suc 0) 24) = Inr None"
proof -
  show "read_bytes pf 24 (lone_reader f objs k 0) = Inr (Inr (enc_flat f, lone_reader f objs k 24))"
    by (subst read_bytes_ok) (auto simp: lone_reader_def)
qed (simp_all add: bytes_until_next_obj_def lone_reader_def next_object_type_def current_offset_def)

lemma lone_reader_next:
  "next_offset_index (lone_reader f objs k i) = k"
  "(lone_reader f objs k i)\<lparr>next_offset_index := k1, next_data_index := i1\<rparr> = lone_reader f objs k1 i1"
  by (simp_all add: lone_reader_def)

lemma lone_reader_object:
  "next_object_type pf (lone_reader (get_flat_binder_object j (Object x)) objs 0 24) =
     Inr (Some Type_BinderObject)"
  "read_binder_ref pf (lone_reader (get_flat_binder_object j (Object x)) objs 0 24) =
     bind (recover pf (Object x)) (\<lambda>res. case res of Inl e \<Rightarrow> ret (Inl e)
       | Inr y \<Rightarrow> ret (Inr (y, lone_reader (get_flat_binder_object j (Object x)) objs 1 24)))"
proof -
  let ?f = "get_flat_binder_object j (Object x)"
  have at: "current_offset (lone_reader ?f objs 0 24) = Some 0"
    "data_at pf (lone_reader ?f objs 0 24) 0 4 = Inr (take 4 (enc_flat ?f))"
    "data_at pf (lone_reader ?f objs 0 24) 0 24 = Inr (enc_flat ?f)"
    by (simp_all add: current_offset_def lone_reader_def data_at_def)
  have ty: "hdr_type ?f = BINDER" by (simp add: get_flat_binder_object_def)
  then show "next_object_type pf (lone_reader ?f objs 0 24) = Inr (Some Type_BinderObject)"
    using at by (simp add: next_object_type_def object_type_of_def)
  show "read_binder_ref pf (lone_reader ?f objs 0 24) =
     bind (recover pf (Object x)) (\<lambda>res. case res of Inl e \<Rightarrow> ret (Inl e)
       | Inr y \<Rightarrow> ret (Inr (y, lone_reader ?f objs 1 24)))"
    using at ty
    by (intro ext) (auto simp: read_binder_ref_def bind_outcome flat_codec.dec_exact resolve_sent
        lone_reader_next bind_def split: prod.split sum.split)
qed

text \<open>The self-transaction echo garbles objects it meets at the cursor: an object that is the
  whole payload comes back twice, first as 24 raw bytes and then as an object at offset 24, because
  \<open>bytes_until_next_obj\<close> looks strictly past the cursor.\<close>

theorem self_echo_duplicates_object:
  fixes ob :: "'h binder_object"
  assumes "pushes pf [Push_Binder junk (Send_Object ob)] new_builder d0 = (Inr (Some b), d1)"
    and "from_builder pf junk dup b d2 = (Inr r, d3)" and "objects d3 (bo_id ob) = Some h"
    and "self_echo_loop pf junk r new_builder d3 = Some (Inr (r1, b1), d4)"
  shows "obj_offsets b = [0] \<and> pb_data b1 = pb_data b @ pb_data b \<and> obj_offsets b1 = [24]"
proof -
  obtain its where its: "list_all2 carries [Push_Binder junk (Send_Object ob)] its"
    and ext: "extended_by new_builder (its :: 'h item list) b"
    using pushes_items [OF _ assms(1)] by auto
  then obtain it where it: "its = [it]" "carries (Push_Binder junk (Send_Object ob)) it"
    by (auto simp: list_all2_Cons1)
  then obtain j y where "its = [It_Object j y]" "same_target (Send_Object ob) y"
    by (cases it) simp_all
  then obtain x where x: "its = [It_Object j (Object x)]" "bbo_id x = bo_id ob"
    by (cases y) auto
  let ?f = "get_flat_binder_object j (Object x)"
  have b: "pb_data b = enc_flat ?f" "obj_offsets b = [0]"
    using ext x by (simp_all add: extended_by_def new_builder_def padding_def)
  obtain objs where r: "r = lone_reader ?f objs 0 0"
  proof -
    have "dup_fds pf junk dup 0 [0] (enc_flat ?f) = Inr (enc_flat ?f)"
      using dup_fds_flat [of "[]" 0 pf junk dup 0 "[]" j "Object x" "[]"] by simp
    with assms(2) b that show thesis
      by (auto simp: from_builder_def bind_outcome lone_reader_def elim!: bind_Inr_cases)
  qed
  have loop: "self_echo_loop pf junk (lone_reader ?f objs 0 24) (push_bytes (enc_flat ?f) new_builder) d3 =
      Some (Inr (r1, b1), d4)"
    using assms(4) unfolding r by (subst (asm) self_echo_loop.simps) (simp add: lone_reader_bytes)
  obtain got dg where bf: "borrowed_from_id pf (bo_id ob) d3 = (got, dg)" by fastforce
  show ?thesis
  proof (cases got)
    case (Inl p)
    then have "read_binder_ref pf (lone_reader ?f objs 0 24) d3 = (Inl p, dg)"
      using bf x(2) by (simp add: lone_reader_object recover_def bind_def)
    with loop show ?thesis
      by (subst (asm) self_echo_loop.simps) (simp add: lone_reader_bytes lone_reader_object(1))
  next
    case (Inr o1)
    then obtain y where y: "o1 = Some y" "bbo_id y = bo_id ob"
      using borrowed_from_id_registered [OF assms(3)] bf by blast
    have rd: "read_binder_ref pf (lone_reader ?f objs 0 24) d3 =
        (Inr (Inr (Object y, lone_reader ?f objs 1 24)), dg)"
      using bf Inr y x(2) by (simp add: lone_reader_object recover_def bind_def)
    obtain pushed d5 where push: "push_binder_ref pf junk (Send_Erased (Object y))
        (push_bytes (enc_flat ?f) new_builder) dg = (pushed, d5)" by fastforce
    obtain c where c: "pushed = Inr (Some c)"
      and ext: "extended_by (push_bytes (enc_flat ?f) new_builder) [It_Object j (Object x)] c"
    proof (cases pushed)
      case (Inl p)
      with loop rd push show ?thesis
        by (subst (asm) self_echo_loop.simps) (simp add: lone_reader_bytes lone_reader_object(1))
    next
      case (Inr po)
      have "local_item (bbo_id y) (It_Object j (Object x))"
        using x(2) y(2) by (simp add: local_item_def)
      with push_local_extended [OF push [unfolded Inr]] that Inr show ?thesis by blast
    qed
    obtain u d6 where drop: "object_or_ref_drop pf (Object y) d5 = (u, d6)" by fastforce
    have last: "self_echo_loop pf junk (lone_reader ?f objs 1 24) c d6 =
        Some (Inr (lone_reader ?f objs 1 24, c), d6)"
      by (subst self_echo_loop.simps) (simp add: lone_reader_bytes)
    have "b1 = c"
      using loop rd push c drop last
      by (cases u; subst (asm) self_echo_loop.simps)
        (simp_all add: lone_reader_bytes lone_reader_object(1))
    with ext b show ?thesis
      by (simp add: extended_by_def push_bytes_def new_builder_def padding_def)
  qed
qed

section \<open>The properties on concrete inputs\<close>

definition demo_reply_object :: "unit binder_object" where
  "demo_reply_object = \<lparr>bo_id = demo_id, bo_handler = ()\<rparr>"

text \<open>The device of the example with \<open>n\<close> local references to its object.\<close>

definition demo_counted :: "u32 \<Rightarrow> unit binder_device" where
  "demo_counted n = demo_device\<lparr>object_refcounts := [demo_id \<mapsto> \<lparr>ors_id = demo_id,
     counts = \<lparr>local = n, remote = 0, pending = 0\<rparr>, poisoned = False, strong_count = n\<rparr>]\<rparr>"

lemma demo_counted_objects: "objects (demo_counted n) = [demo_id \<mapsto> ()]"
  by (simp add: demo_counted_def demo_device_fields)

lemma demo_counted_0: "demo_device = demo_counted 0"
  using demo_device_fields(1) by (simp add: demo_counted_def new_ref_state_def zero_counts_def)

lemma demo_count:
  assumes "n < 100"
  shows "with_refstate demo_id (increase_local Checked) (demo_counted n) = (Inr True, demo_counted (n + 1))"
    "with_refstate demo_id (decrease_local Checked) (demo_counted (n + 1)) = (Inr True, demo_counted n)"
proof -
  have "unat n < 100" using assms by (simp add: word_less_nat_alt)
  then have "unat (n + 1) = unat n + 1" by (simp add: unat_word_ariths)
  then show "with_refstate demo_id (increase_local Checked) (demo_counted n) = (Inr True, demo_counted (n + 1))"
    "with_refstate demo_id (decrease_local Checked) (demo_counted (n + 1)) = (Inr True, demo_counted n)"
    using \<open>unat n < 100\<close>
    by (simp_all add: with_refstate_def demo_counted_def increase_local_def decrease_local_def update_def
        add_checked_def sub_checked_def total_def word_less_nat_alt)
qed

definition demo_borrowed_object :: "unit binder_object_or_ref" where
  "demo_borrowed_object = Object \<lparr>bbo_id = demo_id, bbo_handler = (), increased_local_ref = True\<rparr>"

lemma demo_object_operations:
  assumes "n < 100"
  shows "to_binder_object_or_ref Checked (Send_Object demo_reply_object) (demo_counted n) =
      (Inr demo_borrowed_object, demo_counted (n + 1))"
    "to_binder_object_or_ref Checked (Send_Erased demo_borrowed_object) (demo_counted n) =
      (Inr demo_borrowed_object, demo_counted (n + 1))"
    "object_or_ref_clone Checked demo_borrowed_object (demo_counted n) =
      (Inr demo_borrowed_object, demo_counted (n + 1))"
    "recover Checked demo_borrowed_object (demo_counted n) =
      (Inr (Inr demo_borrowed_object), demo_counted (n + 1))"
    "object_or_ref_drop Checked demo_borrowed_object (demo_counted (n + 1)) = (Inr (), demo_counted n)"
  using demo_count [OF assms]
  by (simp_all add: to_binder_object_or_ref_def object_to_object_or_ref_def demo_reply_object_def
      demo_borrowed_object_def object_or_ref_clone_def borrowed_clone_def recover_def
      borrowed_from_id_def get_handler_def demo_counted_objects object_or_ref_drop_def
      borrowed_drop_def bind_def)

text \<open>A builder that holds \<open>bs\<close>, of a length that is a multiple of eight, then the object.\<close>

definition demo_object_builder :: "byte list \<Rightarrow> unit payload_builder" where
  "demo_object_builder bs = \<lparr>pb_data = bs @ enc_flat (get_flat_binder_object 0 demo_borrowed_object),
     obj_offsets = [length bs], owned_fds = [], binder_objects = [demo_borrowed_object]\<rparr>"

definition demo_object_reader :: "byte list \<Rightarrow> unit payload_reader" where
  "demo_object_reader bs = \<lparr>pr_data = Owned (bs @ enc_flat (get_flat_binder_object 0 demo_borrowed_object)),
     pr_offsets = Some (Owned [length bs]), pr_binder_objects = [demo_borrowed_object],
     next_offset_index = 0, next_data_index = 0\<rparr>"

lemma demo_push_object:
  assumes "n < 100" and "to_binder_object_or_ref Checked x (demo_counted n) =
      (Inr demo_borrowed_object, demo_counted (n + 1))"
  shows "push_binder_ref Checked 0 x (push_bytes bs new_builder) (demo_counted n) =
    (Inr (Some (demo_object_builder (bs @ replicate (padding 8 (length bs)) 0))), demo_counted (n + 1))"
  using assms(2) by (simp add: push_binder_ref_def bind_def align_eq push_bytes_def new_builder_def
      append_object_def demo_object_builder_def)

lemma demo_copy_object:
  assumes "n < 100" and "length bs + 24 < 2 ^ 64"
  shows "from_builder Checked 0 demo_dup (demo_object_builder bs) (demo_counted n) =
    (Inr (demo_object_reader bs), demo_counted (n + 1))"
proof -
  have "dup_fds Checked 0 demo_dup 0 [length bs]
      (bs @ enc_flat (get_flat_binder_object 0 demo_borrowed_object) @ []) =
    dup_fds Checked 0 demo_dup 0 [] (bs @ enc_flat (get_flat_binder_object 0 demo_borrowed_object) @ [])"
    by (rule dup_fds_flat [OF refl assms(2)])
  then show ?thesis
    using demo_object_operations(3) [OF assms(1)]
    by (simp add: from_builder_def bind_outcome demo_object_builder_def demo_object_reader_def
        bind_def [of "object_or_ref_clone Checked demo_borrowed_object"])
qed

definition demo_block :: "byte list" where
  "demo_block = u32_bytes 1 @ u32_bytes 0 @ [7] @ replicate (padding 8 9) 0"

lemma demo_message:
  "message Checked 0 demo_reply_object 5 [7] 1 0 demo_device =
    (Inr (Some (demo_object_builder demo_block)), demo_counted 1)"
proof -
  have "push_bytes [7] (push_bytes (u32_bytes 0) (push_bytes (u32_bytes 1) new_builder)) =
      push_bytes (u32_bytes 1 @ u32_bytes 0 @ [7]) (new_builder :: unit payload_builder)"
    by (simp add: push_bytes_def)
  moreover have "push_binder_ref Checked 0 (Send_Object demo_reply_object)
      (push_bytes (u32_bytes 1 @ u32_bytes 0 @ [7]) new_builder) (demo_counted 0) =
    (Inr (Some (demo_object_builder demo_block)), demo_counted 1)"
    using demo_push_object [of 0 "Send_Object demo_reply_object" "u32_bytes 1 @ u32_bytes 0 @ [7]"]
      demo_object_operations(1) [of 0]
    by (simp add: demo_block_def)
  ultimately show ?thesis
    by (simp add: message_def message_pushes_def demo_counted_0 bind_def)
qed

lemma demo_block_length: "length demo_block = 16"
  by (simp add: demo_block_def padding_def)

lemma demo_unread: "unread [It_Bytes demo_block, It_Object 0 demo_borrowed_object] (demo_object_reader demo_block)"
  unfolding unread_def by (intro conjI exI [of _ "[]"])
    (simp_all add: demo_object_reader_def demo_block_length padding_def)

lemma demo_echo:
  "\<exists>res. echo_into Checked 0 (demo_object_reader demo_block) new_builder (demo_counted 2) =
     (Inr res, demo_counted 3)"
proof -
  let ?r = "demo_object_reader demo_block"
  obtain r1 where r1: "read_bytes Checked (length demo_block) ?r = Inr (Inr (demo_block, r1))"
    "unread [It_Object 0 demo_borrowed_object] r1"
    using unread_bytes [OF demo_unread] by blast
  have until: "bytes_until_next_obj Checked ?r = Inr (length demo_block)"
    by (rule until_next_is_block [OF demo_unread])
      (simp_all add: demo_block_length demo_block_def u32_bytes_not_Nil demo_object_reader_def)
  have hdr: "header_counts demo_block = (word_of_nat 1, word_of_nat 0)"
    unfolding demo_block_def using header_counts_message [of 1 0] by simp
  obtain r2 where rd: "read_binder_ref Checked r1 = bind (recover Checked demo_borrowed_object)
      (\<lambda>res. case res of Inl e \<Rightarrow> ret (Inl e) | Inr y \<Rightarrow> ret (Inr (y, r2)))"
    using r1(2) by (auto elim: unread_binder)
  have "echo_refs Checked 0 1 r1 (push_bytes demo_block new_builder) (demo_counted 2) =
    (Inr (Some (True, r2, demo_object_builder demo_block)), demo_counted 3)"
    using rd demo_object_operations [of 2] demo_object_operations(5) [of 3]
      demo_push_object [of 3 "Send_Erased demo_borrowed_object" demo_block] demo_object_operations(2) [of 3]
    by (simp add: bind_def demo_block_length padding_def)
  then show ?thesis
    using echo_into_block [OF until r1(1) hdr] by (simp add: bind_def)
qed


definition demo_call_with :: "u32 \<Rightarrow> unit transaction" where
  "demo_call_with cde = \<lparr>tr_code = cde, payload = demo_object_reader demo_block,
     tr_sender_pid = 1, tr_sender_euid = 0\<rparr>"

definition demo_stats_reader :: "unit payload_reader" where
  "demo_stats_reader = \<lparr>pr_data = Owned (u64_bytes 1 @ u64_bytes 16), pr_offsets = Some (Owned []),
     pr_binder_objects = [], next_offset_index = 0, next_data_index = 0\<rparr>"

theorem stats_report_one_way_traffic_witness:
  "read_service_stats Checked demo_stats_reader = Inr (1, 16)"
proof -
  have reset: "handle_echo Checked 0 \<lparr>one_way = 5, one_way_bytes = 6\<rparr> (demo_call_with RESET_CODE) demo_device =
      (Inr (Some (\<lparr>one_way = 0, one_way_bytes = 0\<rparr>, demo_object_reader demo_block,
        push_bytes [111, 107] new_builder)), demo_device)"
    by (simp add: handle_echo_def demo_call_with_def RESET_CODE_def STATS_CODE_def)
  have "bytes_until_next_obj Checked (demo_object_reader demo_block) = Inr (length demo_block)"
    by (rule until_next_is_block [OF demo_unread])
      (simp_all add: demo_block_length demo_block_def u32_bytes_not_Nil demo_object_reader_def)
  then have one: "list_all2 (\<lambda>r n. bytes_until_next_obj Checked r = Inr n)
      [demo_object_reader demo_block] [16]"
    by (simp add: demo_block_length)
  have handled: "handle_all_one_way Checked \<lparr>one_way = 0, one_way_bytes = 0\<rparr> [demo_object_reader demo_block] =
      Inr \<lparr>one_way = 1, one_way_bytes = 16\<rparr>"
    using handle_all_one_way_counts [OF one, of "\<lparr>one_way = 0, one_way_bytes = 0\<rparr>"] by simp
  have stats: "handle_echo Checked 0 \<lparr>one_way = 1, one_way_bytes = 16\<rparr> (demo_call_with STATS_CODE) demo_device =
      (Inr (Some (\<lparr>one_way = 1, one_way_bytes = 16\<rparr>, demo_object_reader demo_block,
        push_bytes (u64_bytes 16) (push_bytes (u64_bytes 1) new_builder))), demo_device)"
    by (simp add: handle_echo_def demo_call_with_def)
  have copy: "from_builder Checked 0 demo_dup (push_bytes (u64_bytes 16) (push_bytes (u64_bytes 1)
      new_builder)) demo_device = (Inr demo_stats_reader, demo_device)"
    by (simp add: from_builder_def push_bytes_def new_builder_def demo_stats_reader_def bind_outcome)
  show ?thesis
    using stats_report_one_way_traffic [OF _ reset one handled _ stats copy]
    by (simp add: demo_call_with_def)
qed

theorem self_echo_duplicates_object_witness:
  "\<exists>b1 r1. fst (the (self_echo_loop Checked 0 (demo_object_reader []) new_builder (demo_counted 2))) =
      Inr (r1, b1) \<and>
    pb_data b1 = enc_flat (get_flat_binder_object 0 demo_borrowed_object) @
      enc_flat (get_flat_binder_object 0 demo_borrowed_object) \<and> obj_offsets b1 = [24]"
proof -
  let ?f = "get_flat_binder_object 0 demo_borrowed_object"
  have push: "pushes Checked [Push_Binder 0 (Send_Object demo_reply_object)] new_builder (demo_counted 0) =
      (Inr (Some (demo_object_builder [])), demo_counted 1)"
    using demo_push_object [of 0 "Send_Object demo_reply_object" "[]"] demo_object_operations(1) [of 0]
    by (simp add: bind_def push_bytes_def new_builder_def padding_def)
  have copy: "from_builder Checked 0 demo_dup (demo_object_builder []) (demo_counted 1) =
      (Inr (demo_object_reader []), demo_counted 2)"
    using demo_copy_object [of 1 "[]"] by simp
  have r: "demo_object_reader [] = lone_reader ?f [demo_borrowed_object] 0 0"
    by (simp add: demo_object_reader_def lone_reader_def)
  obtain r1 b1 where run: "self_echo_loop Checked 0 (demo_object_reader []) new_builder (demo_counted 2) =
      Some (Inr (r1, b1), demo_counted 3)"
  proof -
    let ?r2 = "lone_reader ?f [demo_borrowed_object] (Suc 0) 24"
    let ?b2 = "demo_object_builder (enc_flat ?f)"
    have last: "self_echo_loop Checked 0 ?r2 ?b2 (demo_counted 3) = Some (Inr (?r2, ?b2), demo_counted 3)"
      by (subst self_echo_loop.simps) (simp add: lone_reader_bytes)
    have rd: "read_binder_ref Checked (lone_reader ?f [demo_borrowed_object] 0 24) (demo_counted 2) =
        (Inr (Inr (demo_borrowed_object, ?r2)), demo_counted 3)"
      using lone_reader_object(2) [of Checked 0 "\<lparr>bbo_id = demo_id, bbo_handler = (), increased_local_ref = True\<rparr>"]
        demo_object_operations(4) [of 2]
      by (simp add: bind_def demo_borrowed_object_def)
    have ty: "next_object_type Checked (lone_reader ?f [demo_borrowed_object] 0 24) = Inr (Some Type_BinderObject)"
      using lone_reader_object(1) by (simp add: demo_borrowed_object_def)
    have push: "push_binder_ref Checked 0 (Send_Erased demo_borrowed_object)
        (push_bytes (enc_flat ?f) new_builder) (demo_counted 3) = (Inr (Some ?b2), demo_counted 4)"
      using demo_push_object [of 3 "Send_Erased demo_borrowed_object" "enc_flat ?f"]
        demo_object_operations(2) [of 3] by (simp add: padding_def)
    have drop: "object_or_ref_drop Checked demo_borrowed_object (demo_counted 4) = (Inr (), demo_counted 3)"
      using demo_object_operations(5) [of 3] by simp
    have "self_echo_loop Checked 0 (lone_reader ?f [demo_borrowed_object] 0 24)
        (push_bytes (enc_flat ?f) new_builder) (demo_counted 2) = Some (Inr (?r2, ?b2), demo_counted 3)"
      by (subst self_echo_loop.simps) (simp add: lone_reader_bytes ty rd push drop last)
    then have "self_echo_loop Checked 0 (lone_reader ?f [demo_borrowed_object] 0 0) new_builder
        (demo_counted 2) = Some (Inr (?r2, ?b2), demo_counted 3)"
      by (subst self_echo_loop.simps) (simp add: lone_reader_bytes)
    with that r show thesis by simp
  qed
  have "obj_offsets (demo_object_builder []) = [0] \<and>
      pb_data b1 = pb_data (demo_object_builder []) @ pb_data (demo_object_builder []) \<and> obj_offsets b1 = [24]"
    by (rule self_echo_duplicates_object [OF push copy _ run])
      (simp add: demo_counted_objects demo_reply_object_def)
  with run show ?thesis by (simp add: demo_object_builder_def)
qed

end
