(* ===== verification/Raw_Binder.thy ===== *)
theory Raw_Binder
  imports Bench_Echo
begin

text \<open>
  The binder protocol spoken by hand in \<open>src/examples/bench.rs\<close>: the echo service and the
  client that use the driver without the library. The read buffer is a vector of 4096
  bytes of which the driver fills the first \<open>got\<close>; the answer of the n-th call gives its
  contents. A read of a structure that would leave the vector is undefined in the source
  and ends the operation here.
\<close>

section \<open>Calls\<close>

record raw_world =
  raw_answers :: "nat \<Rightarrow> (errno + byte list \<times> nat) option"
  raw_calls :: nat
  raw_written :: "write_data list"

text \<open>\<open>RawBinder::write_read\<close>, after \<open>retry_on_intr\<close>; none is a call that never returns.\<close>

definition write_read :: "write_data \<Rightarrow> raw_world \<Rightarrow>
    ((errno + byte list \<times> nat) \<times> raw_world) option" where
  "write_read wdata w = map_option
     (\<lambda>a. (a, w\<lparr>raw_calls := raw_calls w + 1, raw_written := raw_written w @ [wdata]\<rparr>))
     (raw_answers w (raw_calls w))"

text \<open>The length of what follows a code; none is a code the stream cannot be parsed past.\<close>

fun br_payload_len :: "binder_return option \<Rightarrow> nat option" where
  "br_payload_len (Some BR_NOOP) = Some 0"
| "br_payload_len (Some BR_TRANSACTION_COMPLETE) = Some 0"
| "br_payload_len (Some BR_SPAWN_LOOPER) = Some 0"
| "br_payload_len (Some BR_DEAD_REPLY) = Some 0"
| "br_payload_len (Some BR_FAILED_REPLY) = Some 0"
| "br_payload_len (Some BR_FROZEN_REPLY) = Some 0"
| "br_payload_len (Some BR_ONEWAY_SPAM_SUSPECT) = Some 0"
| "br_payload_len (Some BR_OK) = Some 0"
| "br_payload_len (Some BR_FINISHED) = Some 0"
| "br_payload_len (Some BR_ERROR) = Some 4"
| "br_payload_len (Some BR_TRANSACTION) = Some (layout_size BinderTransactionData)"
| "br_payload_len (Some BR_REPLY) = Some (layout_size BinderTransactionData)"
| "br_payload_len (Some BR_ACQUIRE) = Some (layout_size BinderPtrCookie)"
| "br_payload_len (Some BR_RELEASE) = Some (layout_size BinderPtrCookie)"
| "br_payload_len (Some BR_INCREFS) = Some (layout_size BinderPtrCookie)"
| "br_payload_len (Some BR_DECREFS) = Some (layout_size BinderPtrCookie)"
| "br_payload_len (Some BR_DEAD_BINDER) = Some 8"
| "br_payload_len (Some BR_CLEAR_DEATH_NOTIFICATION_DONE) = Some 8"
| "br_payload_len (Some BR_CLEAR_FREEZE_NOTIFICATION_DONE) = Some 8"
| "br_payload_len _ = None"

definition read_return :: "ioc_fn \<Rightarrow> byte list \<Rightarrow> nat \<Rightarrow> binder_return option outcome" where
  "read_return op buf at = bind_out (slice_index buf at (at + 4)) (\<lambda>hb. Inr (match_return op (u32_of hb)))"

definition read_transaction :: "byte list \<Rightarrow> nat \<Rightarrow> transaction_data outcome" where
  "read_transaction buf at = bind_out (slice_index buf at (at + layout_size BinderTransactionData))
     (\<lambda>tb. Inr (dec_transaction tb))"

section \<open>The service\<close>

text \<open>The reply points at the buffer of the transaction, which is then freed.\<close>

definition raw_reply :: "u32 \<Rightarrow> transaction_data \<Rightarrow> write_data" where
  "raw_reply junk tr =
     [(BC_REPLY, Arg_Transaction (tr\<lparr>target := union_write32 junk 0, td_cookie := 0, td_flags := 0,
        offsets_size := 0\<rparr>)),
      (BC_FREE_BUFFER, Arg_Uintptr (data_buffer tr))]"

text \<open>The inner loop: the commands to write next, or none when the service gives up.\<close>

function raw_service_pass :: "ioc_fn \<Rightarrow> u32 \<Rightarrow> byte list \<Rightarrow> nat \<Rightarrow> nat \<Rightarrow> write_data \<Rightarrow>
    write_data option outcome" where
  "raw_service_pass op junk buf got at wdata =
     (if got < at + 4 then Inr (Some wdata)
      else case read_return op buf at of
        Inl p \<Rightarrow> Inl p
      | Inr br \<Rightarrow> (case br_payload_len br of
          None \<Rightarrow> Inr None
        | Some len \<Rightarrow>
            if br = Some BR_TRANSACTION then (case read_transaction buf (at + 4) of
                Inl p \<Rightarrow> Inl p
              | Inr tr \<Rightarrow> raw_service_pass op junk buf got (at + 4 + len) (wdata @ raw_reply junk tr))
            else raw_service_pass op junk buf got (at + 4 + len) wdata))"
  by pat_completeness auto
termination
  by (relation "measure (\<lambda>(op, junk, buf, got, at, wdata). got - at)") auto

declare raw_service_pass.simps [simp del]

partial_function (option) raw_service_loop :: "ioc_fn \<Rightarrow> u32 \<Rightarrow> write_data \<Rightarrow> raw_world \<Rightarrow>
    (unit outcome \<times> raw_world) option" where
  "raw_service_loop op junk wdata w = (case write_read wdata w of
     None \<Rightarrow> None
   | Some (Inl e, w1) \<Rightarrow> Some (Inr (), w1)
   | Some (Inr (buf, got), w1) \<Rightarrow> (case raw_service_pass op junk buf got 0 [] of
       Inl p \<Rightarrow> Some (Inl p, w1)
     | Inr None \<Rightarrow> Some (Inr (), w1)
     | Inr (Some wdata1) \<Rightarrow> raw_service_loop op junk wdata1 w1))"

text \<open>\<open>opened\<close> and \<open>set_mgr\<close> say whether the two calls before the loop succeed.\<close>

definition raw_binder_service :: "ioc_fn \<Rightarrow> u32 \<Rightarrow> bool \<Rightarrow> (flat_binder_object \<Rightarrow> bool) \<Rightarrow> raw_world \<Rightarrow>
    (unit outcome \<times> raw_world) option" where
  "raw_binder_service op junk opened set_mgr w =
     (if \<not> opened then Some (Inr (), w)
      else if \<not> set_mgr \<lparr>hdr_type = BINDER, flags = ACCEPTS_FDS, obj_data = 1, cookie = 0\<rparr>
      then Some (Inr (), w)
      else raw_service_loop op junk [(BC_ENTER_LOOPER, Arg_None)] w)"

section \<open>The client\<close>

definition raw_request :: "u32 \<Rightarrow> usize \<Rightarrow> byte list \<Rightarrow> write_data" where
  "raw_request junk addr content = [(BC_TRANSACTION, Arg_Transaction
     \<lparr>target = union_write32 junk 0, td_cookie = 0, code = ECHO_CODE, td_flags = 0, sender_pid = 0,
      sender_euid = 0, data_size = word_of_nat (length content), offsets_size = 0,
      data_buffer = addr, data_offsets = 0\<rparr>)]"

datatype raw_progress = Go_On | Trip_Failed | Got_Reply transaction_data

function raw_client_pass :: "ioc_fn \<Rightarrow> byte list \<Rightarrow> nat \<Rightarrow> nat \<Rightarrow> raw_progress outcome" where
  "raw_client_pass op buf got at =
     (if got < at + 4 then Inr Go_On
      else case read_return op buf at of
        Inl p \<Rightarrow> Inl p
      | Inr br \<Rightarrow> (case br_payload_len br of
          None \<Rightarrow> Inr Trip_Failed
        | Some len \<Rightarrow>
            if br = Some BR_REPLY then (case read_transaction buf (at + 4) of
                Inl p \<Rightarrow> Inl p | Inr tr \<Rightarrow> Inr (Got_Reply tr))
            else if br = Some BR_DEAD_REPLY \<or> br = Some BR_FAILED_REPLY then Inr Trip_Failed
            else if br = Some BR_ERROR then Inr Trip_Failed
            else raw_client_pass op buf got (at + 4 + len)))"
  by pat_completeness auto
termination
  by (relation "measure (\<lambda>(op, buf, got, at). got - at)") auto

declare raw_client_pass.simps [simp del]

text \<open>The result of the call that frees the buffer is ignored.\<close>

partial_function (option) raw_trip_loop :: "ioc_fn \<Rightarrow> write_data \<Rightarrow> raw_world \<Rightarrow>
    (usize option outcome \<times> raw_world) option" where
  "raw_trip_loop op wdata w = (case write_read wdata w of
     None \<Rightarrow> None
   | Some (Inl e, w1) \<Rightarrow> Some (Inr None, w1)
   | Some (Inr (buf, got), w1) \<Rightarrow> (case raw_client_pass op buf got 0 of
       Inl p \<Rightarrow> Some (Inl p, w1)
     | Inr Go_On \<Rightarrow> raw_trip_loop op [] w1
     | Inr Trip_Failed \<Rightarrow> Some (Inr None, w1)
     | Inr (Got_Reply reply) \<Rightarrow>
         (case write_read [(BC_FREE_BUFFER, Arg_Uintptr (data_buffer reply))] w1 of
            None \<Rightarrow> None | Some (x, w2) \<Rightarrow> Some (Inr (Some (data_size reply)), w2))))"

definition raw_round_trip :: "ioc_fn \<Rightarrow> u32 \<Rightarrow> usize \<Rightarrow> byte list \<Rightarrow> raw_world \<Rightarrow>
    (usize option outcome \<times> raw_world) option" where
  "raw_round_trip op junk addr content w = raw_trip_loop op (raw_request junk addr content) w"

section \<open>Streams of complete returns\<close>

text \<open>The table of lengths of the benchmark agrees with the opcodes: where it knows a return,
  it skips exactly the size the opcode declares; the five it gives up on are not all returns with
  an argument, as its comment says: \<open>BR_TRANSACTION_PENDING_FROZEN\<close> has none.\<close>

theorem payload_table_agrees_with_opcodes:
  "br_payload_len (Some r) = (if r \<in> {BR_TRANSACTION_SEC_CTX, BR_ACQUIRE_RESULT, BR_ATTEMPT_ACQUIRE,
     BR_TRANSACTION_PENDING_FROZEN, BR_FROZEN_BINDER} then None else Some (declared_size r)) \<and>
   br_payload_len None = None \<and> declared_size BR_TRANSACTION_PENDING_FROZEN = 0"
  by (cases r) (simp_all add: declared_size_def)

definition return_bytes :: "ioc_fn \<Rightarrow> binder_return \<times> byte list \<Rightarrow> byte list" where
  "return_bytes op rb = u32_bytes (return_code op (fst rb)) @ snd rb"

definition stream :: "ioc_fn \<Rightarrow> (binder_return \<times> byte list) list \<Rightarrow> byte list" where
  "stream op rs = concat (map (return_bytes op) rs)"

definition complete_return :: "binder_return \<times> byte list \<Rightarrow> bool" where
  "complete_return rb \<longleftrightarrow> br_payload_len (Some (fst rb)) = Some (length (snd rb))"

lemma stream_simps [simp]:
  "stream op [] = []" "stream op (rb # rs) = return_bytes op rb @ stream op rs"
  "stream op (rs @ rs1) = stream op rs @ stream op rs1"
  by (simp_all add: stream_def)

lemma length_return_bytes [simp]: "length (return_bytes op rb) = 4 + length (snd rb)"
  by (simp add: return_bytes_def)

lemma read_return_stream:
  assumes "ioctl_opcode op" and "length pre = at"
  shows "read_return op (pre @ return_bytes op rb @ rest) at = Inr (Some (fst rb))"
  using assms by (simp add: read_return_def return_bytes_def slice_index_def slice_get_def
      u32_codec.dec_exact ioctl_opcode.match_return_code)

lemma read_transaction_stream:
  assumes "length pre = at" and "length (snd rb) = 64"
  shows "read_transaction (pre @ return_bytes op rb @ rest) (at + 4) = Inr (dec_transaction (snd rb))"
  using assms by (simp add: read_transaction_def return_bytes_def slice_index_def slice_get_def)

text \<open>What the service answers to one return.\<close>

definition raw_answer :: "u32 \<Rightarrow> binder_return \<times> byte list \<Rightarrow> write_data" where
  "raw_answer junk rb = (if fst rb = BR_TRANSACTION then raw_reply junk (dec_transaction (snd rb)) else [])"

lemma raw_service_pass_stream:
  assumes "ioctl_opcode op" and "list_all complete_return rs" and "length pre = at"
    and "got = at + length (stream op rs)"
  shows "raw_service_pass op junk (pre @ stream op rs @ rest) got at wdata =
    Inr (Some (wdata @ concat (map (raw_answer junk) rs)))"
  using assms(2-4)
proof (induction rs arbitrary: pre at wdata)
  case Nil
  then show ?case by (simp add: raw_service_pass.simps)
next
  case (Cons rb rs)
  let ?buf = "pre @ stream op (rb # rs) @ rest"
  have len: "br_payload_len (Some (fst rb)) = Some (length (snd rb))"
    using Cons.prems(1) by (simp add: complete_return_def)
  have br: "read_return op ?buf at = Inr (Some (fst rb))"
    using read_return_stream [OF assms(1) Cons.prems(2), of rb "stream op rs @ rest"] by simp
  have rest: "raw_service_pass op junk ?buf got (at + 4 + length (snd rb)) wdata1 =
      Inr (Some (wdata1 @ concat (map (raw_answer junk) rs)))" for wdata1
    using Cons.IH [of "pre @ return_bytes op rb" "at + 4 + length (snd rb)" wdata1] Cons.prems by simp
  have "read_transaction ?buf (at + 4) = Inr (dec_transaction (snd rb))" if "fst rb = BR_TRANSACTION"
    using read_transaction_stream [OF Cons.prems(2), of rb op "stream op rs @ rest"] that len by simp
  then show ?case
    using br len rest Cons.prems(3)
    by (subst raw_service_pass.simps) (simp add: raw_answer_def)
qed

text \<open>A return that says nothing about the transaction of the client.\<close>

definition neutral :: "binder_return \<times> byte list \<Rightarrow> bool" where
  "neutral rb \<longleftrightarrow> complete_return rb \<and> fst rb \<notin> {BR_REPLY, BR_DEAD_REPLY, BR_FAILED_REPLY, BR_ERROR}"

lemma raw_client_pass_neutral:
  assumes "ioctl_opcode op" and "list_all neutral rs" and "length pre = at"
    and "at + length (stream op rs) \<le> got"
  shows "raw_client_pass op (pre @ stream op rs @ rest) got at =
    raw_client_pass op (pre @ stream op rs @ rest) got (at + length (stream op rs))"
  using assms(2-4)
proof (induction rs arbitrary: pre at)
  case Nil
  then show ?case by simp
next
  case (Cons rb rs)
  let ?buf = "pre @ stream op (rb # rs) @ rest"
  have len: "br_payload_len (Some (fst rb)) = Some (length (snd rb))"
    and ne: "fst rb \<notin> {BR_REPLY, BR_DEAD_REPLY, BR_FAILED_REPLY, BR_ERROR}"
    using Cons.prems(1) by (simp_all add: neutral_def complete_return_def)
  have br: "read_return op ?buf at = Inr (Some (fst rb))"
    using read_return_stream [OF assms(1) Cons.prems(2), of rb "stream op rs @ rest"] by simp
  have "raw_client_pass op ?buf got at = raw_client_pass op ?buf got (at + 4 + length (snd rb))"
    using br len ne Cons.prems(3) by (subst raw_client_pass.simps) simp
  also have "\<dots> = raw_client_pass op ?buf got (at + length (stream op (rb # rs)))"
    using Cons.IH [of "pre @ return_bytes op rb" "at + 4 + length (snd rb)"] Cons.prems
    by (simp add: add.assoc)
  finally show ?case .
qed

lemma raw_client_pass_quiet:
  assumes "ioctl_opcode op" and "list_all neutral rs"
  shows "raw_client_pass op (stream op rs @ rest) (length (stream op rs)) 0 = Inr Go_On"
  using raw_client_pass_neutral [OF assms, of "[]" 0 "length (stream op rs)" rest]
  by (simp add: raw_client_pass.simps)

lemma raw_client_pass_reply:
  assumes "ioctl_opcode op" and "list_all neutral rs"
    and "length (stream op (rs @ [(BR_REPLY, enc_transaction reply)])) \<le> got"
  shows "raw_client_pass op (stream op (rs @ [(BR_REPLY, enc_transaction reply)]) @ rest) got 0 =
    Inr (Got_Reply reply)"
proof -
  let ?rb = "(BR_REPLY, enc_transaction reply)"
  have "raw_client_pass op (stream op (rs @ [?rb]) @ rest) got 0 =
      raw_client_pass op (stream op rs @ return_bytes op ?rb @ rest) got (length (stream op rs))"
    using raw_client_pass_neutral [OF assms(1,2), of "[]" 0 got "return_bytes op ?rb @ rest"] assms(3)
    by simp
  also have "\<dots> = Inr (Got_Reply reply)"
    using read_return_stream [OF assms(1) refl, of "stream op rs" ?rb rest]
      read_transaction_stream [OF refl, of ?rb "stream op rs" op rest] assms(3)
    by (subst raw_client_pass.simps) (simp add: transaction_codec.dec_exact)
  finally show ?thesis .
qed

section \<open>Whole runs\<close>

text \<open>The answers from call \<open>n\<close> on.\<close>

definition answered :: "raw_world \<Rightarrow> nat \<Rightarrow> (errno + byte list \<times> nat) list \<Rightarrow> bool" where
  "answered w n as \<longleftrightarrow> (\<forall>i < length as. raw_answers w (n + i) = Some (as ! i))"

lemma answered_Cons:
  "answered w n (a # as) \<longleftrightarrow> raw_answers w n = Some a \<and> answered w (Suc n) as"
proof -
  have "(\<forall>i < Suc (length as). raw_answers w (n + i) = Some ((a # as) ! i)) \<longleftrightarrow>
      raw_answers w n = Some a \<and> (\<forall>i < length as. raw_answers w (Suc n + i) = Some (as ! i))"
    by (subst All_less_Suc2) simp
  then show ?thesis by (simp add: answered_def)
qed

definition after_writes :: "write_data list \<Rightarrow> raw_world \<Rightarrow> raw_world" where
  "after_writes ws w = w\<lparr>raw_calls := raw_calls w + length ws, raw_written := raw_written w @ ws\<rparr>"

lemma write_read_answered:
  "raw_answers w (raw_calls w) = Some a \<Longrightarrow> write_read wdata w = Some (a, after_writes [wdata] w)"
  by (simp add: write_read_def after_writes_def)

lemma after_writes_simps [simp]:
  "raw_answers (after_writes ws w) = raw_answers w"
  "raw_calls (after_writes ws w) = raw_calls w + length ws"
  "after_writes ws1 (after_writes ws w) = after_writes (ws @ ws1) w"
  "answered (after_writes ws w) n as = answered w n as"
  by (simp_all add: after_writes_def answered_def)

text \<open>An answer that is a stream of returns in a buffer with more bytes behind them.\<close>

definition streamed :: "ioc_fn \<Rightarrow> byte list \<Rightarrow> (binder_return \<times> byte list) list \<Rightarrow>
    errno + byte list \<times> nat" where
  "streamed op rest rs = Inr (stream op rs @ rest, length (stream op rs))"

text \<open>C35: The raw service answers every transaction once and frees it: for any series of answers of
  the driver made of complete returns, it writes, call by call, exactly a reply and a
  \<open>BC_FREE_BUFFER\<close> for the buffer of each transaction of the answer before, in order and for
  nothing else, and it stops at the first error.\<close>

theorem raw_service_answers_each_once:
  assumes "ioctl_opcode op" and "list_all (list_all complete_return) rss"
    and "answered w (raw_calls w) (map (streamed op rest) rss @ [Inl e])"
  shows "raw_service_loop op junk wdata w = Some (Inr (), after_writes
    (wdata # map (\<lambda>rs. concat (map (raw_answer junk) rs)) rss) w)"
  using assms(2,3)
proof (induction rss arbitrary: w wdata)
  case Nil
  then have "raw_answers w (raw_calls w) = Some (Inl e)" by (simp add: answered_Cons)
  then show ?case by (subst raw_service_loop.simps) (simp add: write_read_answered)
next
  case (Cons rs rss)
  have a: "raw_answers w (raw_calls w) = Some (streamed op rest rs)"
    and as: "answered w (Suc (raw_calls w)) (map (streamed op rest) rss @ [Inl e])"
    using Cons.prems(2) by (simp_all add: answered_Cons)
  have pass: "raw_service_pass op junk (stream op rs @ rest) (length (stream op rs)) 0 [] =
      Inr (Some (concat (map (raw_answer junk) rs)))"
    using raw_service_pass_stream [OF assms(1), of rs "[]" 0 "length (stream op rs)" junk rest "[]"]
      Cons.prems(1) by simp
  have "raw_service_loop op junk (concat (map (raw_answer junk) rs)) (after_writes [wdata] w) =
      Some (Inr (), after_writes (concat (map (raw_answer junk) rs) #
        map (\<lambda>rs. concat (map (raw_answer junk) rs)) rss) (after_writes [wdata] w))"
    by (rule Cons.IH) (use Cons.prems(1) as in simp_all)
  then show ?case
    using pass by (subst raw_service_loop.simps)
      (simp add: write_read_answered [OF a] streamed_def)
qed

lemma raw_trip_returns:
  assumes "ioctl_opcode op" and "list_all (list_all neutral) rss" and "list_all neutral rs"
    and "answered w (raw_calls w) (map (streamed op rest) rss @
      [streamed op rest (rs @ [(BR_REPLY, enc_transaction reply)] @ tail_rs), a])"
  shows "raw_round_trip op junk addr content w = Some (Inr (Some (data_size reply)), after_writes
    ([raw_request junk addr content] @ replicate (length rss) [] @
     [[(BC_FREE_BUFFER, Arg_Uintptr (data_buffer reply))]]) w)"
proof -
  have "raw_trip_loop op wdata w = Some (Inr (Some (data_size reply)), after_writes
      ([wdata] @ replicate (length rss) [] @ [[(BC_FREE_BUFFER, Arg_Uintptr (data_buffer reply))]]) w)"
    for wdata using assms(2,4)
  proof (induction rss arbitrary: w wdata)
    case Nil
    have a: "raw_answers w (raw_calls w) =
        Some (streamed op rest (rs @ [(BR_REPLY, enc_transaction reply)] @ tail_rs))"
      and b: "raw_answers w (Suc (raw_calls w)) = Some a"
      using Nil.prems(2) by (simp_all add: answered_Cons)
    have "raw_client_pass op (stream op (rs @ [(BR_REPLY, enc_transaction reply)]) @ stream op tail_rs @ rest)
        (length (stream op (rs @ [(BR_REPLY, enc_transaction reply)] @ tail_rs))) 0 = Inr (Got_Reply reply)"
      by (rule raw_client_pass_reply [OF assms(1,3)]) simp
    moreover have "write_read [(BC_FREE_BUFFER, Arg_Uintptr (data_buffer reply))] (after_writes [wdata] w) =
        Some (a, after_writes [wdata, [(BC_FREE_BUFFER, Arg_Uintptr (data_buffer reply))]] w)"
      using write_read_answered [of "after_writes [wdata] w" a] b by simp
    ultimately show ?case
      by (subst raw_trip_loop.simps) (simp add: write_read_answered [OF a] streamed_def)
  next
    case (Cons qs rss)
    have a: "raw_answers w (raw_calls w) = Some (streamed op rest qs)"
      and as: "answered w (Suc (raw_calls w)) (map (streamed op rest) rss @
        [streamed op rest (rs @ [(BR_REPLY, enc_transaction reply)] @ tail_rs), a])"
      using Cons.prems(2) by (simp_all add: answered_Cons)
    have "raw_client_pass op (stream op qs @ rest) (length (stream op qs)) 0 = Inr Go_On"
      by (rule raw_client_pass_quiet [OF assms(1)]) (use Cons.prems(1) in simp)
    moreover have "raw_trip_loop op [] (after_writes [wdata] w) = Some (Inr (Some (data_size reply)),
        after_writes ([[]] @ replicate (length rss) [] @ [[(BC_FREE_BUFFER, Arg_Uintptr (data_buffer reply))]])
          (after_writes [wdata] w))"
      by (rule Cons.IH) (use Cons.prems(1) as in simp_all)
    ultimately show ?case
      by (subst raw_trip_loop.simps) (simp add: write_read_answered [OF a] streamed_def)
  qed
  then show ?thesis by (simp add: raw_round_trip_def)
qed


section \<open>The properties on concrete inputs\<close>

definition demo_raw_call :: transaction_data where
  "demo_raw_call = \<lparr>target = 1, td_cookie = 0, code = 1, td_flags = 0, sender_pid = 0, sender_euid = 0,
     data_size = 3, offsets_size = 0, data_buffer = 4096, data_offsets = 0\<rparr>"

definition demo_raw_world :: "(errno + byte list \<times> nat) list \<Rightarrow> raw_world" where
  "demo_raw_world as = \<lparr>raw_answers = (\<lambda>n. if n < length as then Some (as ! n) else None),
     raw_calls = 0, raw_written = []\<rparr>"

lemma demo_raw_answered: "answered (demo_raw_world as) (raw_calls (demo_raw_world as)) as"
  by (simp add: answered_def demo_raw_world_def)

theorem raw_service_answers_each_once_witness:
  "raw_service_loop linux_ioc 0 [(BC_ENTER_LOOPER, Arg_None)] (demo_raw_world
     [streamed linux_ioc [] [(BR_NOOP, []), (BR_TRANSACTION, enc_transaction demo_raw_call)], Inl 9]) =
   Some (Inr (), after_writes [[(BC_ENTER_LOOPER, Arg_None)],
     raw_reply 0 demo_raw_call] (demo_raw_world
     [streamed linux_ioc [] [(BR_NOOP, []), (BR_TRANSACTION, enc_transaction demo_raw_call)], Inl 9]))"
proof -
  let ?rs = "[(BR_NOOP, []), (BR_TRANSACTION, enc_transaction demo_raw_call)]"
  have "list_all (list_all complete_return) [?rs]" by (simp add: complete_return_def)
  from raw_service_answers_each_once [OF linux.ioctl_opcode_axioms this, of
    "demo_raw_world [streamed linux_ioc [] ?rs, Inl 9]" "[]" 9]
  show ?thesis
    using demo_raw_answered [of "[streamed linux_ioc [] ?rs, Inl 9]"]
    by (simp add: raw_answer_def transaction_codec.dec_exact)
qed


end
