(* ===== verification/Local_Objects.thy ===== *)
theory Local_Objects
  imports Binder_Device
begin

text \<open>
  The life of local objects: registration, the handles to them, service mode and its
  cleanup task, under any interleaving.

  The system is the device with the handles the program holds. A step is one operation
  of the API by some thread, or one of the two steps of a cleanup task (it sees the
  count, later it removes the guard). An operation is taken as one step; a panicking one
  consumes the handle it was called with and leaves the state it reached.
\<close>

section \<open>What one operation on the counts changes\<close>

lemma with_refstate_cases:
  assumes "with_refstate i m d = (r, d')"
  obtains (absent) "object_refcounts d i = None" and "r = Inr False" and "d' = d"
  | (present) st r' st' where "object_refcounts d i = Some st" and "m st = (r', st')"
      and "r = bind_out r' (\<lambda>_. Inr True)"
      and "d' = d\<lparr>object_refcounts := (object_refcounts d)(i \<mapsto> st')\<rparr>"
  using assms by (auto simp: with_refstate_def split: option.splits prod.splits)

record 'h obj_sys =
  dev :: "'h binder_device"
  owned :: "'h binder_object list"
  borrowed :: "'h borrowed_binder_object list"
  obj_refs :: "'h binder_object_ref list"
  tasks :: "(binder_object_id \<times> bool) list"
  fired :: "binder_object_id list"

definition init_sys :: "(nat \<Rightarrow> errno option) \<Rightarrow> 'h obj_sys" where
  "init_sys k = \<lparr>dev = new_device k, owned = [], borrowed = [], obj_refs = [], tasks = [],
     fired = []\<rparr>"

text \<open>The counted handles to an object.\<close>

definition counted :: "'h borrowed_binder_object list \<Rightarrow> binder_object_id \<Rightarrow> nat" where
  "counted bs i = length (filter (\<lambda>b. bbo_id b = i \<and> increased_local_ref b) bs)"

definition ref_count :: "'h binder_object_ref list \<Rightarrow> binder_object_id \<Rightarrow> nat" where
  "ref_count rs i = length (filter (\<lambda>r. bor_id r = i) rs)"

definition live :: "'h obj_sys \<Rightarrow> binder_object_id \<Rightarrow> nat" where
  "live s i = counted (borrowed s) i + ref_count (obj_refs s) i"

lemma counted_simps [simp]:
  "counted [] i = 0"
  "counted (b # bs) i = (if bbo_id b = i \<and> increased_local_ref b then 1 else 0) + counted bs i"
  by (simp_all add: counted_def)

lemma ref_count_simps [simp]:
  "ref_count [] i = 0"
  "ref_count (r # rs) i = (if bor_id r = i then 1 else 0) + ref_count rs i"
  by (simp_all add: ref_count_def)

lemma counted_remove1:
  "b \<in> set bs \<Longrightarrow> counted bs i =
     (if bbo_id b = i \<and> increased_local_ref b then 1 else 0) + counted (remove1 b bs) i"
  by (induction bs) auto

lemma ref_count_remove1:
  "r \<in> set rs \<Longrightarrow> ref_count rs i = (if bor_id r = i then 1 else 0) + ref_count (remove1 r rs) i"
  by (induction rs) auto

section \<open>Steps\<close>

text \<open>Add the handle an operation returned, if it returned one.\<close>

definition got :: "('a \<Rightarrow> 'h obj_sys \<Rightarrow> 'h obj_sys) \<Rightarrow> 'a outcome \<times> 'h binder_device \<Rightarrow>
    'h obj_sys \<Rightarrow> 'h obj_sys" where
  "got f rd s = (case rd of
     (Inl p, d) \<Rightarrow> s\<lparr>dev := d\<rparr> | (Inr x, d) \<Rightarrow> f x (s\<lparr>dev := d\<rparr>))"

definition add_borrowed :: "'h borrowed_binder_object \<Rightarrow> 'h obj_sys \<Rightarrow> 'h obj_sys" where
  "add_borrowed b s = s\<lparr>borrowed := b # borrowed s\<rparr>"

definition add_ref :: "'h binder_object_ref \<Rightarrow> 'h obj_sys \<Rightarrow> 'h obj_sys" where
  "add_ref r s = s\<lparr>obj_refs := r # obj_refs s\<rparr>"

definition add_opt :: "('a \<Rightarrow> 'h obj_sys \<Rightarrow> 'h obj_sys) \<Rightarrow> 'a option \<Rightarrow> 'h obj_sys \<Rightarrow> 'h obj_sys" where
  "add_opt f x s = (case x of None \<Rightarrow> s | Some y \<Rightarrow> f y s)"

definition add_object_or_ref :: "'h binder_object_or_ref \<Rightarrow> 'h obj_sys \<Rightarrow> 'h obj_sys" where
  "add_object_or_ref x s = (case x of Object b \<Rightarrow> add_borrowed b s | _ \<Rightarrow> s)"

definition add_service :: "binder_object_id \<Rightarrow> 'h binder_object_ref \<times> bool \<Rightarrow> 'h obj_sys \<Rightarrow>
    'h obj_sys" where
  "add_service i x s = (case x of (r, rx) \<Rightarrow>
     s\<lparr>obj_refs := r # obj_refs s, tasks := (i, rx) # tasks s\<rparr>)"

inductive obj_step :: "profile \<Rightarrow> ('h \<Rightarrow> bool) \<Rightarrow> 'h obj_sys \<Rightarrow> 'h obj_sys \<Rightarrow> bool"
  for prof :: profile and is_t :: "'h \<Rightarrow> bool" where
  register: "object_id_counter (dev s) \<noteq> - 1 \<Longrightarrow>
    obj_step prof is_t s (got (\<lambda>ob s. s\<lparr>owned := ob # owned s\<rparr>) (register_object h (dev s)) s)"
| drop_owned: "ob \<in> set (owned s) \<Longrightarrow>
    obj_step prof is_t s
      (got (\<lambda>_ s. s) (object_drop ob (dev s)) (s\<lparr>owned := remove1 ob (owned s)\<rparr>))"
| lend: "ob \<in> set (owned s) \<Longrightarrow>
    obj_step prof is_t s (got add_object_or_ref (object_to_object_or_ref prof ob (dev s)) s)"
| serve: "ob \<in> set (owned s) \<Longrightarrow> is_t (bo_handler ob) \<Longrightarrow>
    obj_step prof is_t s (got (add_service (bo_id ob)) (to_service prof is_t ob (dev s))
      (s\<lparr>owned := remove1 ob (owned s)\<rparr>))"
| upgrade: "obj_step prof is_t s (got (add_opt add_borrowed) (borrowed_from_id prof i (dev s)) s)"
| clone_borrowed: "b \<in> set (borrowed s) \<Longrightarrow>
    obj_step prof is_t s (got add_borrowed (borrowed_clone prof b (dev s)) s)"
| drop_borrowed: "b \<in> set (borrowed s) \<Longrightarrow>
    obj_step prof is_t s
      (got (\<lambda>_ s. s) (borrowed_drop prof b (dev s)) (s\<lparr>borrowed := remove1 b (borrowed s)\<rparr>))"
| downcast: "obj_step prof is_t s (got (add_opt add_ref) (object_ref_from_id prof is_t i (dev s)) s)"
| clone_ref: "r \<in> set (obj_refs s) \<Longrightarrow>
    obj_step prof is_t s (got add_ref (object_ref_clone prof r (dev s)) s)"
| erase_ref: "r \<in> set (obj_refs s) \<Longrightarrow>
    obj_step prof is_t s (got add_borrowed (object_ref_as_erased prof r (dev s)) s)"
| drop_ref: "r \<in> set (obj_refs s) \<Longrightarrow>
    obj_step prof is_t s
      (got (\<lambda>_ s. s) (object_ref_drop prof r (dev s)) (s\<lparr>obj_refs := remove1 r (obj_refs s)\<rparr>))"
| remote: "op \<in> {Inc_Remote, Dec_Remote, Mark_Pending, Clear_Pending} \<Longrightarrow>
    obj_step prof is_t s (got (\<lambda>_ s. s) (with_refstate i (ref_step prof op) (dev s)) s)"
| task_fires: "(i, rx) \<in> set (tasks s) \<Longrightarrow> hit_zero_ready (dev s) i rx \<Longrightarrow>
    obj_step prof is_t s (s\<lparr>tasks := remove1 (i, rx) (tasks s), fired := i # fired s\<rparr>)"
| task_cleans: "i \<in> set (fired s) \<Longrightarrow>
    obj_step prof is_t s
      (got (\<lambda>_ s. s) (cleanup_service i (dev s)) (s\<lparr>fired := remove1 i (fired s)\<rparr>))"

inductive obj_reachable :: "profile \<Rightarrow> ('h \<Rightarrow> bool) \<Rightarrow> (nat \<Rightarrow> errno option) \<Rightarrow> 'h obj_sys \<Rightarrow> bool"
  for prof :: profile and is_t :: "'h \<Rightarrow> bool" and k :: "nat \<Rightarrow> errno option" where
  start: "obj_reachable prof is_t k (init_sys k)"
| step: "obj_reachable prof is_t k s \<Longrightarrow> obj_step prof is_t s t \<Longrightarrow> obj_reachable prof is_t k t"

section \<open>The counts follow the handles\<close>

text \<open>
  \<open>tracks prof d f\<close>: for every object with counts that are not poisoned, the local count is
  the number \<open>f\<close> gives; modulo the width when overflow wraps, exactly when it is checked.
\<close>

definition agrees :: "profile \<Rightarrow> u32 \<Rightarrow> nat \<Rightarrow> bool" where
  "agrees prof w n \<longleftrightarrow> w = of_nat n \<and> (prof = Checked \<longrightarrow> unat w = n)"

definition tracks :: "profile \<Rightarrow> 'h binder_device \<Rightarrow> (binder_object_id \<Rightarrow> nat) \<Rightarrow> bool" where
  "tracks prof d f \<longleftrightarrow> (\<forall>i st. object_refcounts d i = Some st \<longrightarrow>
     published prof st \<and> (\<not> poisoned st \<longrightarrow> agrees prof (local (counts st)) (f i)))"

lemma agrees_zero [simp]: "agrees prof (local (counts (new_ref_state i))) 0"
  by (simp add: agrees_def new_ref_state_def zero_counts_def)

lemma agrees_inc:
  "agrees prof w n \<Longrightarrow> (prof = Checked \<longrightarrow> unat (w + 1) = unat w + 1) \<Longrightarrow> agrees prof (w + 1) (n + 1)"
  unfolding agrees_def by (metis add.commute of_nat_Suc Suc_eq_plus1)

lemma agrees_dec:
  assumes "agrees prof w n" and "0 < n"
  shows "agrees prof (w - 1) (n - 1)"
proof -
  have "prof = Checked \<longrightarrow> w \<noteq> 0" using assms by (auto simp: agrees_def)
  moreover have "(of_nat n :: u32) - 1 = of_nat (n - 1)" using assms(2) by (simp add: of_nat_diff)
  ultimately show ?thesis using assms(1) by (metis agrees_def unat_minus1)
qed

lemma update_live:
  assumes "\<not> poisoned (snd (update prof f st))" and "\<And>c c'. f c = Inr c' \<Longrightarrow> P c c'"
  shows "\<not> poisoned st \<and> P (counts st) (counts (snd (update prof f st)))"
  using assms by (auto simp: update_def split: if_splits sum.splits)

lemma update_panic_poisons: "fst (update prof f st) = Inl p \<Longrightarrow> poisoned (snd (update prof f st))"
  by (auto simp: update_def split: if_splits sum.splits)

lemma increase_local_live:
  assumes "\<not> poisoned (snd (increase_local prof st))"
  shows "\<not> poisoned st \<and> local (counts (snd (increase_local prof st))) = local (counts st) + 1 \<and>
    (prof = Checked \<longrightarrow> unat (local (counts (snd (increase_local prof st)))) =
       unat (local (counts st)) + 1)"
  using assms unfolding increase_local_def
  by (rule update_live [where P = "\<lambda>c c'. local c' = local c + 1 \<and>
        (prof = Checked \<longrightarrow> unat (local c') = unat (local c) + 1)"])
    (auto simp: bind_out_eq_Inr dest: add_checked_Inr split: if_splits
      simp: add_checked_def unat_word_ariths)

lemma decrease_local_live:
  assumes "\<not> poisoned (snd (decrease_local prof st))"
  shows "\<not> poisoned st \<and> local (counts (snd (decrease_local prof st))) = local (counts st) - 1"
  using assms unfolding decrease_local_def
  by (rule update_live [where P = "\<lambda>c c'. local c' = local c - 1"])
    (auto simp: bind_out_eq_Inr sub_checked_def split: if_splits)

lemma remote_op_closure:
  assumes "op \<in> {Inc_Remote, Dec_Remote, Mark_Pending, Clear_Pending}"
  shows "\<exists>f. ref_step prof op = update prof f \<and> (\<forall>c c'. f c = Inr c' \<longrightarrow> local c' = local c)"
  using assms
  by (elim insertE emptyE; simp add: ref_op_defs; intro exI conjI refl)
    (auto simp: bind_out_eq_Inr split: if_splits)

lemma remote_op_live:
  assumes "op \<in> {Inc_Remote, Dec_Remote, Mark_Pending, Clear_Pending}"
    and "\<not> poisoned (snd (ref_step prof op st))"
  shows "\<not> poisoned st \<and> local (counts (snd (ref_step prof op st))) = local (counts st)"
proof -
  obtain f where f: "ref_step prof op = update prof f"
    and keep: "\<And>c c'. f c = Inr c' \<Longrightarrow> local c' = local c"
    using remote_op_closure [OF assms(1), of prof] by blast
  from assms(2) show ?thesis
    unfolding f by (rule update_live [where P = "\<lambda>c c'. local c' = local c"]) (rule keep)
qed

lemma tracksI:
  assumes "tracks prof d f" and "with_refstate i m d = (q, d')"
    and "\<And>j. j \<noteq> i \<Longrightarrow> g j = f j"
    and "\<And>st. object_refcounts d i = Some st \<Longrightarrow> published prof (snd (m st)) \<and>
      (\<not> poisoned (snd (m st)) \<longrightarrow> agrees prof (local (counts (snd (m st)))) (g i))"
  shows "tracks prof d' g"
  using assms(2)
proof (cases rule: with_refstate_cases)
  case absent
  show ?thesis
    unfolding tracks_def
  proof (intro allI impI)
    fix j st assume j: "object_refcounts d' j = Some st"
    with absent have "j \<noteq> i" by auto
    with j absent assms(1,3) show "published prof st \<and>
        (\<not> poisoned st \<longrightarrow> agrees prof (local (counts st)) (g j))"
      by (auto simp: tracks_def)
  qed
next
  case (present st r' st')
  with assms(4) [OF present(1)] assms(1,3) show ?thesis by (auto simp: tracks_def)
qed

lemma tracksD:
  "tracks prof d f \<Longrightarrow> object_refcounts d i = Some st \<Longrightarrow> published prof st"
  "tracks prof d f \<Longrightarrow> object_refcounts d i = Some st \<Longrightarrow> \<not> poisoned st \<Longrightarrow>
     agrees prof (local (counts st)) (f i)"
  by (simp_all add: tracks_def)

lemma published_ref_steps:
  "published prof st \<Longrightarrow> published prof (snd (increase_local prof st))"
  "published prof st \<Longrightarrow> published prof (snd (decrease_local prof st))"
  by (simp_all add: increase_local_def decrease_local_def published_update)

lemma tracks_inc:
  assumes "tracks prof d f" and "with_refstate i (increase_local prof) d = (q, d')"
  shows "tracks prof d' (f(i := f i + 1))"
proof (rule tracksI [OF assms])
  fix st assume "object_refcounts d i = Some st"
  note st = tracksD [OF assms(1) this]
  have "agrees prof (local (counts (snd (increase_local prof st)))) (f i + 1)"
    if "\<not> poisoned (snd (increase_local prof st))"
    using increase_local_live [OF that] st(2) agrees_inc by metis
  with st(1) show "published prof (snd (increase_local prof st)) \<and>
    (\<not> poisoned (snd (increase_local prof st)) \<longrightarrow>
      agrees prof (local (counts (snd (increase_local prof st)))) ((f(i := f i + 1)) i))"
    by (simp add: published_ref_steps)
qed simp

lemma with_refstate_not_True:
  assumes "with_refstate i (increase_local prof) d = (q, d')" and "q \<noteq> Inr True"
    and "object_refcounts d' i = Some st"
  shows "poisoned st"
  using assms(1)
proof (cases rule: with_refstate_cases)
  case absent
  with assms(3) show ?thesis by simp
next
  case (present st0 r' st')
  with assms(2) obtain p where "r' = Inl p" by (cases r') auto
  with present(2) have "fst (increase_local prof st0) = Inl p" "snd (increase_local prof st0) = st'"
    by simp_all
  then have "poisoned st'" using update_panic_poisons unfolding increase_local_def by blast
  with present(4) assms(3) show ?thesis by simp
qed

lemma tracks_inc_failed:
  assumes "tracks prof d f" and "with_refstate i (increase_local prof) d = (q, d')" and "q \<noteq> Inr True"
  shows "tracks prof d' f"
  unfolding tracks_def
proof (intro allI impI)
  fix j st assume j: "object_refcounts d' j = Some st"
  note t = tracksD [OF tracks_inc [OF assms(1,2)] j]
  show "published prof st \<and> (\<not> poisoned st \<longrightarrow> agrees prof (local (counts st)) (f j))"
    using t with_refstate_not_True [OF assms(2,3), of st] j by (cases "j = i") auto
qed

lemma tracks_dec:
  assumes "tracks prof d f" and "with_refstate i (decrease_local prof) d = (q, d')" and "0 < f i"
  shows "tracks prof d' (f(i := f i - 1))"
proof (rule tracksI [OF assms(1,2)])
  fix st assume "object_refcounts d i = Some st"
  note st = tracksD [OF assms(1) this]
  have "agrees prof (local (counts (snd (decrease_local prof st)))) (f i - 1)"
    if "\<not> poisoned (snd (decrease_local prof st))"
    using decrease_local_live [OF that] st(2) agrees_dec [OF _ assms(3)] by metis
  with st(1) show "published prof (snd (decrease_local prof st)) \<and>
    (\<not> poisoned (snd (decrease_local prof st)) \<longrightarrow>
      agrees prof (local (counts (snd (decrease_local prof st)))) ((f(i := f i - 1)) i))"
    by (simp add: published_ref_steps)
qed simp

lemma tracks_remote:
  assumes "tracks prof d f" and "with_refstate i (ref_step prof op) d = (q, d')"
    and "op \<in> {Inc_Remote, Dec_Remote, Mark_Pending, Clear_Pending}"
  shows "tracks prof d' f"
proof (rule tracksI [OF assms(1,2)])
  fix st assume "object_refcounts d i = Some st"
  note st = tracksD [OF assms(1) this]
  have "agrees prof (local (counts (snd (ref_step prof op st)))) (f i)"
    if "\<not> poisoned (snd (ref_step prof op st))"
    using remote_op_live [OF assms(3) that] st(2) by metis
  with st(1) show "published prof (snd (ref_step prof op st)) \<and>
    (\<not> poisoned (snd (ref_step prof op st)) \<longrightarrow>
      agrees prof (local (counts (snd (ref_step prof op st)))) (f i))"
    by (simp add: published_step)
qed simp

section \<open>The registry\<close>

text \<open>An identifier the counter has given out.\<close>

definition issued :: "'h binder_device \<Rightarrow> binder_object_id \<Rightarrow> bool" where
  "issued d i \<longleftrightarrow> id_raw i < object_id_counter d \<and> id_raw i \<noteq> 0 \<and> id_cookie i = 0"

text \<open>
  Both maps of the device hold the same objects, and each registered object has exactly
  one guard: a \<open>BinderObject\<close> the program owns or the one in \<open>retained_services\<close>.
\<close>

definition registry_ok :: "'h binder_device \<Rightarrow> 'h binder_object list \<Rightarrow> bool" where
  "registry_ok d os \<longleftrightarrow>
     0 < object_id_counter d \<and>
     dom (object_refcounts d) = dom (objects d) \<and>
     (\<forall>i h. objects d i = Some h \<longrightarrow> issued d i) \<and>
     distinct (map bo_id os) \<and>
     (\<forall>ob \<in> set os. objects d (bo_id ob) = Some (bo_handler ob) \<and>
        retained_services d (bo_id ob) = None) \<and>
     (\<forall>i ob. retained_services d i = Some ob \<longrightarrow>
        bo_id ob = i \<and> objects d i = Some (bo_handler ob)) \<and>
     (\<forall>i h. objects d i = Some h \<longrightarrow> i \<in> bo_id ` set os \<or> i \<in> dom (retained_services d))"

definition handles_issued :: "'h obj_sys \<Rightarrow> bool" where
  "handles_issued s \<longleftrightarrow> (\<forall>b \<in> set (borrowed s). issued (dev s) (bbo_id b)) \<and>
     (\<forall>r \<in> set (obj_refs s). issued (dev s) (bor_id r))"

definition sys_inv :: "profile \<Rightarrow> 'h obj_sys \<Rightarrow> bool" where
  "sys_inv prof s \<longleftrightarrow> registry_ok (dev s) (owned s) \<and> handles_issued s \<and>
     tracks prof (dev s) (live s)"

definition same_registry :: "'h binder_device \<Rightarrow> 'h binder_device \<Rightarrow> bool" where
  "same_registry d d' \<longleftrightarrow> objects d' = objects d \<and> retained_services d' = retained_services d \<and>
     object_id_counter d' = object_id_counter d \<and>
     dom (object_refcounts d') = dom (object_refcounts d)"

lemma same_registry_refl [simp]: "same_registry d d"
  by (simp add: same_registry_def)

lemma with_refstate_registry: "with_refstate i m d = (q, d') \<Longrightarrow> same_registry d d'"
  by (erule with_refstate_cases) (auto simp: same_registry_def)

lemma registry_ok_same: "same_registry d d' \<Longrightarrow> registry_ok d os \<Longrightarrow> registry_ok d' os"
  by (simp add: same_registry_def registry_ok_def issued_def)

lemma issued_same: "same_registry d d' \<Longrightarrow> issued d' i = issued d i"
  by (simp add: same_registry_def issued_def)

lemma issued_object: "registry_ok d os \<Longrightarrow> objects d i = Some h \<Longrightarrow> issued d i"
  by (simp add: registry_ok_def)

section \<open>The shape of the operations\<close>

text \<open>Every operation on a handle is one \<open>with_refstate\<close> and a result made from its flag.\<close>

lemma borrowed_from_id_cases:
  assumes "borrowed_from_id prof i d = (r, d')"
  obtains (absent) "objects d i = None" and "r = Inr None" and "d' = d"
  | (found) h q where "objects d i = Some h" and "with_refstate i (increase_local prof) d = (q, d')"
      and "r = bind_out q (\<lambda>inc.
        Inr (Some \<lparr>bbo_id = i, bbo_handler = h, increased_local_ref = inc\<rparr>))"
  using assms
  by (auto simp: borrowed_from_id_def get_handler_def bind_def split: option.splits prod.splits sum.splits)

lemma object_ref_from_id_cases:
  assumes "object_ref_from_id prof is_t i d = (r, d')"
  obtains (absent) "objects d i = None \<or> (\<exists>h. objects d i = Some h \<and> \<not> is_t h)"
      and "r = Inr None" and "d' = d"
  | (found) h q where "objects d i = Some h" and "is_t h"
      and "with_refstate i (increase_local prof) d = (q, d')"
      and "r = bind_out q (\<lambda>inc. Inr (if inc then Some \<lparr>bor_id = i, bor_handler = h\<rparr> else None))"
  using assms
  by (auto simp: object_ref_from_id_def get_handler_def bind_def
      split: option.splits prod.splits sum.splits if_splits)

lemma bind_ret_cases:
  assumes "bind m (\<lambda>x. ret (g x)) d = (r, d')"
  obtains q where "m d = (q, d')" and "r = bind_out q (\<lambda>x. Inr (g x))"
  using assms by (auto simp: bind_def split: prod.splits sum.splits)

lemma live_simps [simp]:
  "live (s\<lparr>tasks := ts\<rparr>) = live s" "live (s\<lparr>fired := fs\<rparr>) = live s"
  "live (s\<lparr>dev := d\<rparr>) = live s" "live (s\<lparr>owned := os\<rparr>) = live s"
  by (simp_all add: live_def fun_eq_iff)

lemma sys_inv_simps [simp]:
  "sys_inv prof (s\<lparr>tasks := ts\<rparr>) = sys_inv prof s" "sys_inv prof (s\<lparr>fired := fs\<rparr>) = sys_inv prof s"
  by (simp_all add: sys_inv_def handles_issued_def)

text \<open>Taking a reference: an increment, and the new handle if it was counted.\<close>

lemma inc_inv:
  assumes "sys_inv prof s" and "with_refstate i (increase_local prof) (dev s) = (q, d')"
  shows "q \<noteq> Inr True \<Longrightarrow> sys_inv prof (s\<lparr>dev := d'\<rparr>)"
    and "q = Inr inc \<Longrightarrow> issued (dev s) i \<Longrightarrow> bbo_id b = i \<Longrightarrow> increased_local_ref b = inc \<Longrightarrow>
      sys_inv prof (s\<lparr>dev := d', borrowed := b # borrowed s\<rparr>)"
    and "issued (dev s) i \<Longrightarrow> bor_id r = i \<Longrightarrow>
      sys_inv prof (s\<lparr>dev := d', obj_refs := r # obj_refs s\<rparr>)"
proof -
  note same = with_refstate_registry [OF assms(2)]
  have reg: "registry_ok d' (owned s)"
    using assms(1) registry_ok_same [OF same] by (simp add: sys_inv_def)
  have t: "tracks prof (dev s) (live s)" "handles_issued s" using assms(1) by (simp_all add: sys_inv_def)
  show "sys_inv prof (s\<lparr>dev := d'\<rparr>)" if "q \<noteq> Inr True"
    using reg t(2) tracks_inc_failed [OF t(1) assms(2) that] issued_same [OF same]
    by (simp add: sys_inv_def handles_issued_def)
  show "sys_inv prof (s\<lparr>dev := d', obj_refs := r # obj_refs s\<rparr>)"
    if "issued (dev s) i" "bor_id r = i"
  proof -
    have "live (s\<lparr>dev := d', obj_refs := r # obj_refs s\<rparr>) = (live s)(i := live s i + 1)"
      using that by (auto simp: live_def fun_eq_iff)
    with reg t(2) tracks_inc [OF t(1) assms(2)] issued_same [OF same] that show ?thesis
      by (simp add: sys_inv_def handles_issued_def)
  qed
  show "sys_inv prof (s\<lparr>dev := d', borrowed := b # borrowed s\<rparr>)"
    if "q = Inr inc" "issued (dev s) i" "bbo_id b = i" "increased_local_ref b = inc"
  proof -
    have "live (s\<lparr>dev := d', borrowed := b # borrowed s\<rparr>) =
        (if inc then (live s)(i := live s i + 1) else live s)"
      using that by (auto simp: live_def fun_eq_iff)
    moreover have "tracks prof d' (if inc then (live s)(i := live s i + 1) else live s)"
      using tracks_inc [OF t(1) assms(2)] tracks_inc_failed [OF t(1) assms(2)] that(1) by simp
    ultimately show ?thesis
      using reg t(2) issued_same [OF same] that by (simp add: sys_inv_def handles_issued_def)
  qed
qed

text \<open>Giving a reference back.\<close>

lemma dec_inv:
  assumes "sys_inv prof s" and "with_refstate i (decrease_local prof) (dev s) = (q, d')"
    and "live t = (live s)(i := live s i - 1)" and "0 < live s i"
    and "dev t = d'" "owned t = owned s" "set (borrowed t) \<subseteq> set (borrowed s)"
      "set (obj_refs t) \<subseteq> set (obj_refs s)"
  shows "sys_inv prof t"
proof -
  note same = with_refstate_registry [OF assms(2)]
  have "registry_ok d' (owned s)" "handles_issued s" "tracks prof (dev s) (live s)"
    using assms(1) registry_ok_same [OF same] by (simp_all add: sys_inv_def)
  moreover have "tracks prof d' (live t)"
    using tracks_dec [OF calculation(3) assms(2,4)] assms(3) by simp
  ultimately show ?thesis
    using assms(5-8) issued_same [OF same] by (auto simp: sys_inv_def handles_issued_def)
qed

section \<open>Every step keeps the invariant\<close>

lemma fresh_not_issued: "\<not> issued d \<lparr>id_raw = object_id_counter d, id_cookie = 0\<rparr>"
  by (simp add: issued_def)

lemma live_issued: "handles_issued s \<Longrightarrow> \<not> issued (dev s) i \<Longrightarrow> live s i = 0"
  by (auto simp: handles_issued_def live_def counted_def ref_count_def filter_empty_conv)

lemma register_inv:
  assumes "sys_inv prof s" and c: "object_id_counter (dev s) \<noteq> - 1"
  shows "sys_inv prof (got (\<lambda>ob s. s\<lparr>owned := ob # owned s\<rparr>) (register_object h (dev s)) s)"
proof -
  let ?d = "dev s"
  let ?i = "\<lparr>id_raw = object_id_counter ?d, id_cookie = 0\<rparr>"
  let ?d' = "?d\<lparr>object_id_counter := object_id_counter ?d + 1, objects := (objects ?d)(?i \<mapsto> h),
     object_refcounts := (object_refcounts ?d)(?i \<mapsto> new_ref_state ?i)\<rparr>"
  have inv: "registry_ok ?d (owned s)" "handles_issued s" "tracks prof ?d (live s)"
    using assms(1) by (simp_all add: sys_inv_def)
  have new: "objects ?d ?i = None"
    using inv(1) fresh_not_issued [of ?d] by (auto simp: registry_ok_def)
  have step: "v < object_id_counter ?d \<Longrightarrow> v < object_id_counter ?d + 1" for v
    using c word_less_succ by blast
  have pos: "0 < object_id_counter ?d" using inv(1) by (simp add: registry_ok_def)
  have iss: "issued ?d j \<Longrightarrow> issued ?d' j" for j using step by (simp add: issued_def)
  have fresh: "\<forall>ob \<in> set (owned s). bo_id ob \<noteq> ?i" "retained_services ?d ?i = None"
    using inv(1) new by (auto simp: registry_ok_def) (metis not_None_eq option.distinct(1))
  have "issued ?d' ?i" using pos counter_step [OF c] by (simp add: issued_def)
  then have "registry_ok ?d' (\<lparr>bo_id = ?i, bo_handler = h\<rparr> # owned s)"
    using inv(1) pos step fresh iss
    by (auto simp: registry_ok_def)
  moreover have "tracks prof ?d' (live s)"
    using inv(3) live_issued [OF inv(2) fresh_not_issued]
    by (auto simp: tracks_def published_new)
  ultimately show ?thesis
    using inv(2) iss
    by (simp add: got_def register_object_def Let_def sys_inv_def handles_issued_def)
qed

lemma remove_registry:
  assumes "registry_ok d os" and "\<forall>ob \<in> set os'. bo_id ob \<noteq> i" and "set os' \<subseteq> set os"
    and "distinct (map bo_id os')" and "\<forall>ob \<in> set os. ob \<in> set os' \<or> bo_id ob = i"
    and "R = (retained_services d)(i := None)"
  shows "registry_ok (d\<lparr>objects := (objects d)(i := None),
    object_refcounts := (object_refcounts d)(i := None), retained_services := R\<rparr>) os'"
proof -
  have "\<exists>y. retained_services d j = Some y"
    if "j \<noteq> i" "objects d j = Some h" "j \<notin> bo_id ` set os'" for j h
  proof -
    from assms(1) that(2) have "j \<in> bo_id ` set os \<or> j \<in> dom (retained_services d)"
      by (auto simp: registry_ok_def)
    with assms(5) that show ?thesis by auto
  qed
  with assms show ?thesis
    unfolding registry_ok_def by (auto simp: issued_def)
qed

lemma remove_inv:
  assumes "sys_inv prof s" and "registry_ok (d'\<lparr>objects := (objects (dev s))(i := None),
      object_refcounts := (object_refcounts (dev s))(i := None)\<rparr>) os'"
    and "object_id_counter d' = object_id_counter (dev s)"
  shows "sys_inv prof (s\<lparr>owned := os', dev := d'\<lparr>objects := (objects (dev s))(i := None),
      object_refcounts := (object_refcounts (dev s))(i := None)\<rparr>\<rparr>)"
  using assms by (auto simp: sys_inv_def handles_issued_def issued_def tracks_def)

lemma drop_owned_inv:
  assumes "sys_inv prof s" and "ob \<in> set (owned s)"
  shows "sys_inv prof
    (got (\<lambda>_ s. s) (object_drop ob (dev s)) (s\<lparr>owned := remove1 ob (owned s)\<rparr>))"
proof -
  have r: "registry_ok (dev s) (owned s)" using assms(1) by (simp add: sys_inv_def)
  have d: "distinct (map bo_id (owned s))" using r by (simp add: registry_ok_def)
  have "distinct (owned s)" using d by (simp add: distinct_map)
  then have set: "set (remove1 ob (owned s)) = set (owned s) - {ob}" by (rule set_remove1_eq)
  have "registry_ok ((dev s)\<lparr>objects := (objects (dev s))(bo_id ob := None),
      object_refcounts := (object_refcounts (dev s))(bo_id ob := None),
      retained_services := (retained_services (dev s))(bo_id ob := None)\<rparr>) (remove1 ob (owned s))"
    using d assms(2) set
    by (intro remove_registry [OF r]) (auto simp: inj_on_eq_iff [of bo_id] distinct_map
        intro: distinct_remove1 inj_on_subset)
  moreover have "(retained_services (dev s))(bo_id ob := None) = retained_services (dev s)"
    using r assms(2) by (auto simp: registry_ok_def fun_eq_iff)
  ultimately have "registry_ok ((dev s)\<lparr>objects := (objects (dev s))(bo_id ob := None),
      object_refcounts := (object_refcounts (dev s))(bo_id ob := None)\<rparr>) (remove1 ob (owned s))"
    by (simp add: registry_ok_def issued_def)
  from remove_inv [OF assms(1) this] show ?thesis
    by (simp add: got_def object_drop_def remove_binder_object_def)
qed

lemma registered_issued:
  "sys_inv prof s \<Longrightarrow> objects (dev s) i = Some h \<Longrightarrow> issued (dev s) i"
  by (auto simp: sys_inv_def registry_ok_def)

lemma handle_issued:
  "sys_inv prof s \<Longrightarrow> b \<in> set (borrowed s) \<Longrightarrow> issued (dev s) (bbo_id b)"
  "sys_inv prof s \<Longrightarrow> r \<in> set (obj_refs s) \<Longrightarrow> issued (dev s) (bor_id r)"
  by (simp_all add: sys_inv_def handles_issued_def)

lemma owned_registered:
  "sys_inv prof s \<Longrightarrow> ob \<in> set (owned s) \<Longrightarrow> objects (dev s) (bo_id ob) = Some (bo_handler ob)"
  by (simp add: sys_inv_def registry_ok_def)

lemma inc_to_borrowed_inv:
  assumes "sys_inv prof s" and "issued (dev s) i"
    and "with_refstate i (increase_local prof) (dev s) = (q, d')"
    and "\<And>inc. bbo_id (mk inc) = i \<and> increased_local_ref (mk inc) = inc"
  shows "sys_inv prof (got add_borrowed (bind_out q (\<lambda>inc. Inr (mk inc)), d') s)"
proof (cases q)
  case (Inl p)
  then show ?thesis using inc_inv(1) [OF assms(1,3)] by (simp add: got_def)
next
  case (Inr inc)
  then show ?thesis
    using inc_inv(2) [OF assms(1,3) Inr assms(2), of "mk inc"] assms(4)
    by (simp add: got_def add_borrowed_def)
qed

lemma upgrade_inv:
  assumes "sys_inv prof s"
  shows "sys_inv prof (got (add_opt add_borrowed) (borrowed_from_id prof i (dev s)) s)"
proof -
  obtain r d' where rd: "borrowed_from_id prof i (dev s) = (r, d')" by (cases "borrowed_from_id prof i (dev s)")
  then show ?thesis
  proof (cases rule: borrowed_from_id_cases)
    case absent
    with assms rd show ?thesis by (simp add: got_def add_opt_def)
  next
    case (found h q)
    let ?mk = "\<lambda>inc. \<lparr>bbo_id = i, bbo_handler = h, increased_local_ref = inc\<rparr>"
    have "got (add_opt add_borrowed) (r, d') s = got add_borrowed (bind_out q (\<lambda>inc. Inr (?mk inc)), d') s"
      using found(3) by (cases q) (simp_all add: got_def add_opt_def)
    then show ?thesis
      using inc_to_borrowed_inv [OF assms registered_issued [OF assms found(1)] found(2), of ?mk] rd
      by simp
  qed
qed

lemma clone_borrowed_inv:
  assumes "sys_inv prof s" and "b \<in> set (borrowed s)"
  shows "sys_inv prof (got add_borrowed (borrowed_clone prof b (dev s)) s)"
proof -
  obtain r d' where rd: "borrowed_clone prof b (dev s) = (r, d')" by (cases "borrowed_clone prof b (dev s)")
  then obtain q where q: "with_refstate (bbo_id b) (increase_local prof) (dev s) = (q, d')"
      "r = bind_out q (\<lambda>inc. Inr (b\<lparr>increased_local_ref := inc\<rparr>))"
    unfolding borrowed_clone_def by (rule bind_ret_cases)
  show ?thesis
    unfolding rd q(2)
    by (rule inc_to_borrowed_inv [OF assms(1) handle_issued(1) [OF assms] q(1)]) simp
qed

lemma lend_inv:
  assumes "sys_inv prof s" and "ob \<in> set (owned s)"
  shows "sys_inv prof (got add_object_or_ref (object_to_object_or_ref prof ob (dev s)) s)"
proof -
  obtain r d' where rd: "object_to_object_or_ref prof ob (dev s) = (r, d')"
    by (cases "object_to_object_or_ref prof ob (dev s)")
  let ?mk = "\<lambda>inc. \<lparr>bbo_id = bo_id ob, bbo_handler = bo_handler ob, increased_local_ref = inc\<rparr>"
  obtain q where q: "with_refstate (bo_id ob) (increase_local prof) (dev s) = (q, d')"
      "r = bind_out q (\<lambda>inc. Inr (Object (?mk inc)))"
    using rd unfolding object_to_object_or_ref_def by (rule bind_ret_cases)
  have "got add_object_or_ref (r, d') s = got add_borrowed (bind_out q (\<lambda>inc. Inr (?mk inc)), d') s"
    using q(2) by (cases q) (simp_all add: got_def add_object_or_ref_def)
  then show ?thesis
    using inc_to_borrowed_inv [OF assms(1) registered_issued [OF assms(1) owned_registered [OF assms]]
        q(1), of ?mk] rd
    by simp
qed

lemma erase_ref_inv:
  assumes "sys_inv prof s"
  shows "sys_inv prof (got add_borrowed (object_ref_as_erased prof r (dev s)) s)"
proof -
  obtain x d' where xd: "borrowed_from_id prof (bor_id r) (dev s) = (x, d')"
    by (cases "borrowed_from_id prof (bor_id r) (dev s)")
  have "sys_inv prof (got (add_opt add_borrowed) (x, d') s)"
    using upgrade_inv [OF assms, of "bor_id r"] xd by simp
  then show ?thesis
    using xd
    by (cases x; cases "case x of Inl p \<Rightarrow> None | Inr y \<Rightarrow> y")
      (simp_all add: object_ref_as_erased_def got_def add_opt_def)
qed

lemma inc_to_ref_inv:
  assumes "sys_inv prof s" and "issued (dev s) i"
    and "with_refstate i (increase_local prof) (dev s) = (q, d')" and "bor_id r = i"
  shows "sys_inv prof (got (\<lambda>_. add_ref r) (q, d') s)"
    and "sys_inv prof (got (\<lambda>inc. add_opt add_ref (if inc then Some r else None)) (q, d') s)"
  using inc_inv(1) [OF assms(1,3)] inc_inv(3) [OF assms(1,3,2,4)]
  by (cases q; simp add: got_def add_ref_def add_opt_def)+

lemma downcast_inv:
  assumes "sys_inv prof s"
  shows "sys_inv prof (got (add_opt add_ref) (object_ref_from_id prof is_t i (dev s)) s)"
proof -
  obtain r d' where rd: "object_ref_from_id prof is_t i (dev s) = (r, d')"
    by (cases "object_ref_from_id prof is_t i (dev s)")
  then show ?thesis
  proof (cases rule: object_ref_from_id_cases)
    case absent
    with assms rd show ?thesis by (simp add: got_def add_opt_def)
  next
    case (found h q)
    let ?r = "\<lparr>bor_id = i, bor_handler = h\<rparr>"
    have "got (add_opt add_ref) (r, d') s =
        got (\<lambda>inc. add_opt add_ref (if inc then Some ?r else None)) (q, d') s"
      using found(4) by (cases q) (simp_all add: got_def)
    then show ?thesis
      using inc_to_ref_inv(2) [OF assms registered_issued [OF assms found(1)] found(3), of ?r] rd
      by simp
  qed
qed

lemma clone_ref_inv:
  assumes "sys_inv prof s" and "r \<in> set (obj_refs s)"
  shows "sys_inv prof (got add_ref (object_ref_clone prof r (dev s)) s)"
proof -
  obtain x d' where xd: "object_ref_clone prof r (dev s) = (x, d')"
    by (cases "object_ref_clone prof r (dev s)")
  then obtain q where q: "with_refstate (bor_id r) (increase_local prof) (dev s) = (q, d')"
      "x = bind_out q (\<lambda>_. Inr r)"
    unfolding object_ref_clone_def by (rule bind_ret_cases)
  have "got add_ref (x, d') s = got (\<lambda>_. add_ref r) (q, d') s"
    using q(2) by (cases q) (simp_all add: got_def)
  then show ?thesis
    using inc_to_ref_inv(1) [OF assms(1) handle_issued(2) [OF assms] q(1), of r] xd by simp
qed

lemma got_ignore: "got (\<lambda>_ s. s) (r, d) s = s\<lparr>dev := d\<rparr>"
  by (cases r) (simp_all add: got_def)

lemma counted_pos: "b \<in> set bs \<Longrightarrow> increased_local_ref b \<Longrightarrow> 0 < counted bs (bbo_id b)"
  using counted_remove1 [of b bs "bbo_id b"] by simp

lemma ref_count_pos: "r \<in> set rs \<Longrightarrow> 0 < ref_count rs (bor_id r)"
  using ref_count_remove1 [of r rs "bor_id r"] by simp

lemma live_remove_borrowed:
  assumes "b \<in> set (borrowed s)"
  shows "live (s\<lparr>borrowed := remove1 b (borrowed s)\<rparr>) =
    (if increased_local_ref b then (live s)(bbo_id b := live s (bbo_id b) - 1) else live s)"
  using counted_remove1 [OF assms] by (auto simp: live_def fun_eq_iff)

lemma live_remove_ref:
  assumes "r \<in> set (obj_refs s)"
  shows "live (s\<lparr>obj_refs := remove1 r (obj_refs s)\<rparr>) = (live s)(bor_id r := live s (bor_id r) - 1)"
  using ref_count_remove1 [OF assms] by (auto simp: live_def fun_eq_iff)

lemma set_remove1_sub: "set (remove1 x xs) \<subseteq> set xs"
  by (rule set_remove1_subset)

lemma drop_borrowed_inv:
  assumes "sys_inv prof s" and b: "b \<in> set (borrowed s)"
  shows "sys_inv prof
    (got (\<lambda>_ s. s) (borrowed_drop prof b (dev s)) (s\<lparr>borrowed := remove1 b (borrowed s)\<rparr>))"
proof (cases "increased_local_ref b")
  case False
  with assms show ?thesis
    using live_remove_borrowed [OF b] set_remove1_sub [of b "borrowed s"]
    by (auto simp: borrowed_drop_def got_ignore sys_inv_def handles_issued_def)
next
  case True
  obtain r d' where rd: "borrowed_drop prof b (dev s) = (r, d')" by (cases "borrowed_drop prof b (dev s)")
  with True obtain q where q: "with_refstate (bbo_id b) (decrease_local prof) (dev s) = (q, d')"
    unfolding borrowed_drop_def by (auto elim: bind_ret_cases)
  have "0 < live s (bbo_id b)" using counted_pos [OF b True] by (simp add: live_def)
  from dec_inv [OF assms(1) q _ this, of "s\<lparr>borrowed := remove1 b (borrowed s), dev := d'\<rparr>"]
  show ?thesis
    using live_remove_borrowed [OF b] True set_remove1_sub [of b "borrowed s"]
    by (simp add: rd got_ignore)
qed

lemma drop_ref_inv:
  assumes "sys_inv prof s" and r: "r \<in> set (obj_refs s)"
  shows "sys_inv prof
    (got (\<lambda>_ s. s) (object_ref_drop prof r (dev s)) (s\<lparr>obj_refs := remove1 r (obj_refs s)\<rparr>))"
proof -
  obtain x d' where xd: "object_ref_drop prof r (dev s) = (x, d')" by (cases "object_ref_drop prof r (dev s)")
  then obtain q where q: "with_refstate (bor_id r) (decrease_local prof) (dev s) = (q, d')"
    unfolding object_ref_drop_def by (auto elim: bind_ret_cases)
  have "0 < live s (bor_id r)" using ref_count_pos [OF r] by (simp add: live_def)
  from dec_inv [OF assms(1) q _ this, of "s\<lparr>obj_refs := remove1 r (obj_refs s), dev := d'\<rparr>"]
  show ?thesis
    using live_remove_ref [OF r] set_remove1_sub [of r "obj_refs s"] by (simp add: xd got_ignore)
qed

lemma remote_inv:
  assumes "sys_inv prof s" and "op \<in> {Inc_Remote, Dec_Remote, Mark_Pending, Clear_Pending}"
  shows "sys_inv prof (got (\<lambda>_ s. s) (with_refstate i (ref_step prof op) (dev s)) s)"
proof -
  obtain q d' where q: "with_refstate i (ref_step prof op) (dev s) = (q, d')"
    by (cases "with_refstate i (ref_step prof op) (dev s)")
  note same = with_refstate_registry [OF q]
  show ?thesis
    using assms(1) registry_ok_same [OF same] issued_same [OF same]
      tracks_remote [OF _ q assms(2), of "live s"]
    by (simp add: q got_ignore sys_inv_def handles_issued_def)
qed

text \<open>Service mode moves the guard; the registry does not change otherwise.\<close>

lemma retain_inv:
  assumes "sys_inv prof s" and ob: "ob \<in> set (owned s)"
  shows "sys_inv prof (s\<lparr>owned := remove1 ob (owned s), dev := (dev s)\<lparr>retained_services :=
    (retained_services (dev s))(bo_id ob \<mapsto> ob)\<rparr>\<rparr>)"
proof -
  let ?d = "dev s"
  have r: "registry_ok ?d (owned s)" using assms(1) by (simp add: sys_inv_def)
  have d: "distinct (map bo_id (owned s))" using r by (simp add: registry_ok_def)
  then have set: "set (remove1 ob (owned s)) = set (owned s) - {ob}"
    by (simp add: distinct_map)
  have other: "\<forall>x \<in> set (owned s) - {ob}. bo_id x \<noteq> bo_id ob"
    using d ob by (auto simp: distinct_map inj_on_def)
  have "distinct (map bo_id (remove1 ob (owned s)))"
    using d by (auto simp: distinct_map intro: inj_on_subset)
  then have "registry_ok (?d\<lparr>retained_services := (retained_services ?d)(bo_id ob \<mapsto> ob)\<rparr>)
      (remove1 ob (owned s))"
    using r ob other unfolding registry_ok_def set by (auto simp: issued_def)
  then show ?thesis
    using assms(1) by (simp add: sys_inv_def handles_issued_def issued_def tracks_def)
qed

lemma serve_inv:
  assumes inv: "sys_inv prof s" and ob: "ob \<in> set (owned s)"
  shows "sys_inv prof (got (add_service (bo_id ob)) (to_service prof is_t ob (dev s))
      (s\<lparr>owned := remove1 ob (owned s)\<rparr>))"
proof -
  let ?s = "s\<lparr>owned := remove1 ob (owned s), dev := (dev s)\<lparr>retained_services :=
    (retained_services (dev s))(bo_id ob \<mapsto> ob)\<rparr>\<rparr>"
  have "sys_inv prof ?s" by (rule retain_inv [OF inv ob])
  from downcast_inv [OF this, of is_t "bo_id ob"] show ?thesis
    by (auto simp: to_service_def got_def add_service_def add_opt_def add_ref_def bind_def
        split: prod.splits sum.splits option.splits)
qed

lemma cleanup_inv:
  assumes inv: "sys_inv prof s"
  shows "sys_inv prof (got (\<lambda>_ s. s) (cleanup_service i (dev s)) s)"
proof (cases "retained_services (dev s) i")
  case None
  with inv show ?thesis by (simp add: cleanup_service_def got_ignore)
next
  case (Some ob)
  let ?d = "dev s"
  have r: "registry_ok ?d (owned s)" using inv by (simp add: sys_inv_def)
  with Some have id: "bo_id ob = i" by (simp add: registry_ok_def)
  have no: "\<forall>x \<in> set (owned s). bo_id x \<noteq> i" using r Some by (auto simp: registry_ok_def)
  have "registry_ok (?d\<lparr>objects := (objects ?d)(i := None),
      object_refcounts := (object_refcounts ?d)(i := None),
      retained_services := (retained_services ?d)(i := None)\<rparr>) (owned s)"
    using r no by (intro remove_registry [OF r]) (auto simp: registry_ok_def)
  then have "registry_ok ((?d\<lparr>retained_services := (retained_services ?d)(i := None)\<rparr>)
      \<lparr>objects := (objects ?d)(i := None), object_refcounts := (object_refcounts ?d)(i := None)\<rparr>)
      (owned s)"
    by (simp add: registry_ok_def issued_def)
  from remove_inv [OF inv this] show ?thesis
    using Some id by (simp add: cleanup_service_def object_drop_def remove_binder_object_def got_ignore)
qed

lemma obj_step_inv: "obj_step prof is_t s t \<Longrightarrow> sys_inv prof s \<Longrightarrow> sys_inv prof t"
proof (induction rule: obj_step.induct)
  case (task_cleans i s)
  then show ?case using cleanup_inv [of prof "s\<lparr>fired := remove1 i (fired s)\<rparr>" i] by simp
qed (simp_all add: register_inv drop_owned_inv lend_inv serve_inv upgrade_inv clone_borrowed_inv
    drop_borrowed_inv downcast_inv clone_ref_inv erase_ref_inv drop_ref_inv remote_inv
    del: ref_step.simps)

lemma init_inv: "sys_inv prof (init_sys k)"
  by (simp add: sys_inv_def init_sys_def new_device_def registry_ok_def handles_issued_def tracks_def)

lemma reachable_inv: "obj_reachable prof is_t k s \<Longrightarrow> sys_inv prof s"
  by (induction rule: obj_reachable.induct) (auto intro: init_inv obj_step_inv)

section \<open>A run to test the properties on\<close>

text \<open>
  One object is registered and made a service; its only handle is dropped; the cleanup
  task sees the zero; before it runs on, a weak reference is upgraded.
\<close>

definition demo_id :: binder_object_id where "demo_id = \<lparr>id_raw = 1, id_cookie = 0\<rparr>"

definition demo_state :: "u32 \<Rightarrow> object_ref_state" where
  "demo_state n = \<lparr>ors_id = demo_id, counts = \<lparr>local = n, remote = 0, pending = 0\<rparr>,
     poisoned = False, strong_count = n\<rparr>"

definition demo_object :: "unit binder_object" where
  "demo_object = \<lparr>bo_id = demo_id, bo_handler = ()\<rparr>"

definition demo_dev :: "(binder_object_id \<rightharpoonup> unit binder_object) \<Rightarrow> u32 \<Rightarrow> unit binder_device" where
  "demo_dev rs n = (new_device (\<lambda>_. None))\<lparr>object_id_counter := 2, objects := [demo_id \<mapsto> ()],
     object_refcounts := [demo_id \<mapsto> demo_state n], retained_services := rs\<rparr>"

definition demo_registered :: "unit obj_sys" where
  "demo_registered = \<lparr>dev = demo_dev Map.empty 0, owned = [demo_object], borrowed = [],
     obj_refs = [], tasks = [], fired = []\<rparr>"

definition demo_served :: "unit obj_sys" where
  "demo_served = \<lparr>dev = demo_dev [demo_id \<mapsto> demo_object] 1, owned = [], borrowed = [],
     obj_refs = [\<lparr>bor_id = demo_id, bor_handler = ()\<rparr>], tasks = [(demo_id, True)], fired = []\<rparr>"

definition demo_dropped :: "unit obj_sys" where
  "demo_dropped = \<lparr>dev = demo_dev [demo_id \<mapsto> demo_object] 0, owned = [], borrowed = [],
     obj_refs = [], tasks = [(demo_id, True)], fired = []\<rparr>"

definition demo_borrowed :: "unit borrowed_binder_object" where
  "demo_borrowed = \<lparr>bbo_id = demo_id, bbo_handler = (), increased_local_ref = True\<rparr>"

definition demo_upgraded :: "unit obj_sys" where
  "demo_upgraded = \<lparr>dev = demo_dev [demo_id \<mapsto> demo_object] 1, owned = [],
     borrowed = [demo_borrowed], obj_refs = [], tasks = [], fired = [demo_id]\<rparr>"

lemmas demo_defs = demo_id_def demo_state_def demo_object_def demo_dev_def demo_registered_def
  demo_served_def demo_dropped_def demo_borrowed_def demo_upgraded_def

abbreviation demo_reachable :: "unit obj_sys \<Rightarrow> bool" where
  "demo_reachable \<equiv> obj_reachable Checked (\<lambda>_. True) (\<lambda>_. None)"

lemmas device_op_defs = with_refstate_def increase_local_def decrease_local_def update_def
  total_def add_checked_def sub_checked_def get_handler_def

lemma reach_registered: "demo_reachable demo_registered"
proof -
  let ?s = "init_sys (\<lambda>_. None)"
  have eq: "got (\<lambda>ob s. s\<lparr>owned := ob # owned s\<rparr>) (register_object () (dev ?s)) ?s = demo_registered"
    by (simp add: got_def register_object_def init_sys_def new_device_def new_ref_state_def
        zero_counts_def demo_defs Let_def)
  have "object_id_counter (dev ?s) \<noteq> - 1"
    by (simp add: init_sys_def new_device_def)
  from obj_step.register [OF this, of Checked "\<lambda>_. True" "()"]
  have "obj_step Checked (\<lambda>_. True) ?s demo_registered"
    unfolding eq .
  with obj_reachable.start show ?thesis by (rule obj_reachable.step)
qed

lemma reach_served: "demo_reachable demo_served"
proof -
  have "got (add_service (bo_id demo_object)) (to_service Checked (\<lambda>_. True) demo_object (dev demo_registered))
      (demo_registered\<lparr>owned := remove1 demo_object (owned demo_registered)\<rparr>) = demo_served"
    by (simp add: got_def to_service_def object_ref_from_id_def device_op_defs add_service_def
        demo_defs new_device_def)
  moreover have "demo_object \<in> set (owned demo_registered)" by (simp add: demo_registered_def)
  ultimately show ?thesis
    using obj_reachable.step [OF reach_registered obj_step.serve, of demo_object] by simp
qed

lemma reach_dropped: "demo_reachable demo_dropped"
proof -
  let ?r = "\<lparr>bor_id = demo_id, bor_handler = ()\<rparr>"
  have "got (\<lambda>_ s. s) (object_ref_drop Checked ?r (dev demo_served))
      (demo_served\<lparr>obj_refs := remove1 ?r (obj_refs demo_served)\<rparr>) = demo_dropped"
    by (simp add: got_def object_ref_drop_def device_op_defs demo_defs new_device_def)
  moreover have "?r \<in> set (obj_refs demo_served)" by (simp add: demo_served_def)
  ultimately show ?thesis
    using obj_reachable.step [OF reach_served obj_step.drop_ref, of ?r] by simp
qed

lemma reach_upgraded: "demo_reachable demo_upgraded"
proof -
  let ?f = "demo_dropped\<lparr>tasks := remove1 (demo_id, True) (tasks demo_dropped),
      fired := demo_id # fired demo_dropped\<rparr>"
  have "(demo_id, True) \<in> set (tasks demo_dropped)" "hit_zero_ready (dev demo_dropped) demo_id True"
    by (simp_all add: demo_defs hit_zero_ready_def)
  from obj_reachable.step [OF reach_dropped obj_step.task_fires [OF this]]
  have f: "demo_reachable ?f" .
  have "got (add_opt add_borrowed) (borrowed_from_id Checked demo_id (dev ?f)) ?f = demo_upgraded"
    by (simp add: got_def borrowed_from_id_def add_opt_def add_borrowed_def device_op_defs
        demo_defs new_device_def)
  with obj_reachable.step [OF f obj_step.upgrade, of demo_id] show ?thesis by simp
qed

section \<open>Properties of local objects\<close>



lemma decrease_local_ok:
  assumes "published Checked st" and "\<not> poisoned st" and "0 < unat (local (counts st))"
  shows "\<exists>c. fst (decrease_local Checked st) = Inr c"
proof -
  have "unat (strong_count st) = abs_total (abs_of st)"
    using assms(1,2) by (simp add: published_def total_Checked_Inr abs_of_def)
  with unat_u32_less [of "strong_count st"] assms(3)
  have "\<exists>a. abs_step Dec_Local (abs_of st) = Some a"
    by (auto simp: abs_step_def abs_of_def)
  with ref_step_cases [OF assms(2), of Dec_Local] show ?thesis by auto
qed





text \<open>Registration never reuses an identifier: in every reachable state whose counter
  has not wrapped, the new object's identifier is not registered, no handle to an earlier
  object carries it, and it is not zero, the value that means "no context manager".\<close>

theorem register_gives_fresh_id:
  assumes "obj_reachable prof is_t k s" and "register_object h (dev s) = (Inr ob, d')"
  shows "objects (dev s) (bo_id ob) = None \<and> object_refcounts (dev s) (bo_id ob) = None \<and>
    (\<forall>b \<in> set (borrowed s). bbo_id b \<noteq> bo_id ob) \<and>
    (\<forall>r \<in> set (obj_refs s). bor_id r \<noteq> bo_id ob) \<and> id_raw (bo_id ob) \<noteq> 0 \<and>
    objects d' (bo_id ob) = Some h"
proof -
  have inv: "registry_ok (dev s) (owned s)" "handles_issued s"
    using reachable_inv [OF assms(1)] by (simp_all add: sys_inv_def)
  have ob: "bo_id ob = \<lparr>id_raw = object_id_counter (dev s), id_cookie = 0\<rparr>"
    "objects d' (bo_id ob) = Some h"
    using assms(2) by (auto simp: register_object_def Let_def)
  have new: "\<not> issued (dev s) (bo_id ob)" unfolding ob(1) by (rule fresh_not_issued)
  then have none: "bo_id ob \<notin> dom (objects (dev s))"
    using inv(1) by (auto simp: registry_ok_def)
  then have "bo_id ob \<notin> dom (object_refcounts (dev s))"
    using inv(1) by (simp add: registry_ok_def)
  moreover have "id_raw (bo_id ob) \<noteq> 0"
    using inv(1) ob(1) by (auto simp: registry_ok_def)
  ultimately show ?thesis
    using inv(2) new none ob(2) by (auto simp: handles_issued_def domIff)
qed

theorem register_gives_fresh_id_witness:
  "objects (dev demo_served) \<lparr>id_raw = 2, id_cookie = 0\<rparr> = None"
proof -
  have "register_object () (dev demo_served) =
      (Inr \<lparr>bo_id = \<lparr>id_raw = 2, id_cookie = 0\<rparr>, bo_handler = ()\<rparr>,
       snd (register_object () (dev demo_served)))"
    by (simp add: register_object_def Let_def demo_served_def demo_dev_def)
  from register_gives_fresh_id [OF reach_served this] show ?thesis by simp
qed

text \<open>\<open>to_service\<close> holds all the references it expects: in every reachable state, calling
  it on an owned object of its own handler type never fails the \<open>expect\<close>; when it returns, the
  guard is retained, the handle carries the object's handler and the cleanup task has a receiver
  to wait on.\<close>

theorem to_service_expect_holds:
  assumes "obj_reachable prof is_t k s" and "ob \<in> set (owned s)" and "is_t (bo_handler ob)"
  shows "fst (to_service prof is_t ob (dev s)) \<noteq> Inl Unwrap_Failed \<and>
    (\<forall>x d'. to_service prof is_t ob (dev s) = (Inr x, d') \<longrightarrow>
       x = (\<lparr>bor_id = bo_id ob, bor_handler = bo_handler ob\<rparr>, True) \<and>
       retained_services d' (bo_id ob) = Some ob)"
proof -
  let ?d = "(dev s)\<lparr>retained_services := (retained_services (dev s))(bo_id ob \<mapsto> ob)\<rparr>"
  have inv: "sys_inv prof s" by (rule reachable_inv [OF assms(1)])
  have h: "objects (dev s) (bo_id ob) = Some (bo_handler ob)"
    by (rule owned_registered [OF inv assms(2)])
  have "bo_id ob \<in> dom (object_refcounts (dev s))"
    using inv h by (auto simp: sys_inv_def registry_ok_def)
  then obtain st where st: "object_refcounts (dev s) (bo_id ob) = Some st" by blast
  obtain r st' where r: "increase_local prof st = (r, st')" by (cases "increase_local prof st")
  have "r \<noteq> Inl Unwrap_Failed"
    using r by (auto simp: increase_local_def update_def total_def add_checked_def bind_out_def
        split: if_splits sum.splits)
  then show ?thesis
    using h st r assms(3)
    by (cases r) (auto simp: to_service_def object_ref_from_id_def get_handler_def with_refstate_def)
qed

theorem to_service_expect_holds_witness:
  "fst (to_service Checked (\<lambda>_. True) demo_object (dev demo_registered)) \<noteq> Inl Unwrap_Failed"
  using to_service_expect_holds [OF reach_registered, of demo_object]
  by (simp add: demo_registered_def)



text \<open>The cleanup task checks and acts in two steps, and a weak reference can be upgraded
  in between: there is a run in which the program holds a counted, live handle (published count 1)
  to a service that the task then unregisters, so its handler and its counts are gone.\<close>

theorem cleanup_can_unregister_live_service:
  "\<exists>s t b. obj_reachable Checked (\<lambda>_. True) (\<lambda>_. None) (s :: unit obj_sys) \<and>
     obj_step Checked (\<lambda>_. True) s t \<and> borrowed s = [b] \<and> increased_local_ref b \<and>
     map_option strong_count (object_refcounts (dev s) (bbo_id b)) = Some 1 \<and>
     borrowed t = [b] \<and> get_handler (dev t) (bbo_id b) = None \<and>
     object_refcounts (dev t) (bbo_id b) = None"
proof -
  let ?t = "got (\<lambda>_ s. s) (cleanup_service demo_id (dev demo_upgraded))
      (demo_upgraded\<lparr>fired := remove1 demo_id (fired demo_upgraded)\<rparr>)"
  have "demo_id \<in> set (fired demo_upgraded)" by (simp add: demo_upgraded_def)
  then have "obj_step Checked (\<lambda>_. True) demo_upgraded ?t" by (rule obj_step.task_cleans)
  moreover have "borrowed ?t = [demo_borrowed]" "get_handler (dev ?t) demo_id = None"
    "object_refcounts (dev ?t) demo_id = None"
    by (simp_all add: got_def cleanup_service_def object_drop_def remove_binder_object_def
        get_handler_def demo_defs)
  ultimately show ?thesis
    using reach_upgraded
    by (intro exI [of _ demo_upgraded] exI [of _ ?t] exI [of _ demo_borrowed])
      (simp add: demo_defs)
qed

text \<open>A service is cleaned up completely: if its task has fired, running it on leaves the
  object in none of the three maps of the device and changes no other object.\<close>

theorem cleanup_removes_service:
  assumes "obj_reachable prof is_t k s" and "i \<in> dom (retained_services (dev s))"
  shows "(\<exists>d'. cleanup_service i (dev s) = (Inr (), d') \<and> objects d' = (objects (dev s))(i := None) \<and>
    object_refcounts d' = (object_refcounts (dev s))(i := None) \<and>
    retained_services d' = (retained_services (dev s))(i := None))"
proof -
  obtain ob where ob: "retained_services (dev s) i = Some ob" using assms(2) by blast
  then have "bo_id ob = i"
    using reachable_inv [OF assms(1)] by (simp add: sys_inv_def registry_ok_def)
  with ob show ?thesis
    by (simp add: cleanup_service_def object_drop_def remove_binder_object_def)
qed

theorem cleanup_removes_service_witness:
  "objects (snd (cleanup_service demo_id (dev demo_dropped))) demo_id = None"
proof -
  have "demo_id \<in> dom (retained_services (dev demo_dropped))" by (simp add: demo_defs)
  from cleanup_removes_service [OF reach_dropped this] show ?thesis by auto
qed

end
