(* ===== verification/Handle_Values.thy ===== *)
theory Handle_Values
  imports Local_Objects Transact
begin

text \<open>
  The handles of \<open>src/src/binder_object.rs\<close> as values: comparison and hashing, the order of
  identifiers, conversions between handles, and the futures of death notifications.

  A process may have several devices, and a handle belongs to one of them. The other theories
  look at one device at a time; here a handle is a value with the address of its device.
\<close>

section \<open>The order of identifiers\<close>

text \<open>The derived order: by the identifier, then by the cookie.\<close>

definition id_less :: "('a :: linorder) binder_object_id_scheme \<Rightarrow> 'a binder_object_id_scheme \<Rightarrow> bool" where
  "id_less i j \<longleftrightarrow> id_raw i < id_raw j \<or>
     id_raw i = id_raw j \<and> (id_cookie i < id_cookie j \<or>
     id_cookie i = id_cookie j \<and> binder_object_id.more i < binder_object_id.more j)"

instantiation binder_object_id_ext :: (linorder) linorder
begin

definition less_binder_object_id_ext :: "'a binder_object_id_scheme \<Rightarrow> 'a binder_object_id_scheme \<Rightarrow> bool" where
  "less_binder_object_id_ext i j \<longleftrightarrow> id_less i j"

definition less_eq_binder_object_id_ext :: "'a binder_object_id_scheme \<Rightarrow> 'a binder_object_id_scheme \<Rightarrow> bool" where
  "less_eq_binder_object_id_ext i j \<longleftrightarrow> i < j \<or> i = j"

instance
  by standard (auto simp: less_binder_object_id_ext_def less_eq_binder_object_id_ext_def id_less_def
      intro: binder_object_id.equality)

end

section \<open>Equality and hashing\<close>

record 'v handle =
  on_device :: nat
  of_value :: 'v

text \<open>\<open>PartialEq\<close> of each kind of handle.\<close>

definition weak_ref_eq :: "weak_binder_ref arc handle \<Rightarrow> weak_binder_ref arc handle \<Rightarrow> bool" where
  "weak_ref_eq x y \<longleftrightarrow> on_device x = on_device y \<and> weak_handle (of_value x) = weak_handle (of_value y)"

definition ref_eq :: "binder_ref arc handle \<Rightarrow> binder_ref arc handle \<Rightarrow> bool" where
  "ref_eq x y \<longleftrightarrow> on_device x = on_device y \<and> ref_handle (of_value x) = ref_handle (of_value y)"

definition borrowed_eq :: "'h borrowed_binder_object handle \<Rightarrow> 'h borrowed_binder_object handle \<Rightarrow> bool" where
  "borrowed_eq x y \<longleftrightarrow> on_device x = on_device y \<and> bbo_id (of_value x) = bbo_id (of_value y)"

definition object_eq :: "'h binder_object handle \<Rightarrow> 'h binder_object handle \<Rightarrow> bool" where
  "object_eq x y \<longleftrightarrow> on_device x = on_device y \<and> bo_id (of_value x) = bo_id (of_value y)"

definition weak_object_eq :: "binder_object_id handle \<Rightarrow> binder_object_id handle \<Rightarrow> bool" where
  "weak_object_eq x y \<longleftrightarrow> on_device x = on_device y \<and> of_value x = of_value y"

text \<open>The derived equality of \<open>BinderObjectOrRef\<close>; \<open>Arc\<close>s are compared by their contents.\<close>

fun object_or_ref_eq :: "'h binder_object_or_ref handle \<Rightarrow> 'h binder_object_or_ref handle \<Rightarrow> bool" where
  "object_or_ref_eq \<lparr>on_device = d, of_value = Object b\<rparr> \<lparr>on_device = e, of_value = Object c\<rparr> =
     borrowed_eq \<lparr>on_device = d, of_value = b\<rparr> \<lparr>on_device = e, of_value = c\<rparr>"
| "object_or_ref_eq \<lparr>on_device = d, of_value = WeakObject i\<rparr> \<lparr>on_device = e, of_value = WeakObject j\<rparr> =
     weak_object_eq \<lparr>on_device = d, of_value = i\<rparr> \<lparr>on_device = e, of_value = j\<rparr>"
| "object_or_ref_eq \<lparr>on_device = d, of_value = Ref a\<rparr> \<lparr>on_device = e, of_value = Ref b\<rparr> =
     ref_eq \<lparr>on_device = d, of_value = a\<rparr> \<lparr>on_device = e, of_value = b\<rparr>"
| "object_or_ref_eq \<lparr>on_device = d, of_value = WeakRef v\<rparr> \<lparr>on_device = e, of_value = WeakRef w\<rparr> =
     weak_ref_eq \<lparr>on_device = d, of_value = v\<rparr> \<lparr>on_device = e, of_value = w\<rparr>"
| "object_or_ref_eq x y = False"

text \<open>What is written to the \<open>Hasher\<close>, in order.\<close>

datatype hash_word = Hash_Pointer nat | Hash_Usize usize | Hash_U32 u32 | Hash_Variant nat

definition hash_id :: "binder_object_id \<Rightarrow> hash_word list" where
  "hash_id i = [Hash_Usize (id_raw i), Hash_Usize (id_cookie i)]"

definition weak_ref_hash :: "weak_binder_ref arc handle \<Rightarrow> hash_word list" where
  "weak_ref_hash x = [Hash_Pointer (on_device x), Hash_U32 (weak_handle (of_value x))]"

definition ref_hash :: "binder_ref arc handle \<Rightarrow> hash_word list" where
  "ref_hash x = Hash_Pointer (on_device x) #
     weak_ref_hash \<lparr>on_device = on_device x, of_value = weak (arc_val (of_value x))\<rparr>"

definition borrowed_hash :: "'h borrowed_binder_object handle \<Rightarrow> hash_word list" where
  "borrowed_hash x = Hash_Pointer (on_device x) # hash_id (bbo_id (of_value x))"

definition object_hash :: "'h binder_object handle \<Rightarrow> hash_word list" where
  "object_hash x = Hash_Pointer (on_device x) # hash_id (bo_id (of_value x))"

definition weak_object_hash :: "binder_object_id handle \<Rightarrow> hash_word list" where
  "weak_object_hash x = Hash_Pointer (on_device x) # hash_id (of_value x)"

fun object_or_ref_hash :: "'h binder_object_or_ref handle \<Rightarrow> hash_word list" where
  "object_or_ref_hash \<lparr>on_device = d, of_value = Object b\<rparr> =
     Hash_Variant 0 # borrowed_hash \<lparr>on_device = d, of_value = b\<rparr>"
| "object_or_ref_hash \<lparr>on_device = d, of_value = WeakObject i\<rparr> =
     Hash_Variant 1 # weak_object_hash \<lparr>on_device = d, of_value = i\<rparr>"
| "object_or_ref_hash \<lparr>on_device = d, of_value = Ref a\<rparr> =
     Hash_Variant 2 # ref_hash \<lparr>on_device = d, of_value = a\<rparr>"
| "object_or_ref_hash \<lparr>on_device = d, of_value = WeakRef v\<rparr> =
     Hash_Variant 3 # weak_ref_hash \<lparr>on_device = d, of_value = v\<rparr>"

text \<open>Values of the same variant and their case distinction.\<close>

lemma handle_cases [case_names handle]:
  obtains d v where "x = \<lparr>on_device = d, of_value = v\<rparr>"
  by (cases x) auto

lemma id_eq_iff: "i = j \<longleftrightarrow> id_raw i = id_raw j \<and> id_cookie i = id_cookie (j :: binder_object_id)"
  by (auto intro: binder_object_id.equality)

lemmas handle_eq_defs = weak_ref_eq_def ref_eq_def borrowed_eq_def object_eq_def weak_object_eq_def
lemmas handle_hash_defs = weak_ref_hash_def ref_hash_def borrowed_hash_def object_hash_def
  weak_object_hash_def hash_id_def

lemma ref_handle_weak: "ref_handle a = weak_handle (weak (arc_val a))"
  by (simp add: ref_handle_def)

lemma union_write32_eq [simp]: "union_write32 junk a = union_write32 junk b \<longleftrightarrow> a = b"
  by (metis union_read_write32)


section \<open>Conversions\<close>

definition borrowed_downgrade :: "'h borrowed_binder_object \<Rightarrow> binder_object_id" where
  "borrowed_downgrade b = bbo_id b"

definition object_downgrade :: "'h binder_object \<Rightarrow> binder_object_id" where
  "object_downgrade ob = bo_id ob"

definition object_ref_downgrade :: "'h binder_object_ref \<Rightarrow> binder_object_id" where
  "object_ref_downgrade r = bor_id r"

definition weak_object_upgrade :: "profile \<Rightarrow> binder_object_id \<Rightarrow>
    ('h, 'h borrowed_binder_object option) dev_action" where
  "weak_object_upgrade pf i = borrowed_from_id pf i"

text \<open>\<open>is_t\<close> says whether a handler has the static type that is asked for.\<close>

definition downcast_handler :: "('h \<Rightarrow> bool) \<Rightarrow> 'h borrowed_binder_object \<Rightarrow> 'h option" where
  "downcast_handler is_t b = (if is_t (bbo_handler b) then Some (bbo_handler b) else None)"

definition borrowed_downcast :: "profile \<Rightarrow> ('h \<Rightarrow> bool) \<Rightarrow> 'h borrowed_binder_object \<Rightarrow>
    ('h, 'h binder_object_ref option) dev_action" where
  "borrowed_downcast pf is_t b = object_ref_from_id pf is_t (bbo_id b)"

text \<open>Whether the future of a death notification is ready; that of a local object never is.\<close>

definition weak_death_ready :: "'h binder_device \<Rightarrow> weak_binder_ref arc \<Rightarrow> bool" where
  "weak_death_ready d w \<longleftrightarrow> cancelled d (death (arc_val w))"

definition death_ready :: "'h binder_device \<Rightarrow> 'h binder_object_or_ref \<Rightarrow> bool" where
  "death_ready d x = (case x of
     Object b \<Rightarrow> False
   | WeakObject i \<Rightarrow> False
   | Ref a \<Rightarrow> weak_death_ready d (weak (arc_val a))
   | WeakRef w \<Rightarrow> weak_death_ready d w)"

text \<open>The future is ready exactly when \<open>alive\<close> says that the object is dead.\<close>

theorem death_ready_iff_dead: "death_ready d x \<longleftrightarrow> \<not> object_or_ref_alive d x"
  by (cases x) (simp_all add: death_ready_def weak_death_ready_def object_or_ref_alive_def weak_alive_def)

text \<open>What is gained and lost by downgrading: upgrading the weak handle of any handle to a
  registered object gives back a counted handle to the same object with its registered handler.\<close>

theorem downgrade_upgrade:
  assumes "obj_reachable pf is_t k s" and "objects (obj_sys.dev s) i = Some h"
    and "weak_object_upgrade pf i (obj_sys.dev s) = (Inr ob, d)"
  shows "\<exists>b. ob = Some b \<and> borrowed_downgrade b = i \<and> bbo_handler b = h \<and> increased_local_ref b"
proof -
  have "registry_ok (obj_sys.dev s) (owned s)"
    using reachable_inv [OF assms(1)] by (simp add: sys_inv_def)
  then have "object_refcounts (obj_sys.dev s) i \<noteq> None"
    using assms(2) by (auto simp: registry_ok_def)
  then show ?thesis
    using assms(2,3) by (auto simp: weak_object_upgrade_def borrowed_from_id_def get_handler_def
        borrowed_downgrade_def with_refstate_def elim!: bind_Inr_cases simp: bind_out_eq_Inr split: prod.splits)
qed

section \<open>Fresh identifiers\<close>

text \<open>Identifiers are handed out in order: a new object's identifier is greater than that of every
  registered object and of every handle, in every reachable state.\<close>

theorem identifiers_increase:
  assumes "obj_reachable pf is_t k s" and "register_object h (obj_sys.dev s) = (Inr ob, d)"
  shows "(\<forall>i \<in> dom (objects (obj_sys.dev s)). i < bo_id ob) \<and>
    (\<forall>b \<in> set (borrowed s). bbo_id b < bo_id ob) \<and> (\<forall>r \<in> set (obj_refs s). bor_id r < bo_id ob)"
proof -
  have inv: "registry_ok (obj_sys.dev s) (owned s)" "handles_issued s"
    using reachable_inv [OF assms(1)] by (simp_all add: sys_inv_def)
  have "bo_id ob = \<lparr>id_raw = object_id_counter (obj_sys.dev s), id_cookie = 0\<rparr>"
    using assms(2) by (auto simp: register_object_def Let_def)
  then have "issued (obj_sys.dev s) i \<Longrightarrow> i < bo_id ob" for i
    by (simp add: issued_def less_binder_object_id_ext_def id_less_def)
  with inv show ?thesis by (auto simp: registry_ok_def handles_issued_def)
qed

section \<open>Handles of another device\<close>

text \<open>A call does not look at the device of its target: given an object of another device, it runs
  whatever this device has registered under the same identifier, and the first objects of two devices
  have the same one.\<close>

theorem foreign_target_runs_other_handler:
  assumes "register_object h1 (new_device k1) = (Inr ob, d1)"
    and "world.dev w = snd (register_object h2 (new_device k2))"
  shows "transact_blocking E (Target_Object ob) c b w = self_transact_blocking E (bo_id ob) c b w \<and>
    get_handler (world.dev w) (bo_id ob) = Some h2 \<and>
    (d \<noteq> e \<longrightarrow> \<not> object_eq \<lparr>on_device = d, of_value = ob\<rparr> \<lparr>on_device = e, of_value = ob2\<rparr>)"
  using assms
  by (auto simp: transact_blocking_def pbind_def preads_def get_transaction_target_handle_def
      register_object_def new_device_def get_handler_def Let_def object_eq_def)

theorem downgrade_upgrade_witness:
  "\<exists>b. fst (weak_object_upgrade Checked Local_Objects.demo_id (obj_sys.dev demo_served)) = Inr (Some b) \<and>
     bbo_id b = Local_Objects.demo_id"
proof -
  have "\<exists>ob d. weak_object_upgrade Checked Local_Objects.demo_id (obj_sys.dev demo_served) = (Inr ob, d)"
    by (simp add: weak_object_upgrade_def borrowed_from_id_def demo_defs get_handler_def bind_def
        device_op_defs)
  then obtain ob d where up: "weak_object_upgrade Checked Local_Objects.demo_id (obj_sys.dev demo_served) = (Inr ob, d)"
    by blast
  have "objects (obj_sys.dev demo_served) Local_Objects.demo_id = Some ()" by (simp add: demo_defs)
  from downgrade_upgrade [OF reach_served this up] up show ?thesis
    by (auto simp: borrowed_downgrade_def)
qed

theorem identifiers_increase_witness: "Local_Objects.demo_id < \<lparr>id_raw = 2, id_cookie = 0\<rparr>"
proof -
  have "register_object () (obj_sys.dev demo_served) =
      (Inr \<lparr>bo_id = \<lparr>id_raw = 2, id_cookie = 0\<rparr>, bo_handler = ()\<rparr>,
       snd (register_object () (obj_sys.dev demo_served)))"
    by (simp add: register_object_def Let_def demo_served_def demo_dev_def)
  from identifiers_increase [OF reach_served this] show ?thesis by (simp add: demo_defs)
qed

end
