(* ===== verification/Device_Start.thy ===== *)
theory Device_Start
  imports Transact
begin

text \<open>
  Opening a device: \<open>BinderDevice::new\<close> and \<open>from_fd\<close> of \<open>src/src/device.rs\<close>, the memory map, and
  the start of the looper threads, which wait for a flag before they enter the driver.

  The system calls are what they answer. \<open>from_fd\<close> is given twice: as a function that says what
  a call comes to, and as a step relation in which the looper threads run beside the opening
  thread.
\<close>

section \<open>What a call comes to\<close>

text \<open>
  \<open>map_error\<close> is the answer of \<open>mmap\<close>, \<open>spawns\<close> whether the i-th thread could be started,
  \<open>in_runtime\<close> whether \<open>Handle::current\<close> finds a runtime, \<open>limit_error\<close> the answer of
  \<open>BINDER_SET_MAX_THREADS\<close>.
\<close>

record start_env =
  map_error :: "errno option"
  in_runtime :: bool
  spawns :: "nat \<Rightarrow> bool"
  limit_error :: "errno option"

record mem_map =
  map_ptr :: usize
  map_len :: nat

definition MAP_LEN :: nat where "MAP_LEN = 1024 * 1024"

text \<open>\<open>BinderBackingMemMap::new\<close> unwraps.\<close>

definition map_device :: "start_env \<Rightarrow> usize \<Rightarrow> nat \<Rightarrow> mem_map outcome" where
  "map_device env addr n = (case map_error env of
     None \<Rightarrow> Inr \<lparr>map_ptr = addr, map_len = n\<rparr> | Some e \<Rightarrow> Inl Unwrap_Failed)"

text \<open>
  The range of the loopers: a thread that cannot be spawned is left out; the closure asks for
  the current runtime each time.
\<close>

primrec spawn_loopers :: "start_env \<Rightarrow> nat list \<Rightarrow> nat list outcome" where
  "spawn_loopers env [] = Inr []"
| "spawn_loopers env (i # is) =
     (if \<not> in_runtime env then Inl Assert_Failed
      else bind_out (spawn_loopers env is) (\<lambda>js. Inr (if spawns env i then i # js else js)))"

text \<open>\<open>SetMaxThreads(5)\<close> is unwrapped before the loopers are released.\<close>

definition MAX_THREADS :: u32 where "MAX_THREADS = 5"

definition from_fd :: "start_env \<Rightarrow> usize \<Rightarrow> (nat \<Rightarrow> errno option) \<Rightarrow> nat \<Rightarrow>
    ('h binder_device \<times> nat list) outcome" where
  "from_fd env addr k looper_count =
     bind_out (map_device env addr MAP_LEN) (\<lambda>backing.
     bind_out (spawn_loopers env [0..<looper_count]) (\<lambda>loopers.
     case limit_error env of
       Some e \<Rightarrow> Inl Unwrap_Failed
     | None \<Rightarrow> Inr (new_device k, loopers)))"

definition open_device :: "start_env \<Rightarrow> (errno + usize) \<Rightarrow> (nat \<Rightarrow> errno option) \<Rightarrow>
    (errno + 'h binder_device \<times> nat list) outcome" where
  "open_device env opened k = (case opened of
     Inl e \<Rightarrow> Inr (Inl e)
   | Inr addr \<Rightarrow> bind_out (from_fd env addr k 5) (\<lambda>d. Inr (Inr d)))"

section \<open>The threads\<close>

text \<open>Where the opening thread is, and what it is doing.\<close>

datatype 'h opener =
    Mapping
  | Spawning nat
  | Limiting "'h binder_device"
  | Releasing "'h binder_device"
  | Opened "'h binder_device"
  | Failed panic

text \<open>A looper thread sleeps until the flag is set, then runs \<open>looper\<close>.\<close>

datatype looper_state = Sleeping | Looping

record 'h start_state =
  opener :: "'h opener"
  threads :: "(nat \<times> looper_state) list"
  started :: bool

definition start_init :: "'h start_state" where
  "start_init = \<lparr>opener = Mapping, threads = [], started = False\<rparr>"

inductive start_step :: "start_env \<Rightarrow> (nat \<Rightarrow> errno option) \<Rightarrow> nat \<Rightarrow> 'h start_state \<Rightarrow> 'h start_state \<Rightarrow> bool"
  for env k n where
  mapped: "opener s = Mapping \<Longrightarrow> map_error env = None \<Longrightarrow>
    start_step env k n s (s\<lparr>opener := Spawning 0\<rparr>)"
| unmapped: "opener s = Mapping \<Longrightarrow> map_error env = Some e \<Longrightarrow>
    start_step env k n s (s\<lparr>opener := Failed Unwrap_Failed\<rparr>)"
| no_runtime: "opener s = Spawning i \<Longrightarrow> i < n \<Longrightarrow> \<not> in_runtime env \<Longrightarrow>
    start_step env k n s (s\<lparr>opener := Failed Assert_Failed\<rparr>)"
| spawned: "opener s = Spawning i \<Longrightarrow> i < n \<Longrightarrow> in_runtime env \<Longrightarrow> spawns env i \<Longrightarrow>
    start_step env k n s (s\<lparr>opener := Spawning (i + 1), threads := threads s @ [(i, Sleeping)]\<rparr>)"
| not_spawned: "opener s = Spawning i \<Longrightarrow> i < n \<Longrightarrow> in_runtime env \<Longrightarrow> \<not> spawns env i \<Longrightarrow>
    start_step env k n s (s\<lparr>opener := Spawning (i + 1)\<rparr>)"
| built: "opener s = Spawning n \<Longrightarrow> start_step env k n s (s\<lparr>opener := Limiting (new_device k)\<rparr>)"
| limited: "opener s = Limiting d \<Longrightarrow> limit_error env = None \<Longrightarrow>
    start_step env k n s (s\<lparr>opener := Releasing d\<rparr>)"
| not_limited: "opener s = Limiting d \<Longrightarrow> limit_error env = Some e \<Longrightarrow>
    start_step env k n s (s\<lparr>opener := Failed Unwrap_Failed\<rparr>)"
| released: "opener s = Releasing d \<Longrightarrow>
    start_step env k n s (s\<lparr>opener := Opened d, started := True\<rparr>)"
| still_waiting: "j < length (threads s) \<Longrightarrow> snd (threads s ! j) = Sleeping \<Longrightarrow> \<not> started s \<Longrightarrow>
    start_step env k n s s"
| enters: "j < length (threads s) \<Longrightarrow> snd (threads s ! j) = Sleeping \<Longrightarrow> started s \<Longrightarrow>
    start_step env k n s (s\<lparr>threads := (threads s)[j := (fst (threads s ! j), Looping)]\<rparr>)"

inductive start_reachable :: "start_env \<Rightarrow> (nat \<Rightarrow> errno option) \<Rightarrow> nat \<Rightarrow> 'h start_state \<Rightarrow> bool"
  for env k n where
  init: "start_reachable env k n start_init"
| step: "start_reachable env k n s \<Longrightarrow> start_step env k n s t \<Longrightarrow> start_reachable env k n t"

inductive_cases start_step_cases: "start_step env k n s t"

section \<open>The relation and the function\<close>

abbreviation sleeping :: "nat list \<Rightarrow> (nat \<times> looper_state) list" where
  "sleeping is \<equiv> map (\<lambda>i. (i, Sleeping)) is"

definition start_inv :: "start_env \<Rightarrow> (nat \<Rightarrow> errno option) \<Rightarrow> nat \<Rightarrow> 'h start_state \<Rightarrow> bool" where
  "start_inv env k n s \<longleftrightarrow> (case opener s of
     Mapping \<Rightarrow> threads s = [] \<and> \<not> started s
   | Spawning i \<Rightarrow> i \<le> n \<and> map_error env = None \<and> (0 < i \<longrightarrow> in_runtime env) \<and>
       threads s = sleeping (filter (spawns env) [0..<i]) \<and> \<not> started s
   | Limiting d \<Rightarrow> d = new_device k \<and> map_error env = None \<and> (0 < n \<longrightarrow> in_runtime env) \<and>
       threads s = sleeping (filter (spawns env) [0..<n]) \<and> \<not> started s
   | Releasing d \<Rightarrow> d = new_device k \<and> map_error env = None \<and> limit_error env = None \<and>
       (0 < n \<longrightarrow> in_runtime env) \<and> threads s = sleeping (filter (spawns env) [0..<n]) \<and> \<not> started s
   | Opened d \<Rightarrow> d = new_device k \<and> map_error env = None \<and> limit_error env = None \<and>
       (0 < n \<longrightarrow> in_runtime env) \<and> map fst (threads s) = filter (spawns env) [0..<n] \<and> started s
   | Failed p \<Rightarrow> \<not> started s \<and> (\<exists>is. threads s = sleeping is) \<and>
       (map_error env \<noteq> None \<and> p = Unwrap_Failed \<or>
        map_error env = None \<and> 0 < n \<and> \<not> in_runtime env \<and> p = Assert_Failed \<or>
        map_error env = None \<and> (0 < n \<longrightarrow> in_runtime env) \<and> limit_error env \<noteq> None \<and>
          p = Unwrap_Failed \<and> threads s = sleeping (filter (spawns env) [0..<n])))"

lemma start_inv_step:
  assumes "start_step env k n s t" and "start_inv env k n s"
  shows "start_inv env k n t"
  using assms
proof cases
  case (enters j)
  then have "\<exists>d. opener s = Opened d"
    using assms(2) by (auto simp: start_inv_def split: opener.splits)
  moreover have "map fst ((threads s)[j := (fst (threads s ! j), Looping)]) = map fst (threads s)"
    using enters list_update_id [of "map fst (threads s)" j] by (simp add: map_update)
  ultimately show ?thesis
    using assms(2) enters(1) by (auto simp: start_inv_def)
qed (auto simp: start_inv_def comp_def)

lemma start_reachable_inv: "start_reachable env k n s \<Longrightarrow> start_inv env k n s"
proof (induction rule: start_reachable.induct)
  case init
  then show ?case by (simp add: start_inv_def start_init_def)
qed (rule start_inv_step)

lemma spawn_loopers_ok:
  "is = [] \<or> in_runtime env \<Longrightarrow> spawn_loopers env is = Inr (filter (spawns env) is)"
  by (induction "is") auto

lemma spawn_loopers_no_runtime:
  "is \<noteq> [] \<Longrightarrow> \<not> in_runtime env \<Longrightarrow> spawn_loopers env is = Inl Assert_Failed"
  by (cases "is") auto

text \<open>C15: Loopers wait for the device: in every interleaving of the opening thread with the looper
  threads, no looper has entered the driver before the device is complete and its thread limit is set;
  and when the opening thread is done, it returns the device and has started the loopers, or panics,
  exactly as the function says.\<close>

theorem loopers_wait_for_device:
  assumes "start_reachable env k n s"
  shows "((\<exists>i. (i, Looping) \<in> set (threads s)) \<longrightarrow> opener s = Opened (new_device k)) \<and>
    (opener s = Opened d \<longrightarrow> from_fd env addr k n = Inr (d, map fst (threads s))) \<and>
    (opener s = Failed p \<longrightarrow> (from_fd env addr k n :: ('h binder_device \<times> nat list) outcome) = Inl p)"
proof -
  note inv = start_reachable_inv [OF assms, unfolded start_inv_def]
  have range: "[0..<n] = [] \<longleftrightarrow> n = 0" by simp
  show ?thesis
    using inv spawn_loopers_ok [of "[0..<n]" env] spawn_loopers_no_runtime [of "[0..<n]" env]
    by (auto simp: from_fd_def map_device_def range split: opener.splits option.splits)
qed

text \<open>C40: A failed start leaks its loopers: if the kernel refuses the thread limit, the flag is never
  set, so once the opening thread has panicked every looper it has spawned sleeps and checks the flag
  forever, and no step of any thread changes anything.\<close>

theorem failed_start_leaks_loopers:
  assumes "start_reachable env k n s" and "map_error env = None" and "in_runtime env"
    and "limit_error env = Some e" and "opener s = Failed p"
  shows "threads s = sleeping (filter (spawns env) [0..<n]) \<and> \<not> started s \<and>
    (\<forall>t. start_step env k n s t \<longrightarrow> t = s)"
proof -
  have inv: "threads s = sleeping (filter (spawns env) [0..<n])" "\<not> started s"
    using start_reachable_inv [OF assms(1)] assms(2-5) by (auto simp: start_inv_def)
  moreover have "t = s" if "start_step env k n s t" for t
    using that assms(5) inv(2) by cases simp_all
  ultimately show ?thesis by blast
qed

section \<open>Every start comes to an end\<close>

lemma reach_spawning:
  assumes "map_error env = None" and "in_runtime env" and "i \<le> n"
  shows "start_reachable env k n \<lparr>opener = Spawning i, threads = sleeping (filter (spawns env) [0..<i]),
    started = False\<rparr>"
  using assms(3)
proof (induction i)
  case 0
  from start_reachable.step [OF start_reachable.init start_step.mapped] assms(1) show ?case
    by (simp add: start_init_def)
next
  case (Suc i)
  note step = start_reachable.step [OF Suc.IH [OF Suc_leD [OF Suc.prems]]]
  show ?case
  proof (cases "spawns env i")
    case True
    with step [OF start_step.spawned] Suc.prems assms(2) show ?thesis by simp
  next
    case False
    with step [OF start_step.not_spawned] Suc.prems assms(2) show ?thesis by simp
  qed
qed

lemma reach_looping:
  assumes "start_reachable env k n s" and "started s" and "threads s = entered @ sleeping is"
    and "\<forall>x \<in> set entered. snd x = Looping"
  shows "\<exists>t. start_reachable env k n t \<and> opener t = opener s \<and>
    threads t = entered @ map (\<lambda>i. (i, Looping)) is"
  using assms
proof (induction "is" arbitrary: s entered)
  case (Cons i "is")
  let ?t = "s\<lparr>threads := (threads s)[length entered := (fst (threads s ! length entered), Looping)]\<rparr>"
  have "start_reachable env k n ?t"
    using Cons.prems by (intro start_reachable.step [OF Cons.prems(1) start_step.enters]) simp_all
  moreover have "threads ?t = (entered @ [(i, Looping)]) @ sleeping is"
    using Cons.prems(3) by (simp add: nth_append list_update_append)
  ultimately show ?case
    using Cons.IH [of ?t "entered @ [(i, Looping)]"] Cons.prems(2,4) by simp
qed auto

text \<open>A start without failures can always be completed, with every looper that was spawned in the
  driver.\<close>

theorem start_completes:
  assumes "map_error env = None" and "in_runtime env" and "limit_error env = None"
  shows "\<exists>s. start_reachable env k n s \<and> opener s = Opened (new_device k) \<and>
    threads s = map (\<lambda>i. (i, Looping)) (filter (spawns env) [0..<n])"
proof -
  let ?ts = "sleeping (filter (spawns env) [0..<n])"
  have r: "start_reachable env k n \<lparr>opener = Spawning n, threads = ?ts, started = False\<rparr>"
    by (rule reach_spawning [OF assms(1,2) order.refl])
  from start_reachable.step [OF r start_step.built]
  have "start_reachable env k n \<lparr>opener = Limiting (new_device k), threads = ?ts, started = False\<rparr>" by simp
  from start_reachable.step [OF this start_step.limited]
  have "start_reachable env k n \<lparr>opener = Releasing (new_device k), threads = ?ts, started = False\<rparr>"
    using assms(3) by simp
  from start_reachable.step [OF this start_step.released]
  have "start_reachable env k n \<lparr>opener = Opened (new_device k), threads = ?ts, started = True\<rparr>" by simp
  from reach_looping [OF this, of "[]" "filter (spawns env) [0..<n]"] show ?thesis by simp
qed

section \<open>Examples\<close>

definition good_start :: start_env where
  "good_start = \<lparr>map_error = None, in_runtime = True, spawns = (\<lambda>i. i \<noteq> 1), limit_error = None\<rparr>"

definition refused_limit :: start_env where
  "refused_limit = good_start\<lparr>limit_error := Some 22\<rparr>"

theorem loopers_wait_for_device_witness:
  "\<exists>s. start_reachable good_start (\<lambda>_. None) 3 (s :: unit start_state) \<and>
    threads s = [(0, Looping), (2, Looping)] \<and>
    from_fd good_start 4096 (\<lambda>_. None) 3 = Inr (new_device (\<lambda>_. None) :: unit binder_device, [0, 2])"
proof -
  have up: "filter (spawns good_start) [0..<3] = [0, 2]"
    by (simp add: good_start_def upt_rec)
  obtain s :: "unit start_state" where s: "start_reachable good_start (\<lambda>_. None) 3 s"
    "opener s = Opened (new_device (\<lambda>_. None))" "threads s = [(0, Looping), (2, Looping)]"
    using start_completes [of good_start "\<lambda>_. None" 3] unfolding up by (auto simp: good_start_def)
  from loopers_wait_for_device [OF s(1), of "new_device (\<lambda>_. None)" 4096] s show ?thesis by auto
qed

lemma limit_is_refused:
  assumes "map_error env = None" and "in_runtime env" and "limit_error env = Some e"
  shows "\<exists>s. start_reachable env k n s \<and> opener s = Failed Unwrap_Failed"
proof -
  note r = reach_spawning [OF assms(1,2) order.refl]
  from start_reachable.step [OF start_reachable.step [OF r start_step.built] start_step.not_limited]
    assms(3)
  show ?thesis by fastforce
qed

theorem failed_start_leaks_loopers_witness:
  "\<exists>s. start_reachable refused_limit (\<lambda>_. None) 3 (s :: unit start_state) \<and>
    threads s = [(0, Sleeping), (2, Sleeping)] \<and>
    (\<forall>t. start_step refused_limit (\<lambda>_. None) 3 s t \<longrightarrow> t = s)"
proof -
  have env: "map_error refused_limit = None" "in_runtime refused_limit" "limit_error refused_limit = Some 22"
    by (simp_all add: refused_limit_def good_start_def)
  have up: "filter (spawns refused_limit) [0..<3] = [0, 2]"
    by (simp add: refused_limit_def good_start_def upt_rec)
  obtain s :: "unit start_state" where
    s: "start_reachable refused_limit (\<lambda>_. None) 3 s" "opener s = Failed Unwrap_Failed"
    using limit_is_refused [OF env] by blast
  from failed_start_leaks_loopers [OF s(1) env s(2)] s(1) up show ?thesis by auto
qed

end
