(* ===== verification/Device_Tests.thy ===== *)
theory Device_Tests
  imports Local_Objects
begin

text \<open>
  The unit tests of \<open>src/src/device.rs\<close> as programs over the model: the same calls in the same
  order with the same assertions, a failed assertion being a panic. That they pass on the
  model, for both build profiles, checks the model against what the authors expect of the
  code; the multi-threaded test passes under every interleaving of its threads, not only those
  a run happens to meet.

  The state of a test is the system of \<open>Local_Objects\<close>: the device, the handles that are
  alive, and the cleanup tasks that were spawned and run when the test yields.
\<close>

section \<open>What the tests do\<close>

type_synonym ('h, 'a) test = "('h obj_sys, 'a) action"

definition on_dev :: "('h, 'a) dev_action \<Rightarrow> ('h, 'a) test" where
  "on_dev m s = (case m (dev s) of (r, d) \<Rightarrow> (r, s\<lparr>dev := d\<rparr>))"

definition assert_that :: "('s \<Rightarrow> bool) \<Rightarrow> ('s, unit) action" where
  "assert_that P s = (if P s then Inr () else Inl Assert_Failed, s)"

text \<open>Each operation with the handle it makes or consumes.\<close>

definition t_register :: "'h \<Rightarrow> ('h, 'h binder_object) test" where
  "t_register h = bind (on_dev (register_object h)) (\<lambda>ob.
     bind (modify (\<lambda>s. s\<lparr>owned := ob # owned s\<rparr>)) (\<lambda>_. ret ob))"

definition t_drop_object :: "'h binder_object \<Rightarrow> ('h, unit) test" where
  "t_drop_object ob = bind (modify (\<lambda>s. s\<lparr>owned := remove1 ob (owned s)\<rparr>))
     (\<lambda>_. on_dev (object_drop ob))"

definition t_to_service :: "profile \<Rightarrow> 'h binder_object \<Rightarrow> ('h, 'h binder_object_ref) test" where
  "t_to_service prof ob =
     bind (modify (\<lambda>s. s\<lparr>owned := remove1 ob (owned s)\<rparr>)) (\<lambda>_.
     bind (on_dev (to_service prof (\<lambda>_. True) ob)) (\<lambda>x.
     bind (modify (add_service (bo_id ob) x)) (\<lambda>_. ret (fst x))))"

definition t_clone :: "profile \<Rightarrow> 'h binder_object_ref \<Rightarrow> ('h, 'h binder_object_ref) test" where
  "t_clone prof r = bind (on_dev (object_ref_clone prof r)) (\<lambda>c.
     bind (modify (add_ref c)) (\<lambda>_. ret c))"

definition t_drop_ref :: "profile \<Rightarrow> 'h binder_object_ref \<Rightarrow> ('h, unit) test" where
  "t_drop_ref prof r = bind (modify (\<lambda>s. s\<lparr>obj_refs := remove1 r (obj_refs s)\<rparr>))
     (\<lambda>_. on_dev (object_ref_drop prof r))"

text \<open>\<open>yield_now\<close> on the runtime of one thread: every spawned task whose future is ready runs.\<close>

definition poll_task :: "binder_object_id \<times> bool \<Rightarrow> 'h obj_sys \<Rightarrow> 'h obj_sys" where
  "poll_task t s = (if hit_zero_ready (dev s) (fst t) (snd t)
     then got (\<lambda>_ s. s) (cleanup_service (fst t) (dev s)) (s\<lparr>tasks := remove1 t (tasks s)\<rparr>)
     else s)"

definition yield_now :: "('h, unit) test" where
  "yield_now = modify (\<lambda>s. fold poll_task (tasks s) s)"

primrec repeat_yield :: "nat \<Rightarrow> ('h, unit) test" where
  "repeat_yield 0 = ret ()"
| "repeat_yield (Suc n) = bind yield_now (\<lambda>_. repeat_yield n)"

text \<open>
  \<open>timeout\<close> on a future: it is polled, then once more after the other tasks have run; if it
  is still not ready nothing will change any more and the time runs out.
\<close>

definition expect_within :: "('h obj_sys \<Rightarrow> bool) \<Rightarrow> ('h, unit) test" where
  "expect_within ready = bind (reads ready) (\<lambda>r. if r then ret ()
     else bind yield_now (\<lambda>_. bind (reads ready) (\<lambda>r. if r then ret () else panic_with Unwrap_Failed)))"

text \<open>\<open>Weak::upgrade\<close> on the handler: something that is alive still holds it.\<close>

definition handler_alive :: "'h \<Rightarrow> 'h obj_sys \<Rightarrow> bool" where
  "handler_alive h s \<longleftrightarrow> h \<in> ran (objects (dev s)) \<or> h \<in> bo_handler ` ran (retained_services (dev s)) \<or>
     h \<in> bo_handler ` set (owned s) \<or> h \<in> bbo_handler ` set (borrowed s) \<or>
     h \<in> bor_handler ` set (obj_refs s)"

abbreviation registered :: "binder_object_id \<Rightarrow> 'h obj_sys \<Rightarrow> bool" where
  "registered i s \<equiv> objects (dev s) i \<noteq> None"

abbreviation has_counts :: "binder_object_id \<Rightarrow> 'h obj_sys \<Rightarrow> bool" where
  "has_counts i s \<equiv> object_refcounts (dev s) i \<noteq> None"

abbreviation retained :: "binder_object_id \<Rightarrow> 'h obj_sys \<Rightarrow> bool" where
  "retained i s \<equiv> retained_services (dev s) i \<noteq> None"

section \<open>Tests of objects and services\<close>

definition binder_object_drops_cleanly :: "'h \<Rightarrow> ('h, unit) test" where
  "binder_object_drops_cleanly noop =
     bind (t_register noop) (\<lambda>obj. let i = bo_id obj in
     bind (assert_that (registered i)) (\<lambda>_.
     bind (assert_that (has_counts i)) (\<lambda>_.
     bind (t_drop_object obj) (\<lambda>_.
     bind (assert_that (\<lambda>s. \<not> registered i s)) (\<lambda>_.
     assert_that (\<lambda>s. \<not> has_counts i s))))))"

definition service_drops_when_last_ref_gone :: "profile \<Rightarrow> 'h \<Rightarrow> ('h, unit) test" where
  "service_drops_when_last_ref_gone prof handler =
     bind (t_register handler) (\<lambda>obj. let i = bo_id obj in
     bind (t_to_service prof obj) (\<lambda>service_ref.
     bind (assert_that (retained i)) (\<lambda>_.
     bind (assert_that (registered i)) (\<lambda>_.
     bind (assert_that (handler_alive handler)) (\<lambda>_.
     bind (t_drop_ref prof service_ref) (\<lambda>_.
     bind (repeat_yield 10) (\<lambda>_.
     bind (assert_that (\<lambda>s. \<not> retained i s)) (\<lambda>_.
     bind (assert_that (\<lambda>s. \<not> registered i s)) (\<lambda>_.
     assert_that (\<lambda>s. \<not> handler_alive handler s))))))))))"

definition strong_refs_hit_zero_fires_on_last_drop :: "profile \<Rightarrow> 'h \<Rightarrow> ('h, unit) test" where
  "strong_refs_hit_zero_fires_on_last_drop prof noop =
     bind (t_register noop) (\<lambda>obj.
     bind (t_to_service prof obj) (\<lambda>service_ref.
     bind (reads (has_counts (bor_id service_ref))) (\<lambda>rx.
     bind (t_drop_ref prof service_ref) (\<lambda>_.
     expect_within (\<lambda>s. hit_zero_ready (dev s) (bor_id service_ref) rx)))))"

definition service_survives_until_all_clones_dropped :: "profile \<Rightarrow> 'h \<Rightarrow> ('h, unit) test" where
  "service_survives_until_all_clones_dropped prof handler =
     bind (t_register handler) (\<lambda>obj. let i = bo_id obj in
     bind (t_to_service prof obj) (\<lambda>ref_a.
     bind (t_clone prof ref_a) (\<lambda>ref_b.
     bind (t_drop_ref prof ref_a) (\<lambda>_.
     bind yield_now (\<lambda>_.
     bind (assert_that (retained i)) (\<lambda>_.
     bind (assert_that (handler_alive handler)) (\<lambda>_.
     bind (t_drop_ref prof ref_b) (\<lambda>_.
     bind (repeat_yield 10) (\<lambda>_.
     bind (assert_that (\<lambda>s. \<not> retained i s)) (\<lambda>_.
     assert_that (\<lambda>s. \<not> handler_alive handler s)))))))))))"

section \<open>Tests of the counts\<close>

abbreviation assert_count :: "u32 \<Rightarrow> (object_ref_state, unit) action" where
  "assert_count n \<equiv> assert_that (\<lambda>st. strong_count st = n)"

definition concurrent_pending_sends_do_not_cross_cancel :: "profile \<Rightarrow> unit outcome" where
  "concurrent_pending_sends_do_not_cross_cancel prof = fst (
     (bind (mark_pending_remote prof) (\<lambda>_.
      bind (mark_pending_remote prof) (\<lambda>_.
      bind (assert_count 2) (\<lambda>_.
      bind (clear_pending_remote prof) (\<lambda>_.
      bind (assert_count 1) (\<lambda>_.
      bind (increase_remote prof) (\<lambda>_.
      bind (assert_count 1) (\<lambda>_.
      bind (decrease_remote prof) (\<lambda>_.
      assert_count 0))))))))) (new_ref_state \<lparr>id_raw = 1, id_cookie = 0\<rparr>))"

definition single_acquire_resolves_all_racing_pending_sends :: "profile \<Rightarrow> unit outcome" where
  "single_acquire_resolves_all_racing_pending_sends prof = fst (
     (bind (mark_pending_remote prof) (\<lambda>_.
      bind (mark_pending_remote prof) (\<lambda>_.
      bind (mark_pending_remote prof) (\<lambda>_.
      bind (assert_count 3) (\<lambda>_.
      bind (increase_remote prof) (\<lambda>_.
      bind (assert_count 1) (\<lambda>_.
      bind (decrease_remote prof) (\<lambda>_.
      assert_count 0)))))))) (new_ref_state \<lparr>id_raw = 2, id_cookie = 0\<rparr>))"

text \<open>
  The hammering test: in each round two threads work on one state while a task waits for zero.
  The scheduler orders the operations of the two threads; the task looks at the value the
  watch holds, so it is done when the value is zero after the threads have ended.
\<close>

definition hammer_round :: "profile \<Rightarrow> usize \<Rightarrow> ref_op list \<Rightarrow> unit outcome" where
  "hammer_round prof round schedule = fst (
     (bind (increase_local prof) (\<lambda>_.
      bind (foldr (\<lambda>op rest. bind (ref_step prof op) (\<lambda>_. rest)) schedule (ret ())) (\<lambda>_.
      assert_count 0))) (new_ref_state \<lparr>id_raw = round, id_cookie = 0\<rparr>))"

primrec hammer_rounds :: "profile \<Rightarrow> nat \<Rightarrow> nat \<Rightarrow> (nat \<Rightarrow> ref_op list) \<Rightarrow> unit outcome" where
  "hammer_rounds prof n 0 schedule = Inr ()"
| "hammer_rounds prof n (Suc m) schedule =
     bind_out (hammer_round prof (of_nat n) (schedule n)) (\<lambda>_. hammer_rounds prof (n + 1) m schedule)"

definition watch_survives_concurrent_os_thread_hammering :: "profile \<Rightarrow> (nat \<Rightarrow> ref_op list) \<Rightarrow> unit outcome" where
  "watch_survives_concurrent_os_thread_hammering prof schedule = hammer_rounds prof 0 2000 schedule"

definition thread_1 :: "ref_op list" where "thread_1 = [Inc_Local, Dec_Local]"
definition thread_2 :: "ref_op list" where "thread_2 = [Dec_Local]"

section \<open>They pass\<close>

lemmas test_defs = on_dev_def assert_that_def t_register_def t_drop_object_def t_to_service_def
  t_clone_def t_drop_ref_def poll_task_def yield_now_def expect_within_def handler_alive_def got_def
  add_service_def add_ref_def register_object_def object_drop_def remove_binder_object_def to_service_def
  object_ref_from_id_def get_handler_def object_ref_clone_def object_ref_drop_def cleanup_service_def
  with_refstate_def hit_zero_ready_def init_sys_def new_device_def

lemmas count_defs = ref_op_defs update_def total_def add_checked_def sub_checked_def saturating_sub_def
  new_ref_state_def zero_counts_def assert_that_def

lemma bind_weak_cong: "s = t \<Longrightarrow> bind m f s = bind m f t"
  by simp

lemma bind_eval: "bind m f s = (case m s of (r, t) \<Rightarrow> (case r of Inl p \<Rightarrow> (Inl p, t) | Inr x \<Rightarrow> f x t))"
  by (simp add: bind_def split: prod.splits sum.splits)

lemmas eval_congs = bind_weak_cong prod.case_cong_weak sum.case_cong_weak

lemma drops_cleanly: "fst (binder_object_drops_cleanly h (init_sys k)) = Inr ()"
  by (simp add: binder_object_drops_cleanly_def test_defs bind_eval Let_def cong: eval_congs)

lemma ref_state_steps:
  "increase_local prof (new_ref_state i) =
     (Inr \<lparr>local = 1, remote = 0, pending = 0\<rparr>,
      \<lparr>ors_id = i, counts = \<lparr>local = 1, remote = 0, pending = 0\<rparr>, poisoned = False, strong_count = 1\<rparr>)"
  "increase_local prof \<lparr>ors_id = i, counts = \<lparr>local = 1, remote = 0, pending = 0\<rparr>, poisoned = False, strong_count = 1\<rparr> =
     (Inr \<lparr>local = 2, remote = 0, pending = 0\<rparr>,
      \<lparr>ors_id = i, counts = \<lparr>local = 2, remote = 0, pending = 0\<rparr>, poisoned = False, strong_count = 2\<rparr>)"
  "decrease_local prof \<lparr>ors_id = i, counts = \<lparr>local = 1, remote = 0, pending = 0\<rparr>, poisoned = False, strong_count = 1\<rparr> =
     (Inr \<lparr>local = 0, remote = 0, pending = 0\<rparr>,
      \<lparr>ors_id = i, counts = \<lparr>local = 0, remote = 0, pending = 0\<rparr>, poisoned = False, strong_count = 0\<rparr>)"
  "decrease_local prof \<lparr>ors_id = i, counts = \<lparr>local = 2, remote = 0, pending = 0\<rparr>, poisoned = False, strong_count = 2\<rparr> =
     (Inr \<lparr>local = 1, remote = 0, pending = 0\<rparr>,
      \<lparr>ors_id = i, counts = \<lparr>local = 1, remote = 0, pending = 0\<rparr>, poisoned = False, strong_count = 1\<rparr>)"
  by (simp_all add: count_defs)

lemma drops_with_last_ref: "fst (service_drops_when_last_ref_gone prof h (init_sys k)) = Inr ()"
  by (simp add: service_drops_when_last_ref_gone_def test_defs ref_state_steps eval_nat_numeral bind_eval Let_def cong: eval_congs)

lemma fires_on_last_drop: "fst (strong_refs_hit_zero_fires_on_last_drop prof h (init_sys k)) = Inr ()"
  by (simp add: strong_refs_hit_zero_fires_on_last_drop_def test_defs ref_state_steps bind_eval Let_def cong: eval_congs)

lemma survives_clones: "fst (service_survives_until_all_clones_dropped prof h (init_sys k)) = Inr ()"
  by (simp add: service_survives_until_all_clones_dropped_def test_defs ref_state_steps eval_nat_numeral bind_eval Let_def cong: eval_congs)

lemma no_cross_cancel: "concurrent_pending_sends_do_not_cross_cancel prof = Inr ()"
  by (simp add: concurrent_pending_sends_do_not_cross_cancel_def count_defs bind_eval Let_def cong: eval_congs)

lemma single_acquire: "single_acquire_resolves_all_racing_pending_sends prof = Inr ()"
  by (simp add: single_acquire_resolves_all_racing_pending_sends_def count_defs bind_eval Let_def cong: eval_congs)

lemma hammered: "schedule \<in> shuffles thread_1 thread_2 \<Longrightarrow> hammer_round prof round schedule = Inr ()"
  by (auto simp: thread_1_def thread_2_def hammer_round_def count_defs bind_eval
      cong: eval_congs)

lemma hammered_rounds:
  "(\<And>round. schedule round \<in> shuffles thread_1 thread_2) \<Longrightarrow> hammer_rounds prof n m schedule = Inr ()"
  by (induction m arbitrary: n) (simp_all add: hammered)



section \<open>Any number of clones\<close>

text \<open>
  The test of the clones for any number of them: every drop but the last leaves the service
  retained and its handler alive, the last one ends both.
\<close>

primrec clone_times :: "profile \<Rightarrow> 'h binder_object_ref \<Rightarrow> nat \<Rightarrow> ('h, unit) test" where
  "clone_times prof r 0 = ret ()"
| "clone_times prof r (Suc n) = bind (t_clone prof r) (\<lambda>_. clone_times prof r n)"

primrec drop_clones :: "profile \<Rightarrow> 'h \<Rightarrow> 'h binder_object_ref \<Rightarrow> nat \<Rightarrow> ('h, unit) test" where
  "drop_clones prof h r 0 = ret ()"
| "drop_clones prof h r (Suc n) =
     bind (t_drop_ref prof r) (\<lambda>_.
     bind yield_now (\<lambda>_.
     bind (assert_that (\<lambda>s. retained (bor_id r) s \<and> registered (bor_id r) s \<and> handler_alive h s)) (\<lambda>_.
     drop_clones prof h r n)))"

definition service_survives_clones :: "profile \<Rightarrow> 'h \<Rightarrow> nat \<Rightarrow> ('h, unit) test" where
  "service_survives_clones prof h n =
     bind (t_register h) (\<lambda>obj.
     bind (t_to_service prof obj) (\<lambda>r.
     bind (clone_times prof r n) (\<lambda>_.
     bind (drop_clones prof h r n) (\<lambda>_.
     bind (t_drop_ref prof r) (\<lambda>_.
     bind yield_now (\<lambda>_.
     assert_that (\<lambda>s. \<not> retained (bor_id r) s \<and> \<not> registered (bor_id r) s \<and>
       \<not> has_counts (bor_id r) s \<and> \<not> handler_alive h s)))))))"

definition served_ref :: "'h \<Rightarrow> 'h binder_object_ref" where
  "served_ref h = \<lparr>bor_id = \<lparr>id_raw = 1, id_cookie = 0\<rparr>, bor_handler = h\<rparr>"

definition local_state :: "binder_object_id \<Rightarrow> nat \<Rightarrow> object_ref_state" where
  "local_state i n = \<lparr>ors_id = i, counts = \<lparr>local = of_nat n, remote = 0, pending = 0\<rparr>,
     poisoned = False, strong_count = of_nat n\<rparr>"

definition served :: "(nat \<Rightarrow> errno option) \<Rightarrow> 'h \<Rightarrow> nat \<Rightarrow> 'h obj_sys" where
  "served k h n = (let i = \<lparr>id_raw = 1, id_cookie = 0\<rparr> in
     \<lparr>dev = (new_device k)\<lparr>object_id_counter := 2, objects := [i \<mapsto> h],
        object_refcounts := [i \<mapsto> local_state i n],
        retained_services := [i \<mapsto> \<lparr>bo_id = i, bo_handler = h\<rparr>]\<rparr>,
      owned = [], borrowed = [], obj_refs = replicate n (served_ref h), tasks = [(i, True)], fired = []\<rparr>)"

lemma of_nat_u32_zero: "n < 2 ^ 32 \<Longrightarrow> (of_nat n :: u32) = 0 \<longleftrightarrow> n = 0"
  by (metis unat_0_iff unat_u32_of_nat)

abbreviation word_state :: "binder_object_id \<Rightarrow> u32 \<Rightarrow> object_ref_state" where
  "word_state i w \<equiv> \<lparr>ors_id = i, counts = \<lparr>local = w, remote = 0, pending = 0\<rparr>,
     poisoned = False, strong_count = w\<rparr>"

lemma word_state_inc:
  "unat w + 1 < 2 ^ 32 \<Longrightarrow>
     increase_local prof (word_state i w) = (Inr \<lparr>local = w + 1, remote = 0, pending = 0\<rparr>, word_state i (w + 1))"
  using unat_plus1 [of w] by (simp add: count_defs)

lemma word_state_dec:
  assumes "unat w + 1 < 2 ^ 32"
  shows "decrease_local prof (word_state i (w + 1)) = (Inr \<lparr>local = w, remote = 0, pending = 0\<rparr>, word_state i w)"
proof -
  have "unat (w + 1) = unat w + 1" using assms by (rule unat_plus1)
  then have "w + 1 \<noteq> 0" by (metis add_is_0 unat_0 zero_neq_one)
  then show ?thesis using assms by (simp add: count_defs)
qed

lemma local_state_steps:
  assumes "Suc n < 2 ^ 32"
  shows "\<exists>c. increase_local prof (local_state i n) = (Inr c, local_state i (Suc n))"
    "\<exists>c. decrease_local prof (local_state i (Suc n)) = (Inr c, local_state i n)"
proof -
  have u: "unat (of_nat n :: u32) + 1 < 2 ^ 32"
    using unat_u32_of_nat [of n] assms by simp
  have s: "local_state i (Suc n) = word_state i (of_nat n + 1)" "local_state i n = word_state i (of_nat n)"
    by (simp_all add: local_state_def add.commute)
  show "\<exists>c. increase_local prof (local_state i n) = (Inr c, local_state i (Suc n))"
    "\<exists>c. decrease_local prof (local_state i (Suc n)) = (Inr c, local_state i n)"
    unfolding s word_state_inc [OF u] word_state_dec [OF u] by blast+
qed

lemma new_is_local_state: "new_ref_state i = local_state i 0"
  by (simp add: local_state_def new_ref_state_def zero_counts_def)

lemma serve_one:
  "\<exists>obj s. t_register h (init_sys k) = (Inr obj, s) \<and>
    t_to_service prof obj s = (Inr (served_ref h), served k h 1)"
proof -
  obtain c where c: "increase_local prof (local_state \<lparr>id_raw = 1, id_cookie = 0\<rparr> 0) =
      (Inr c, local_state \<lparr>id_raw = 1, id_cookie = 0\<rparr> (Suc 0))"
    using local_state_steps(1) [of 0] by auto
  show ?thesis
    by (simp add: test_defs new_is_local_state c served_def served_ref_def bind_eval Let_def cong: eval_congs)
qed

lemma clone_served:
  assumes "Suc n < 2 ^ 32"
  shows "t_clone prof (served_ref h) (served k h n) = (Inr (served_ref h), served k h (Suc n))"
proof -
  obtain c where "increase_local prof (local_state \<lparr>id_raw = 1, id_cookie = 0\<rparr> n) =
      (Inr c, local_state \<lparr>id_raw = 1, id_cookie = 0\<rparr> (Suc n))"
    using local_state_steps(1) [OF assms] by blast
  then show ?thesis
    by (simp add: test_defs served_def served_ref_def bind_eval Let_def cong: eval_congs)
qed

lemma drop_served:
  assumes "Suc n < 2 ^ 32"
  shows "t_drop_ref prof (served_ref h) (served k h (Suc n)) = (Inr (), served k h n)"
proof -
  obtain c where "decrease_local prof (local_state \<lparr>id_raw = 1, id_cookie = 0\<rparr> (Suc n)) =
      (Inr c, local_state \<lparr>id_raw = 1, id_cookie = 0\<rparr> n)"
    using local_state_steps(2) [OF assms] by blast
  then show ?thesis
    by (simp add: test_defs served_def served_ref_def bind_eval Let_def cong: eval_congs)
qed

lemma yield_served: "0 < n \<Longrightarrow> n < 2 ^ 32 \<Longrightarrow> yield_now (served k h n) = (Inr (), served k h n)"
  by (simp add: test_defs served_def local_state_def Let_def of_nat_u32_zero)

lemma cloned_served:
  "0 < m \<Longrightarrow> m + n < 2 ^ 32 \<Longrightarrow> clone_times prof (served_ref h) n (served k h m) = (Inr (), served k h (m + n))"
  by (induction n arbitrary: m) (simp_all add: bind_eval clone_served cong: eval_congs)

lemma served_is_kept:
  "0 < n \<Longrightarrow> retained (bor_id (served_ref h)) (served k h n) \<and>
    registered (bor_id (served_ref h)) (served k h n) \<and> handler_alive h (served k h n)"
  by (simp add: served_def served_ref_def handler_alive_def Let_def)

lemma dropped_served:
  "Suc n < 2 ^ 32 \<Longrightarrow> drop_clones prof h (served_ref h) n (served k h (Suc n)) = (Inr (), served k h 1)"
proof (induction n)
  case (Suc n)
  then have "t_drop_ref prof (served_ref h) (served k h (Suc (Suc n))) = (Inr (), served k h (Suc n))"
    "yield_now (served k h (Suc n)) = (Inr (), served k h (Suc n))"
    by (simp_all add: drop_served yield_served)
  with Suc served_is_kept [of "Suc n" k h] show ?case
    by (simp add: bind_eval assert_that_def cong: eval_congs)
qed simp

lemma last_drop:
  "(bind (t_drop_ref prof (served_ref h)) (\<lambda>_. bind yield_now (\<lambda>_.
     assert_that (\<lambda>s. \<not> retained (bor_id (served_ref h)) s \<and> \<not> registered (bor_id (served_ref h)) s \<and>
       \<not> has_counts (bor_id (served_ref h)) s \<and> \<not> handler_alive h s)))) (served k h 1) =
   (Inr (), snd (yield_now (served k h 0)))"
proof -
  have "t_drop_ref prof (served_ref h) (served k h 1) = (Inr (), served k h 0)"
    using drop_served [of 0] by simp
  then show ?thesis
    by (simp add: bind_eval yield_now_def assert_that_def cong: eval_congs)
      (simp add: test_defs served_def served_ref_def local_state_def Let_def)
qed

theorem service_lives_until_last_clone:
  assumes "n + 1 < 2 ^ 32"
  shows "fst (service_survives_clones prof h n (init_sys k)) = Inr ()"
proof -
  obtain obj s where s: "t_register h (init_sys k) = (Inr obj, s)"
    "t_to_service prof obj s = (Inr (served_ref h), served k h 1)"
    using serve_one [of h k prof] by blast
  have c: "clone_times prof (served_ref h) n (served k h 1) = (Inr (), served k h (Suc n))"
    using cloned_served [of 1 n] assms by simp
  have d: "drop_clones prof h (served_ref h) n (served k h (Suc n)) = (Inr (), served k h 1)"
    using dropped_served assms by simp
  show ?thesis
    unfolding service_survives_clones_def
    using s c d last_drop [where prof = prof and h = h and k = k] by (simp add: bind_eval [where m = "t_register h"]
        bind_eval [where m = "t_to_service prof obj"] bind_eval [where m = "clone_times prof (served_ref h) n"]
        bind_eval [where m = "drop_clones prof h (served_ref h) n"] cong: eval_congs)
qed

end
