(* ===== verification/Registry_Traffic.thy ===== *)
theory Registry_Traffic
  imports Local_Objects Bench_Echo
begin

text \<open>
  The registry of local objects under the traffic of the driver, and the services of the
  examples as handlers of the driver loop: what they leave true of the device.
\<close>

section \<open>The self transaction example as a handler\<close>

text \<open>
  The echo of \<open>self_transaction.rs\<close> as a handler: when it returns, its transaction is
  dropped, and the reader with it.
\<close>

definition serve_self_echo :: "'h env \<Rightarrow> 'h transaction \<Rightarrow> ('h, 'h payload_builder) prog" where
  "serve_self_echo E tx w =
     (case handle_self_echo (prof E) (union_junk E) tx (world.dev w) of
        None \<Rightarrow> None
      | Some (Inl p, d) \<Rightarrow> Some (Inl p, w\<lparr>dev := d\<rparr>)
      | Some (Inr (r, b), d) \<Rightarrow> pbind (drop_reader E r) (\<lambda>_. pret b) (w\<lparr>dev := d\<rparr>))"

definition serve_self_echo_one_way :: "'h env \<Rightarrow> 'h transaction \<Rightarrow> ('h, unit) prog" where
  "serve_self_echo_one_way E tx = drop_reader E (payload tx)"

context driver_invariant begin

lemma self_echo_loop_kept:
  assumes "self_echo_loop pf junk r b d = Some (res, d1)" and "I d"
  shows "I d1"
proof -
  have "I d \<longrightarrow> I (snd y)" if "self_echo_loop pf junk r b d = Some y" for y pf junk r b d
  proof (rule self_echo_loop.raw_induct [OF _ that], goal_cases)
    case (1 f pf junk r b d y)
    note IH = 1(1)
    have rb: "read_binder_ref pf r d = (x, d1) \<Longrightarrow> I d \<longrightarrow> I d1" for x d1
      using keepsD [OF binder_ref_read] by blast
    have pb: "push_binder_ref pf junk x b d1 = (u, d2) \<Longrightarrow> I d1 \<longrightarrow> I d2" for x d1 u d2
      using keepsD [OF sendables(2)] by blast
    have od: "object_or_ref_drop pf x d1 = (u, d2) \<Longrightarrow> I d1 \<longrightarrow> I d2" for x d1 u d2
      using keepsD [OF object_or_refs(1)] by blast
    show ?case
      using 1(2) by (auto split: sum.splits option.splits if_splits prod.splits
          dest!: IH rb pb od)
  qed
  with assms show ?thesis by force
qed

lemma self_echo_kept [kept_intros]:
  "kept I (serve_self_echo E tx)" "kept I (serve_self_echo_one_way E tx)"
proof -
  show "kept I (serve_self_echo_one_way E tx)"
    unfolding serve_self_echo_one_way_def by (intro kept_intros)
  have rest: "I (world.dev w1)"
    if "pbind (drop_reader E r) (\<lambda>_. pret b) (w\<lparr>dev := d\<rparr>) = Some (x, w1)" "I d"
    for r and b :: "'a payload_builder" and w x w1 d
  proof -
    have "kept I (pbind (drop_reader E r) (\<lambda>_. pret b))" by (intro kept_intros)
    from keptD [OF this that(1)] that(2) show ?thesis by simp
  qed
  have handled: "I d1" if "handle_self_echo pf junk tx d = Some (res, d1)" "I d" for pf junk d res d1
    using that self_echo_loop_kept by (auto simp: handle_self_echo_def split: if_splits)
  show "kept I (serve_self_echo E tx)"
    unfolding kept_def serve_self_echo_def
    by (auto split: option.splits sum.splits dest: handled rest)
qed

end

text \<open>A service that answers every object with this echo.\<close>

definition serves_self_echo :: "'h env \<Rightarrow> bool" where
  "serves_self_echo E \<longleftrightarrow> (\<forall>h. handle E h = serve_self_echo E \<and>
     handle_one_way E h = serve_self_echo_one_way E)"

section \<open>The registry\<close>

interpretation registry: driver_invariant "same_registry d0" "\<lambda>ca. True" for d0
  by unfold_locales (auto simp: same_registry_def)

text \<open>C14: No traffic changes the registry: whatever the kernel answers, well-formed or not,
  calls, one-way calls and loopers register no object, unregister none, retain and release no
  service, and keep a count for exactly the registered objects, as long as the handlers they run
  do so.\<close>

theorem traffic_leaves_registry:
  assumes "handlers_keep (same_registry (world.dev w)) E"
    and "transact_blocking E t c b w = Some (r, w1) \<or> transact_one_way E t c b w = Some (r1, w1) \<or>
      looper E s w = Some (r2, w1)"
  shows "objects (world.dev w1) = objects (world.dev w) \<and>
    retained_services (world.dev w1) = retained_services (world.dev w) \<and>
    object_id_counter (world.dev w1) = object_id_counter (world.dev w) \<and>
    dom (object_refcounts (world.dev w1)) = dom (object_refcounts (world.dev w))"
proof -
  have "same_registry (world.dev w) (world.dev w1)"
    using assms(2) registry.kept_mains [OF assms(1)] same_registry_refl by (metis keptD)
  then show ?thesis by (simp add: same_registry_def)
qed

theorem traffic_leaves_registry_witness:
  "\<exists>w1. looper demo_env False (demo_world [Ioctl_Read False []]) = Some (Inr (), w1) \<and>
     objects (world.dev w1) = [Driver.demo_id \<mapsto> ()]"
proof -
  let ?w = "demo_world [Ioctl_Read False []]"
  obtain w1 where w1: "looper demo_env False ?w = Some (Inr (), w1)"
    by (simp add: looper_def looper_loop.simps binder_write_read_def call_kernel_def
        write_read_ioctl_def Let_def demo_world_def write_unwrapped_def on_dev_def kernel_ok_def
        demo_device_fields)
  from traffic_leaves_registry [OF demo_handlers disjI2 [OF disjI2 [OF w1]]]
  have "objects (world.dev w1) = objects (world.dev ?w)" by blast
  with w1 show ?thesis by (simp add: demo_world_def demo_device_fields)
qed

section \<open>The self transaction example\<close>

text \<open>The end of \<open>main\<close>: the bytes of the reply that are printed, or the error. A failed read is a
  panic of \<open>unwrap\<close>.\<close>

definition print_reply :: "'h env \<Rightarrow> 'h call_result \<Rightarrow> ('h, error + byte list) prog" where
  "print_reply E res = (case res of
     Inl e \<Rightarrow> pret (Inl e)
   | Inr (cde, reply) \<Rightarrow>
       (case bind_out (bytes_until_next_obj (prof E) reply) (\<lambda>n. read_bytes (prof E) n reply) of
          Inl p \<Rightarrow> ppanic p
        | Inr (Inl e) \<Rightarrow> ppanic Unwrap_Failed
        | Inr (Inr (bs, r)) \<Rightarrow> pret (Inr bs)))"

text \<open>
  \<open>main\<close> of \<open>self_transaction.rs\<close> up to its output: register the service, become the context
  manager, call the context manager, and read the bytes of the reply.
\<close>

definition self_transaction_main :: "'h env \<Rightarrow> (flat_binder_object \<Rightarrow> errno option) \<Rightarrow> 'h \<Rightarrow>
    byte list \<Rightarrow> ('h, error + byte list) prog" where
  "self_transaction_main E set_mgr service greeting =
     pbind (on_dev (register_object service)) (\<lambda>obj.
     pbind (on_dev (set_context_manager set_mgr obj)) (\<lambda>mgr. case mgr of
       Inl e \<Rightarrow> pret (Inl e)
     | Inr u \<Rightarrow>
         pbind (transact_blocking E Target_Context_Manager ECHO_CODE
           (push_bytes greeting new_builder)) (print_reply E)))"

text \<open>What is left of a payload is these bytes and no object.\<close>

definition bytes_left :: "byte list \<Rightarrow> 'h payload_reader \<Rightarrow> bool" where
  "bytes_left bs r \<longleftrightarrow> drop (next_data_index r) (items (pr_data r)) = bs \<and>
     next_data_index r \<le> length (items (pr_data r)) \<and> length (items (pr_data r)) < 2 ^ 64 \<and>
     (case pr_offsets r of None \<Rightarrow> True | Some v \<Rightarrow> items v = []) \<and>
     pr_binder_objects r = [] \<and> next_offset_index r = 0"

text \<open>The state after the destructor of such a reader, if the kernel takes its buffer back.\<close>

definition freed :: "'h payload_reader \<Rightarrow> 'h world \<Rightarrow> 'h world" where
  "freed r w = (case pr_data r of Owned bs \<Rightarrow> w
     | KernelBorrowed ptr bs \<Rightarrow> w\<lparr>dev := (world.dev w)\<lparr>sent := sent (world.dev w) @
         [(BC_FREE_BUFFER, Arg_Uintptr ptr)]\<rparr>\<rparr>)"

definition can_free :: "'h payload_reader \<Rightarrow> 'h binder_device \<Rightarrow> bool" where
  "can_free r d \<longleftrightarrow> (case pr_data r of Owned bs \<Rightarrow> True
     | KernelBorrowed ptr bs \<Rightarrow> kernel_err d (length (sent d)) = None)"

lemma bytes_left_simps:
  assumes "bytes_left bs r"
  shows "bytes_until_next_obj pf r = Inr (length bs)"
    and "read_bytes pf (length bs) r = Inr (Inr (bs, r\<lparr>next_data_index := length (items (pr_data r))\<rparr>))"
    and "bytes_left [] (r\<lparr>next_data_index := length (items (pr_data r))\<rparr>)"
    and "next_object_type pf r = Inr None"
proof -
  have bs: "length bs = length (items (pr_data r)) - next_data_index r"
    using assms by (auto simp: bytes_left_def)
  with assms show "bytes_until_next_obj pf r = Inr (length bs)"
    by (auto simp: bytes_left_def bytes_until_next_obj_def Let_def usize_sub_def split: option.splits)
  have "read_bytes pf (length bs) r = Inr (Inr (take (length bs) (drop (next_data_index r) (items (pr_data r))),
      r\<lparr>next_data_index := next_data_index r + length bs\<rparr>))"
    using assms bs by (intro read_bytes_ok) (auto simp: bytes_left_def)
  moreover have "next_data_index r + length bs = length (items (pr_data r))"
    using assms bs by (simp add: bytes_left_def)
  ultimately show "read_bytes pf (length bs) r =
      Inr (Inr (bs, r\<lparr>next_data_index := length (items (pr_data r))\<rparr>))"
    using assms by (simp add: bytes_left_def)
  show "bytes_left [] (r\<lparr>next_data_index := length (items (pr_data r))\<rparr>)" "next_object_type pf r = Inr None"
    using assms by (auto simp: bytes_left_def next_object_type_def current_offset_def split: option.splits)
qed

lemma bytes_left_from_builder:
  assumes "length bs < 2 ^ 64"
  shows "\<exists>r. from_builder pf junk dup (push_bytes bs new_builder) d = (Inr r, d) \<and> bytes_left bs r \<and>
    pr_data r = Owned bs"
  using assms by (simp add: from_builder_def push_bytes_def new_builder_def bind_def of_outcome_def
      bytes_left_def)

lemma bytes_left_echo_end:
  assumes "bytes_left [] r"
  shows "self_echo_loop pf junk r b d = Some (Inr (r, b), d)"
  using bytes_left_simps [OF assms] by (subst self_echo_loop.simps) simp

lemma bytes_left_echo:
  assumes "bytes_left bs r"
  shows "\<exists>r1. self_echo_loop pf junk r new_builder d = Some (Inr (r1, push_bytes bs new_builder), d) \<and>
    bytes_left [] r1 \<and> pr_data r1 = pr_data r"
proof (cases "bs = []")
  case True
  with assms bytes_left_echo_end [of r pf junk new_builder d] show ?thesis
    by (auto simp: push_bytes_def)
next
  case False
  then show ?thesis using bytes_left_simps [OF assms]
    by (subst self_echo_loop.simps) (simp add: bytes_left_echo_end)
qed

lemma bytes_left_drop:
  assumes "bytes_left bs r" and "can_free r (world.dev w)"
  shows "drop_reader E r w = Some (Inr (), freed r w)"
  using assms bytes_left_simps(4) [OF assms(1)]
  by (cases "pr_data r") (auto simp: drop_reader_def reader_drop_def drain.simps freed_def free_def
      bytes_left_def bind_def can_free_def dev_write_struct_command_def write_binder_struct_command_def)

lemma printed_bytes: "bytes_left bs r \<Longrightarrow> print_reply E (Inr (c, r)) w = Some (Inr (Inr bs), w)"
  by (simp add: print_reply_def bytes_left_simps pret_def)

lemma bytes_builder_drop: "drop_builder E (push_bytes bs new_builder) w = Some (Inr (), w)"
  by (simp add: drop_builder_def push_bytes_def new_builder_def pbind_def pupdate_def on_dev_def)

lemma serve_self_echo_bytes:
  assumes "bytes_left bs (payload tx)" and "can_free (payload tx) (world.dev w)" and "tr_code tx = ECHO_CODE"
  shows "serve_self_echo E tx w = Some (Inr (push_bytes bs new_builder), freed (payload tx) w)"
proof -
  obtain r1 where r1: "self_echo_loop (prof E) (union_junk E) (payload tx) new_builder (world.dev w) =
      Some (Inr (r1, push_bytes bs new_builder), world.dev w)"
    "bytes_left [] r1" "pr_data r1 = pr_data (payload tx)"
    using bytes_left_echo [OF assms(1)] by blast
  have "drop_reader E r1 w = Some (Inr (), freed (payload tx) w)"
    using bytes_left_drop [OF r1(2)] assms(2) r1(3) by (simp add: freed_def can_free_def)
  with r1(1) assms(3) show ?thesis
    by (simp add: serve_self_echo_def handle_self_echo_def pbind_def pret_def)
qed

lemma self_call_echoes:
  assumes "length bs < 2 ^ 64" and "serves_self_echo E" and "get_handler (world.dev w) i = Some h"
  shows "\<exists>r. self_transact_blocking E i ECHO_CODE (push_bytes bs new_builder) w =
    Some (Inr (Inr (ECHO_CODE, r)), w) \<and> bytes_left bs r"
proof -
  obtain r where r: "\<And>w :: 'a world. on_dev (from_builder (prof E) (union_junk E) (dup_fd E)
      (push_bytes bs new_builder)) w = Some (Inr r, w)" "bytes_left bs r" "pr_data r = Owned bs"
    using bytes_left_from_builder [OF assms(1), of "prof E" "union_junk E" "dup_fd E"]
    by (fastforce simp: on_dev_def from_builder_def push_bytes_def new_builder_def bind_def of_outcome_def)
  let ?tx = "\<lparr>tr_code = ECHO_CODE, payload = r, tr_sender_pid = getpid E,
    tr_sender_euid = geteuid E\<rparr>"
  have "handle E h ?tx w = Some (Inr (push_bytes bs new_builder), w)"
    using assms(2) serve_self_echo_bytes [of bs ?tx w E] r(2,3)
    by (simp add: serves_self_echo_def freed_def can_free_def)
  then show ?thesis
    using assms(3) r(1,2) by (simp add: self_transact_blocking_def pbind_def preads_def pret_def bytes_builder_drop)
qed

text \<open>C25: The example gets its greeting back: a process that registers the echo service, becomes
  the context manager and calls the context manager reads exactly the bytes it sent; the call
  stays inside the process, so nothing is sent to the kernel and no call to it is made.\<close>

theorem self_transaction_returns_greeting:
  assumes "serves_self_echo E" and "object_id_counter (world.dev w) \<noteq> 0"
    and "\<And>flat. hdr_type flat = BINDER \<Longrightarrow> set_mgr flat = None" and "length greeting < 2 ^ 64"
  shows "\<exists>w1. self_transaction_main E set_mgr service greeting w = Some (Inr (Inr greeting), w1) \<and>
    sent (world.dev w1) = sent (world.dev w) \<and> calls w1 = calls w"
proof -
  let ?i = "\<lparr>id_raw = object_id_counter (world.dev w), id_cookie = 0\<rparr>"
  let ?ob = "\<lparr>bo_id = ?i, bo_handler = service\<rparr>"
  let ?d1 = "snd (register_object service (world.dev w))"
  let ?d2 = "?d1\<lparr>ctx_manager := object_id_counter (world.dev w)\<rparr>"
  let ?w2 = "w\<lparr>dev := ?d2\<rparr>"
  have reg: "on_dev (register_object service) w = Some (Inr ?ob, w\<lparr>dev := ?d1\<rparr>)"
    by (simp add: on_dev_def register_object_def Let_def)
  have mgr: "on_dev (set_context_manager set_mgr ?ob) (w\<lparr>dev := ?d1\<rparr>) = Some (Inr (Inr ()), ?w2)"
    using assms(3) by (simp add: on_dev_def set_context_manager_def bind_def Let_def)
  have "get_handler (world.dev ?w2) ?i = Some service"
    by (simp add: get_handler_def register_object_def Let_def)
  from self_call_echoes [OF assms(4,1) this] obtain r where
    r: "self_transact_blocking E ?i ECHO_CODE (push_bytes greeting new_builder) ?w2 =
      Some (Inr (Inr (ECHO_CODE, r)), ?w2)" "bytes_left greeting r"
    by blast
  have call: "transact_blocking E Target_Context_Manager ECHO_CODE (push_bytes greeting new_builder) ?w2 =
      Some (Inr (Inr (ECHO_CODE, r)), ?w2)"
    using assms(2) r(1) by (simp add: transact_blocking_def pbind_def preads_def
        get_transaction_target_handle_def context_manager_handle_def)
  have "self_transaction_main E set_mgr service greeting w = Some (Inr (Inr greeting), ?w2)"
    by (simp add: self_transaction_main_def pbind_def reg mgr call printed_bytes [OF r(2)])
  then show ?thesis by (simp add: register_object_def Let_def)
qed

text \<open>\<open>b"hello from self"\<close>\<close>

definition hello_from_self :: "byte list" where
  "hello_from_self = map of_char ''hello from self''"

definition self_env :: "unit env" where
  "self_env = demo_env\<lparr>handle := (\<lambda>h. serve_self_echo demo_env),
     handle_one_way := (\<lambda>h. serve_self_echo_one_way demo_env)\<rparr>"

lemma drop_reader_prof: "prof E = prof F \<Longrightarrow> drop_reader E = drop_reader F"
  by (simp add: drop_reader_def fun_eq_iff)

lemma self_env_serves: "serves_self_echo self_env"
proof -
  have "prof self_env = prof demo_env" "union_junk self_env = union_junk demo_env"
    by (simp_all add: self_env_def)
  moreover have "drop_reader self_env = drop_reader demo_env"
    by (rule drop_reader_prof) (simp add: self_env_def)
  ultimately have "serve_self_echo self_env = serve_self_echo demo_env"
    "serve_self_echo_one_way self_env = serve_self_echo_one_way demo_env"
    by (intro ext; simp add: serve_self_echo_def serve_self_echo_one_way_def
        split: option.split sum.split)+
  then show ?thesis by (simp add: serves_self_echo_def self_env_def)
qed

theorem self_transaction_returns_greeting_witness:
  "\<exists>w1. self_transaction_main self_env (\<lambda>flat. None) () hello_from_self
     ((demo_world [])\<lparr>dev := new_device (\<lambda>_. None)\<rparr>) = Some (Inr (Inr hello_from_self), w1)"
  using self_transaction_returns_greeting [OF self_env_serves,
    of "(demo_world [])\<lparr>dev := new_device (\<lambda>_. None)\<rparr>" "\<lambda>flat. None" hello_from_self "()"]
  by (auto simp: new_device_def hello_from_self_def)

end
