(* ===== verification/Remote_Echo.thy ===== *)
theory Remote_Echo
  imports Registry_Traffic
begin

text \<open>
  Two processes and the kernel between them: the echo client of \<open>examples/echo_client.rs\<close>
  calls the context manager of another process, which serves the echo of
  \<open>examples/self_transaction.rs\<close>. Each process is a world of its own; what the kernel does is what
  it answers to each, and the contents it gives to the buffers it maps.
\<close>

section \<open>The client\<close>

text \<open>\<open>main\<close> of \<open>echo_client.rs\<close>, up to its output.\<close>

definition echo_client_main :: "'h env \<Rightarrow> byte list \<Rightarrow> ('h, error + byte list) prog" where
  "echo_client_main E greeting =
     pbind (transact_blocking E Target_Context_Manager ECHO_CODE (push_bytes greeting new_builder))
       (print_reply E)"

section \<open>What the kernel answers\<close>

text \<open>Returns that need nothing but to be read.\<close>

definition idle :: "binder_return list" where
  "idle = [BR_OK, BR_NOOP, BR_TRANSACTION_COMPLETE, BR_FINISHED, BR_ONEWAY_SPAM_SUSPECT,
     BR_TRANSACTION_PENDING_FROZEN]"

definition returned :: "ioc_fn \<Rightarrow> binder_return list \<Rightarrow> byte list" where
  "returned op rs = concat (map (\<lambda>r. u32_bytes (return_code op r)) rs)"

text \<open>The kernel's buffers for a transaction hold what a builder described.\<close>

definition carries_payload :: "'h env \<Rightarrow> transaction_data \<Rightarrow> 'h payload_builder \<Rightarrow> bool" where
  "carries_payload E t b \<longleftrightarrow>
     kernel_memory E (data_buffer t) (unat (data_size t)) = pb_data b \<and>
     map unat (kernel_offsets E (data_offsets t) (unat (offsets_size t) div 8)) = obj_offsets b"

lemma carried_bytes:
  assumes "carries_payload E t (push_bytes bs new_builder)" and "length bs < 2 ^ 64"
  shows "bytes_left bs (kernel_payload E t)"
  using assms by (simp add: carries_payload_def kernel_payload_def from_kernel_raw_def bytes_left_def
      push_bytes_def new_builder_def)

lemma returned_simps [simp]:
  "returned op [] = []" "returned op (r # rs) = u32_bytes (return_code op r) @ returned op rs"
  by (simp_all add: returned_def)

lemma one_return_at:
  assumes "ioctl_opcode (ioc E)" and "drop c buf = u32_bytes (return_code (ioc E) r) @ rest"
    and "c \<le> length buf"
  shows "one_return E buf c = dispatch E (c + 4) rest (Some r)"
proof -
  have "slice_index buf c (length buf) = Inr (drop c buf)"
    using assms(3) by (simp add: slice_index_def slice_get_def)
  then show ?thesis
    using assms(1) unfolding one_return_def
    by (simp add: assms(2) read_from_slice_def u32_codec.dec_exact ioctl_opcode.match_return_code)
qed

lemma parse_at:
  assumes "ioctl_opcode (ioc E)" and "drop c buf = u32_bytes (return_code (ioc E) r) @ rest"
    and "dispatch E (c + 4) rest (Some r) w = Some (Inr (Continue c1), w1)"
  shows "parse E buf c w = parse E buf c1 w1"
proof -
  have "drop c buf \<noteq> []" using assms(2) by (metis append_is_Nil_conv u32_bytes_not_Nil)
  then have "c < length buf" by simp
  then show ?thesis
    using one_return_at [OF assms(1,2)] assms(3) by (subst parse.simps) simp
qed

lemma parse_idle:
  assumes "ioctl_opcode (ioc E)" and "set rs \<subseteq> set idle" and "drop c buf = returned (ioc E) rs @ rest"
  shows "parse E buf c w = parse E buf (c + 4 * length rs) w"
  using assms(2,3)
proof (induction rs arbitrary: c)
  case (Cons r rs)
  have "dispatch E (c + 4) (returned (ioc E) rs @ rest) (Some r) w = Some (Inr (Continue (c + 4)), w)"
    using Cons.prems(1) by (auto simp: idle_def pret_def)
  with Cons.prems(2) have step: "parse E buf c w = parse E buf (c + 4) w"
    by (intro parse_at [OF assms(1)]) simp_all
  have "drop (c + 4) buf = drop 4 (drop c buf)" by (simp add: add.commute)
  then have "drop (c + 4) buf = returned (ioc E) rs @ rest" using Cons.prems(2) by simp
  with Cons.IH [of "c + 4"] Cons.prems(1) step show ?case by (simp add: algebra_simps)
qed simp

lemma length_returned [simp]: "length (returned op rs) = 4 * length rs"
  by (induction rs) simp_all

lemma parse_only_idle:
  assumes "ioctl_opcode (ioc E)" and "set rs \<subseteq> set idle"
  shows "parse E (returned (ioc E) rs) 0 w = Some (Inr None, w)"
  using parse_idle [OF assms, of 0 "returned (ioc E) rs" "[]" w] by (simp add: parse.simps)

lemma parse_return:
  assumes "ioctl_opcode (ioc E)" and "drop c buf = u32_bytes (return_code (ioc E) r) @ rest"
    and "dispatch E (c + 4) rest (Some r) w = Some (Inr (Return res), w1)"
  shows "parse E buf c w = Some (Inr (Some res), w1)"
proof -
  have "drop c buf \<noteq> []" using assms(2) by (metis append_is_Nil_conv u32_bytes_not_Nil)
  then have "c < length buf" by simp
  then show ?thesis
    using one_return_at [OF assms(1,2)] assms(3) by (subst parse.simps) (simp add: pret_def)
qed

section \<open>The client waits for its reply\<close>

text \<open>The n-th answer from now has the reply; those before it are idle.\<close>

definition reply_after :: "'h env \<Rightarrow> 'h world \<Rightarrow> nat \<Rightarrow> transaction_data \<Rightarrow> bool" where
  "reply_after E w n t \<longleftrightarrow>
     (\<forall>k < n. \<exists>rs. set rs \<subseteq> set idle \<and>
        answers w (calls w + k) = Some (Ioctl_Read True (returned (ioc E) rs))) \<and>
     (\<exists>rs. set rs \<subseteq> set idle \<and> answers w (calls w + n) = Some (Ioctl_Read True
        (returned (ioc E) rs @ u32_bytes (return_code (ioc E) BR_REPLY) @ enc_transaction t)))"

definition asked :: "write_data option \<Rightarrow> 'h world \<Rightarrow> 'h world" where
  "asked data w = w\<lparr>calls := calls w + 1, dev := (world.dev w)\<lparr>sent := sent (world.dev w) @
     (case data of None \<Rightarrow> [] | Some cs \<Rightarrow> cs)\<rparr>\<rparr>"

lemma asked_simps [simp]:
  "calls (asked data w) = calls w + 1" "answers (asked data w) = answers w"
  "world.dev (asked data w) =
     (world.dev w)\<lparr>sent := sent (world.dev w) @ (case data of None \<Rightarrow> [] | Some cs \<Rightarrow> cs)\<rparr>"
  by (simp_all add: asked_def)

lemma call_kernel_read:
  "answers w (calls w) = Some (Ioctl_Read True bs) \<Longrightarrow> call_kernel data w = Some (Inr (Inr bs), asked data w)"
  by (simp add: call_kernel_def write_read_ioctl_def Let_def asked_def)

lemma write_read_idle:
  assumes "ioctl_opcode (ioc E)" and "set rs \<subseteq> set idle"
    and "answers w (calls w) = Some (Ioctl_Read True (returned (ioc E) rs))"
  shows "binder_write_read E data w = Some (Inr None, asked data w)"
  using parse_only_idle [OF assms(1,2)] call_kernel_read [OF assms(3)]
  by (simp add: binder_write_read_def)

lemma write_read_reply:
  assumes "ioctl_opcode (ioc E)" and "set rs \<subseteq> set idle"
    and "answers w (calls w) = Some (Ioctl_Read True
      (returned (ioc E) rs @ u32_bytes (return_code (ioc E) BR_REPLY) @ enc_transaction t))"
  shows "binder_write_read E data w =
    Some (Inr (Some (Inr (code t, kernel_payload E t))), asked data w)"
proof -
  let ?buf = "returned (ioc E) rs @ u32_bytes (return_code (ioc E) BR_REPLY) @ enc_transaction t"
  have "parse E ?buf 0 w1 = parse E ?buf (4 * length rs) w1" for w1
    using parse_idle [OF assms(1,2), of 0 ?buf _ w1] by simp
  moreover have "parse E ?buf (4 * length rs) w1 = Some (Inr (Some (Inr (code t, kernel_payload E t))), w1)" for w1
  proof (rule parse_return [OF assms(1)])
    show "drop (4 * length rs) ?buf = u32_bytes (return_code (ioc E) BR_REPLY) @ enc_transaction t" by simp
    have "read_from_slice (layout_size BinderTransactionData) dec_transaction (enc_transaction t) = Inr (t, 64)"
      by (simp add: read_from_slice_def transaction_codec.dec_exact)
    then show "dispatch E (4 * length rs + 4) (enc_transaction t) (Some BR_REPLY) w1 =
        Some (Inr (Return (Inr (code t, kernel_payload E t))), w1)"
      by (simp add: pret_def)
  qed
  ultimately show ?thesis
    using call_kernel_read [OF assms(3)] by (simp add: binder_write_read_def)
qed

lemma call_gets_reply:
  assumes "ioctl_opcode (ioc E)" and "reply_after E w n t"
  shows "\<exists>m. blocking_loop E data b w = Some (Inr (Inr (code t, kernel_payload E t)),
    w\<lparr>calls := m, dev := (world.dev w)\<lparr>sent := sent (world.dev w) @
      (case data of None \<Rightarrow> [] | Some cs \<Rightarrow> cs)\<rparr>\<rparr>)"
  using assms(2)
proof (induction n arbitrary: data w)
  case 0
  then obtain rs where rs: "set rs \<subseteq> set idle" "answers w (calls w) = Some (Ioctl_Read True
      (returned (ioc E) rs @ u32_bytes (return_code (ioc E) BR_REPLY) @ enc_transaction t))"
    by (auto simp: reply_after_def)
  show ?case
    using write_read_reply [OF assms(1) rs]
    by (subst blocking_loop.simps) (auto simp: pret_def asked_def)
next
  case (Suc n)
  then obtain rs where "set rs \<subseteq> set idle" "answers w (calls w) = Some (Ioctl_Read True (returned (ioc E) rs))"
    by (auto simp: reply_after_def)
  from write_read_idle [OF assms(1) this] have step: "blocking_loop E data b w = blocking_loop E None b (asked data w)"
    by (subst blocking_loop.simps) simp
  have "answers w (calls w + Suc k) = answers (asked data w) (calls (asked data w) + k)" for k by simp
  with Suc.prems have "reply_after E (asked data w) n t"
    unfolding reply_after_def by (metis Suc_less_eq)
  from Suc.IH [OF this, of None] step show ?case by (simp add: asked_def)
qed

lemma bytes_marked:
  "on_dev (mark_objects_as_pending_remote pf (push_bytes bs new_builder)) w = Some (Inr (), w)"
  by (simp add: mark_objects_as_pending_remote_def for_each_embedded_binder_object_def push_bytes_def
      new_builder_def on_dev_def ret_def)

text \<open>The transaction the client asks the kernel to deliver.\<close>

definition request :: "'h env \<Rightarrow> byte list \<Rightarrow> transaction_data" where
  "request E bs = outgoing E (union_write32 (union_junk E) 0) ECHO_CODE ACCEPT_FDS 0 0
     (push_bytes bs new_builder)"

lemma client_gets_reply:
  assumes "ioctl_opcode (ioc E)" and "ctx_manager (world.dev w) = 0" and "reply_after E w n t"
    and "bytes_left bs (kernel_payload E t)"
  shows "\<exists>w1. echo_client_main E greeting w = Some (Inr (Inr bs), w1) \<and>
    sent (world.dev w1) = sent (world.dev w) @ call_data (request E greeting)"
proof -
  let ?b = "push_bytes greeting new_builder"
  obtain w1 where w1: "blocking_loop E (Some (call_data (request E greeting))) ?b w =
      Some (Inr (Inr (code t, kernel_payload E t)), w1)"
    "sent (world.dev w1) = sent (world.dev w) @ call_data (request E greeting)"
    using call_gets_reply [OF assms(1,3), of "Some (call_data (request E greeting))" ?b] by auto
  have "transact_blocking E Target_Context_Manager ECHO_CODE ?b w =
      Some (Inr (Inr (code t, kernel_payload E t)), w1)"
    using assms(2) w1(1)
    by (simp add: transact_blocking_def pbind_def preads_def get_transaction_target_handle_def
        context_manager_handle_def remote_transact_blocking_def Let_def bytes_marked
        bytes_builder_drop request_def pret_def)
  then show ?thesis
    using w1(2) printed_bytes [OF assms(4)] by (simp add: echo_client_main_def pbind_def)
qed

section \<open>The service answers\<close>

text \<open>The reply the service asks the kernel to deliver.\<close>

definition response :: "'h env \<Rightarrow> transaction_data \<Rightarrow> 'h payload_builder \<Rightarrow> transaction_data" where
  "response E t b = outgoing E 0 (code t) (td_flags t) (getpid E) (getuid E) b"

text \<open>The next answer to the service has a transaction for one of its objects, and the kernel
  accepts the reply.\<close>

definition transaction_next :: "'h env \<Rightarrow> 'h world \<Rightarrow> transaction_data \<Rightarrow> bool" where
  "transaction_next E w t \<longleftrightarrow>
     (\<exists>rs. set rs \<subseteq> set idle \<and> answers w (calls w) = Some (Ioctl_Read True
        (returned (ioc E) rs @ u32_bytes (return_code (ioc E) BR_TRANSACTION) @ enc_transaction t))) \<and>
     (\<exists>rs. set rs \<subseteq> set idle \<and>
        answers w (calls w + 1) = Some (Ioctl_Read True (returned (ioc E) rs))) \<and>
     get_handler (world.dev w) (from_raw (target t) (td_cookie t)) \<noteq> None"

lemma service_replies:
  assumes "ioctl_opcode (ioc E)" and "serves_self_echo E" and "transaction_next E w t"
    and "code t = ECHO_CODE" and "\<not> is_one_way t" and "kernel_ok (world.dev w)"
    and "bytes_left bs (kernel_payload E t)"
  shows "\<exists>w1. binder_write_read E None w = Some (Inr None, w1) \<and>
    sent (world.dev w1) = sent (world.dev w) @ [(BC_FREE_BUFFER, Arg_Uintptr (data_buffer t)),
      (BC_REPLY, Arg_Transaction (response E t (push_bytes bs new_builder)))]"
proof -
  obtain rs rs1 h where ans: "set rs \<subseteq> set idle" "answers w (calls w) = Some (Ioctl_Read True
      (returned (ioc E) rs @ u32_bytes (return_code (ioc E) BR_TRANSACTION) @ enc_transaction t))"
    "set rs1 \<subseteq> set idle" "answers w (calls w + 1) = Some (Ioctl_Read True (returned (ioc E) rs1))"
    "get_handler (world.dev w) (from_raw (target t) (td_cookie t)) = Some h"
    using assms(3) by (auto simp: transaction_next_def)
  let ?buf = "returned (ioc E) rs @ u32_bytes (return_code (ioc E) BR_TRANSACTION) @ enc_transaction t"
  let ?r = "kernel_payload E t"
  let ?b = "push_bytes bs new_builder"
  let ?w1 = "asked None w"
  let ?w2 = "freed ?r ?w1"
  let ?reply = "response E t ?b"
  let ?w3 = "asked (Some [(BC_REPLY, Arg_Transaction ?reply)]) ?w2"
  have freed: "sent (world.dev ?w2) = sent (world.dev w) @ [(BC_FREE_BUFFER, Arg_Uintptr (data_buffer t))]"
    "calls ?w2 = calls w + 1" "answers ?w2 = answers w"
    by (simp_all add: freed_def kernel_payload_def from_kernel_raw_def)
  let ?tx = "\<lparr>tr_code = code t, payload = ?r, tr_sender_pid = sender_pid t,
    tr_sender_euid = sender_euid t\<rparr>"
  have "can_free ?r (world.dev ?w1)"
    using assms(6) by (simp add: can_free_def kernel_ok_def asked_def split: payload_reader_buffer.split)
  then have handled: "handle E h ?tx ?w1 = Some (Inr ?b, ?w2)"
    using assms(2,4,7) serve_self_echo_bytes [of bs ?tx ?w1 E] by (simp add: serves_self_echo_def)
  let ?c = "4 * length rs + 4"
  have "read_from_slice (layout_size BinderTransactionData) dec_transaction (enc_transaction t) = Inr (t, 64)"
    by (simp add: read_from_slice_def transaction_codec.dec_exact)
  then have "dispatch E ?c (enc_transaction t) (Some BR_TRANSACTION) ?w1 =
      incoming_transaction E (?c + 64) t ?w1" by simp
  also have "\<dots> = Some (Inr (Send_Reply (?c + 64) ?b ?reply), ?w2)"
    using ans(5) assms(5) handled
    by (simp add: incoming_transaction_def Let_def pbind_def preads_def asked_def bytes_marked
        response_def pret_def)
  finally have one: "one_return E ?buf (4 * length rs) ?w1 = Some (Inr (Send_Reply (?c + 64) ?b ?reply), ?w2)"
    using one_return_at [OF assms(1), of "4 * length rs" ?buf BR_TRANSACTION "enc_transaction t"] by simp
  have call: "call_kernel (Some [(BC_REPLY, Arg_Transaction ?reply)]) ?w2 = Some (Inr (Inr (returned (ioc E) rs1)), ?w3)"
    by (rule call_kernel_read) (use ans(4) freed(2,3) in simp)
  have after: "after_reply E ?b None ?w3 = Some (Inr (), ?w3)"
    by (simp add: after_reply_def pbind_def pret_def bytes_builder_drop)
  have "parse E ?buf 0 ?w1 = parse E ?buf (4 * length rs) ?w1"
    using parse_idle [OF assms(1) ans(1), of 0 ?buf _ ?w1] by simp
  also have "\<dots> = parse E ?buf (?c + 64) ?w3"
    using one call parse_only_idle [OF assms(1) ans(3), of ?w3] after
    by (subst parse.simps) (simp add: pbind_def)
  also have "?c + 64 = length ?buf" by simp
  also have "parse E ?buf (length ?buf) ?w3 = Some (Inr None, ?w3)" by (subst parse.simps) simp
  finally have "binder_write_read E None w = Some (Inr None, ?w3)"
    using call_kernel_read [OF ans(2), of None] by (simp add: binder_write_read_def pbind_def)
  with freed(1) show ?thesis by simp
qed

section \<open>The round trip\<close>

text \<open>C6: An echo across processes: if the kernel shows the service the request of the client, and
  shows the client the reply of the service, each with the contents its sender described, then the
  service frees the request, replies once and is done with it, and the client, after any number of
  idle returns, gets back exactly the bytes it sent, having written one call.\<close>

theorem remote_echo_round_trip:
  assumes "ioctl_opcode (ioc C)" and "ioctl_opcode (ioc S)" and "length greeting < 2 ^ 64"
    and "serves_self_echo S" and "transaction_next S ws t" and "kernel_ok (world.dev ws)"
    and "code t = ECHO_CODE" and "\<not> is_one_way t"
    and "carries_payload S t (push_bytes greeting new_builder)"
    and "ctx_manager (world.dev wc) = 0" and "reply_after C wc n rt"
  shows "\<exists>ws1. binder_write_read S None ws = Some (Inr None, ws1) \<and>
    sent (world.dev ws1) = sent (world.dev ws) @ [(BC_FREE_BUFFER, Arg_Uintptr (data_buffer t)),
      (BC_REPLY, Arg_Transaction (response S t (push_bytes greeting new_builder)))] \<and>
    (carries_payload C rt (push_bytes greeting new_builder) \<longrightarrow>
      (\<exists>wc1. echo_client_main C greeting wc = Some (Inr (Inr greeting), wc1) \<and>
        sent (world.dev wc1) = sent (world.dev wc) @ call_data (request C greeting)))"
proof -
  let ?b = "push_bytes greeting new_builder"
  have left: "bytes_left greeting (kernel_payload S t)" by (rule carried_bytes [OF assms(9,3)])
  obtain ws1 where "binder_write_read S None ws = Some (Inr None, ws1)"
    "sent (world.dev ws1) = sent (world.dev ws) @ [(BC_FREE_BUFFER, Arg_Uintptr (data_buffer t)),
      (BC_REPLY, Arg_Transaction (response S t ?b))]"
    using service_replies [OF assms(2,4,5,7,8,6) left] by blast
  moreover have "\<exists>wc1. echo_client_main C greeting wc = Some (Inr (Inr greeting), wc1) \<and>
      sent (world.dev wc1) = sent (world.dev wc) @ call_data (request C greeting)"
    if "carries_payload C rt ?b"
    using client_gets_reply [OF assms(1,10,11) carried_bytes [OF that assms(3)]] .
  ultimately show ?thesis by blast
qed

text \<open>Both processes on one example: the kernel's buffers hold the greeting.\<close>

definition echo_env :: "unit env" where
  "echo_env = self_env\<lparr>kernel_memory := (\<lambda>p n. hello_from_self), kernel_offsets := (\<lambda>p n. [])\<rparr>"

definition echo_request :: transaction_data where
  "echo_request = \<lparr>target = 1, td_cookie = 0, code = ECHO_CODE, td_flags = ACCEPT_FDS,
     sender_pid = 7, sender_euid = 0, data_size = 15, offsets_size = 0, data_buffer = 4096,
     data_offsets = 4112\<rparr>"

definition service_world :: "unit world" where
  "service_world = demo_world
     [Ioctl_Read True (returned linux_ioc [BR_NOOP] @ u32_bytes (return_code linux_ioc BR_TRANSACTION) @
        enc_transaction echo_request),
      Ioctl_Read True (returned linux_ioc [BR_NOOP, BR_TRANSACTION_COMPLETE])]"

definition client_world :: "unit world" where
  "client_world = demo_world
     [Ioctl_Read True (returned linux_ioc [BR_NOOP, BR_TRANSACTION_COMPLETE]),
      Ioctl_Read True (returned linux_ioc [BR_NOOP] @ u32_bytes (return_code linux_ioc BR_REPLY) @
        enc_transaction echo_request)]"

lemma serves_self_echo_prof:
  assumes "serves_self_echo E" and "prof F = prof E" "union_junk F = union_junk E" "handle F = handle E"
    "handle_one_way F = handle_one_way E"
  shows "serves_self_echo F"
proof -
  have "drop_reader F = drop_reader E" by (rule drop_reader_prof) (rule assms)
  with assms(2,3) have "serve_self_echo F = serve_self_echo E"
    "serve_self_echo_one_way F = serve_self_echo_one_way E"
    by (intro ext; simp add: serve_self_echo_def serve_self_echo_one_way_def
        split: option.split sum.split)+
  with assms show ?thesis by (simp add: serves_self_echo_def)
qed

lemma echo_env_facts:
  "serves_self_echo echo_env" "ioc echo_env = linux_ioc"
  "carries_payload echo_env t (push_bytes hello_from_self new_builder)"
proof -
  show "serves_self_echo echo_env"
    by (rule serves_self_echo_prof [OF self_env_serves]) (simp_all add: echo_env_def)
  show "ioc echo_env = linux_ioc" by (simp add: echo_env_def self_env_def)
  show "carries_payload echo_env t (push_bytes hello_from_self new_builder)"
    by (simp add: carries_payload_def echo_env_def push_bytes_def new_builder_def)
qed

lemma service_world_next: "transaction_next echo_env service_world echo_request"
proof -
  have "from_raw (target echo_request) (td_cookie echo_request) = Driver.demo_id"
    by (simp add: from_raw_def echo_request_def Driver.demo_id_def)
  moreover have "set [BR_NOOP] \<subseteq> set idle" "set [BR_NOOP, BR_TRANSACTION_COMPLETE] \<subseteq> set idle"
    by (simp_all add: idle_def)
  ultimately show ?thesis
    unfolding transaction_next_def echo_env_facts(2)
    by (intro conjI exI [of _ "[BR_NOOP]"] exI [of _ "[BR_NOOP, BR_TRANSACTION_COMPLETE]"])
      (simp_all add: service_world_def demo_world_def get_handler_def demo_device_fields)
qed

lemma client_world_reply: "reply_after echo_env client_world 1 echo_request"
proof -
  have "set [BR_NOOP] \<subseteq> set idle" "set [BR_NOOP, BR_TRANSACTION_COMPLETE] \<subseteq> set idle"
    by (simp_all add: idle_def)
  moreover have "answers client_world (calls client_world + 0) =
      Some (Ioctl_Read True (returned linux_ioc [BR_NOOP, BR_TRANSACTION_COMPLETE]))"
    "answers client_world (calls client_world + 1) = Some (Ioctl_Read True
      (returned linux_ioc [BR_NOOP] @ u32_bytes (return_code linux_ioc BR_REPLY) @ enc_transaction echo_request))"
    by (simp_all add: client_world_def demo_world_def)
  ultimately show ?thesis
    unfolding reply_after_def echo_env_facts(2) by (metis less_one)
qed

theorem remote_echo_round_trip_witness:
  "(\<exists>ws1. binder_write_read echo_env None service_world = Some (Inr None, ws1)) \<and>
   (\<exists>wc1. echo_client_main echo_env hello_from_self client_world = Some (Inr (Inr hello_from_self), wc1))"
proof -
  have "kernel_ok (world.dev service_world)" "ctx_manager (world.dev client_world) = 0"
    by (simp_all add: service_world_def client_world_def demo_world_def kernel_ok_def demo_device_fields)
      (simp add: demo_device_def register_object_def new_device_def Let_def)
  moreover have "code echo_request = ECHO_CODE" "\<not> is_one_way echo_request"
    by (simp_all add: echo_request_def is_one_way_def ACCEPT_FDS_def ONE_WAY_def)
  moreover have "length hello_from_self < 2 ^ 64" by (simp add: hello_from_self_def)
  ultimately show ?thesis
    using remote_echo_round_trip [of echo_env echo_env hello_from_self service_world echo_request client_world 1 echo_request]
      echo_env_facts service_world_next client_world_reply linux.ioctl_opcode_axioms by auto
qed

end
