(* ===== verification/Bench_Monitor.thy ===== *)
theory Bench_Monitor
  imports Command_Line
begin

text \<open>
  What the benchmark of \<open>src/examples/bench.rs\<close> looks at while it runs: the files of \<open>/proc\<close>, the
  limit on descriptors, and the watchdog \<open>FdWatch\<close>.

  The contents of a file are a character list, none when it cannot be read; the files are ASCII,
  so white space is that of ASCII. Times are in nanoseconds: the code divides the ticks of the
  processor by the clock rate and compares seconds as floating-point numbers.
\<close>

section \<open>Text\<close>

definition newline :: char where "newline = CHR 0x0A"
definition carriage_return :: char where "carriage_return = CHR 0x0D"

definition white :: "char \<Rightarrow> bool" where
  "white c \<longleftrightarrow> c \<in> {CHR '' '', CHR 0x09, newline, CHR 0x0B, CHR 0x0C, carriage_return}"

text \<open>\<open>str::lines\<close>: a line ends at a line feed, with a carriage return before it.\<close>

definition end_line :: "string \<Rightarrow> string" where
  "end_line l = (if l \<noteq> [] \<and> last l = carriage_return then butlast l else l)"

primrec lines_from :: "string \<Rightarrow> string \<Rightarrow> string list" where
  "lines_from cur [] = (if cur = [] then [] else [cur])"
| "lines_from cur (c # cs) = (if c = newline then end_line cur # lines_from [] cs
     else lines_from (cur @ [c]) cs)"

text \<open>\<open>str::split_whitespace\<close>\<close>

primrec words_from :: "string \<Rightarrow> string \<Rightarrow> string list" where
  "words_from cur [] = (if cur = [] then [] else [cur])"
| "words_from cur (c # cs) =
     (if white c then (if cur = [] then words_from [] cs else cur # words_from [] cs)
      else words_from (cur @ [c]) cs)"

definition str_lines :: "string \<Rightarrow> string list" where "str_lines = lines_from []"
definition split_whitespace :: "string \<Rightarrow> string list" where "split_whitespace = words_from []"

text \<open>\<open>get\<close> and \<open>nth\<close>\<close>

definition list_get :: "'a list \<Rightarrow> nat \<Rightarrow> 'a option" where
  "list_get xs n = (if n < length xs then Some (xs ! n) else None)"

text \<open>\<open>rfind(c)\<close> with the slice behind what it found.\<close>

definition after_last :: "char \<Rightarrow> string \<Rightarrow> string option" where
  "after_last c s = (if c \<in> set s then Some (rev (takeWhile (\<lambda>d. d \<noteq> c) (rev s))) else None)"

section \<open>The files of a process\<close>

text \<open>The ticks of \<open>cpu_seconds\<close>.\<close>

definition cpu_ticks :: "profile \<Rightarrow> string option \<Rightarrow> nat option outcome" where
  "cpu_ticks pf stat = (case Option.bind stat (after_last (CHR '')'')) of
     None \<Rightarrow> Inr None
   | Some rest \<Rightarrow> (let fields = split_whitespace rest in
       case Option.bind (list_get fields 11) parse_usize of
         None \<Rightarrow> Inr None
       | Some utime \<Rightarrow> (case Option.bind (list_get fields 12) parse_usize of
           None \<Rightarrow> Inr None
         | Some stime \<Rightarrow> bind_out (usize_add pf utime stime) (\<lambda>t. Inr (Some t)))))"

definition status_kb :: "string option \<Rightarrow> string \<Rightarrow> nat option" where
  "status_kb status key = Option.bind status (\<lambda>s.
     Option.bind (find (starts_with key) (str_lines s)) (\<lambda>l.
     Option.bind (list_get (split_whitespace l) 1) parse_usize))"

definition rss_kb :: "string option \<Rightarrow> nat" where
  "rss_kb status = (case status_kb status ''VmRSS:'' of None \<Rightarrow> 0 | Some n \<Rightarrow> n)"

definition peak_rss_kb :: "string option \<Rightarrow> nat" where
  "peak_rss_kb status = (case status_kb status ''VmHWM:'' of None \<Rightarrow> 0 | Some n \<Rightarrow> n)"

text \<open>The number of entries of the directory, none when it cannot be read.\<close>

definition fd_count :: "nat option \<Rightarrow> nat" where
  "fd_count dir = (case dir of None \<Rightarrow> 0 | Some n \<Rightarrow> n)"

section \<open>The limit on descriptors\<close>

record rlimit =
  rlim_cur :: nat
  rlim_max :: nat

text \<open>What \<open>getrlimit\<close> leaves in the structure; its result is not looked at.\<close>

definition got_limit :: "rlimit option \<Rightarrow> rlimit" where
  "got_limit answer = (case answer of None \<Rightarrow> \<lparr>rlim_cur = 0, rlim_max = 0\<rparr> | Some l \<Rightarrow> l)"

definition nofile_limit :: "rlimit option \<Rightarrow> nat" where
  "nofile_limit answer = rlim_cur (got_limit answer)"

text \<open>The structure handed to \<open>setrlimit\<close>.\<close>

definition set_nofile_limit :: "rlimit option \<Rightarrow> nat \<Rightarrow> rlimit" where
  "set_nofile_limit answer soft =
     (let lim = got_limit answer in lim\<lparr>rlim_cur := min soft (rlim_max lim)\<rparr>)"

section \<open>The watchdog\<close>

text \<open>An entry of the log: time since the start, resident sizes of both, descriptors of the service.\<close>

record fd_watch =
  limit :: nat
  threshold :: nat
  peak_self :: nat
  peak_child :: nat
  tripped :: bool
  timeline :: "(nat \<times> (nat \<times> nat \<times> nat \<times> nat) list) option"

text \<open>What one sample sees; \<open>locked_out\<close> when \<open>try_lock\<close> does not get the log.\<close>

record reading =
  mine :: nat
  theirs :: nat
  clock :: nat
  client_rss :: nat
  server_rss :: nat
  locked_out :: bool

definition log_sample :: "reading \<Rightarrow> fd_watch \<Rightarrow> fd_watch" where
  "log_sample rd w = (if locked_out rd then w else case timeline w of
     None \<Rightarrow> w
   | Some (start, log) \<Rightarrow> (let t = clock rd - start in
       if log = [] \<or> 10 ^ 9 \<le> t - fst (last log)
       then w\<lparr>timeline := Some (start, log @ [(t, client_rss rd, server_rss rd, theirs rd)])\<rparr>
       else w))"

text \<open>The result says whether \<open>abort\<close> is called, which ends the process.\<close>

definition sample :: "reading \<Rightarrow> fd_watch \<Rightarrow> fd_watch \<times> bool" where
  "sample rd w =
     (let w1 = w\<lparr>peak_self := max (peak_self w) (mine rd),
          peak_child := max (peak_child w) (theirs rd)\<rparr>;
          w2 = log_sample rd w1 in
      if threshold w2 \<le> mine rd \<or> threshold w2 \<le> theirs rd
      then (w2\<lparr>tripped := True\<rparr>, \<not> tripped w2) else (w2, False))"

definition reset_peaks :: "fd_watch \<Rightarrow> fd_watch" where
  "reset_peaks w = w\<lparr>peak_self := 0, peak_child := 0\<rparr>"

section \<open>Reading back\<close>

lemma lines_from_line:
  "newline \<notin> set l \<Longrightarrow> lines_from cur (l @ newline # s) = end_line (cur @ l) # lines_from [] s"
  by (induction l arbitrary: cur) auto

lemma lines_of_text:
  "\<forall>l \<in> set ls. newline \<notin> set l \<Longrightarrow> str_lines (concat (map (\<lambda>l. l @ [newline]) ls)) = map end_line ls"
  by (induction ls) (simp_all add: str_lines_def lines_from_line)

lemma words_from_word:
  "\<forall>c \<in> set w. \<not> white c \<Longrightarrow> words_from cur (w @ s) = words_from (cur @ w) s"
  by (induction w arbitrary: cur) auto

lemma words_from_blank:
  "\<forall>c \<in> set b. white c \<Longrightarrow> words_from [] (b @ s) = words_from [] s"
  by (induction b) auto

lemma words_from_gap:
  "cur \<noteq> [] \<Longrightarrow> b \<noteq> [] \<Longrightarrow> \<forall>c \<in> set b. white c \<Longrightarrow> words_from cur (b @ s) = cur # words_from [] s"
  by (cases b) (simp_all add: words_from_blank)

text \<open>A word followed by blanks.\<close>

definition word :: "string \<Rightarrow> bool" where
  "word w \<longleftrightarrow> w \<noteq> [] \<and> (\<forall>c \<in> set w. \<not> white c)"

definition blank :: "string \<Rightarrow> bool" where
  "blank b \<longleftrightarrow> b \<noteq> [] \<and> (\<forall>c \<in> set b. white c)"

lemma words_from_step: "word w \<Longrightarrow> blank b \<Longrightarrow> words_from [] (w @ b @ s) = w # words_from [] s"
  by (simp add: word_def blank_def words_from_word words_from_gap)

lemma words_of_text:
  "\<forall>(w, b) \<in> set ps. word w \<and> blank b \<Longrightarrow>
     split_whitespace (concat (map (\<lambda>(w, b). w @ b) ps)) = map fst ps"
  by (induction ps) (auto simp: split_whitespace_def words_from_step)

lemma digit_not_white: "v < 10 \<Longrightarrow> \<not> white (digit v)"
proof -
  assume "v < 10"
  then have code: "of_char (digit v) = 48 + v" by (simp add: digit_def)
  have "of_char c < (48 :: nat)" if "white c" for c
    using that by (auto simp: white_def newline_def carriage_return_def)
  with code show ?thesis by force
qed

lemma word_decimal: "word (decimal n)"
  using decimal_digits [of n] digit_not_white by (auto simp: word_def)

lemma starts_with_append: "starts_with p (p @ s)"
  by (induction p) simp_all

lemma starts_with_prefix: "starts_with p s \<Longrightarrow> starts_with p (s @ t)"
  by (induction p s rule: starts_with.induct) auto

lemma starts_with_end_line: "starts_with p (end_line l) \<Longrightarrow> starts_with p l"
  using starts_with_prefix [of p "butlast l" "[last l]"] append_butlast_last_id [of l]
  unfolding end_line_def by (metis (full_types))

text \<open>Sizes are read back: in a status file whose lines are a field name with its value, the
  value of the first line that starts with the field is found, whatever the other lines hold and
  however many blanks come before the value.\<close>

theorem status_field_read_back:
  assumes "\<forall>l \<in> set (before @ after). newline \<notin> set l" and "\<forall>l \<in> set before. \<not> starts_with key l"
    and "word key" and "blank gap" and "blank unit_gap" and "newline \<notin> set (gap @ unit_gap)"
    and "n < 2 ^ 64"
  shows "status_kb (Some (concat (map (\<lambda>l. l @ [newline])
    (before @ [key @ gap @ decimal n @ unit_gap @ ''kB''] @ after)))) key = Some n"
proof -
  let ?line = "key @ gap @ decimal n @ unit_gap @ ''kB''"
  have no_newline: "newline \<notin> set w" if "word w" for w
    using that by (auto simp: word_def white_def)
  have "newline \<notin> set ?line"
    using assms(3,6) no_newline [OF assms(3)] no_newline [OF word_decimal [of n]]
    by (simp add: newline_def)
  then have lines: "str_lines (concat (map (\<lambda>l. l @ [newline]) (before @ [?line] @ after))) =
      map end_line before @ [?line] @ map end_line after"
    using assms(1) by (subst lines_of_text) (auto simp: end_line_def carriage_return_def)
  have "find (starts_with key) (map end_line before @ [?line] @ rest) = Some ?line" for rest
    using assms(2) starts_with_append [of key]
    by (induction before) (auto dest: starts_with_end_line)
  moreover have "split_whitespace ?line = [key, decimal n, ''kB'']"
    using assms(3-5) word_decimal [of n]
    by (simp add: split_whitespace_def words_from_step) (simp add: white_def newline_def carriage_return_def)
  ultimately show ?thesis
    using assms(7) unfolding status_kb_def Option.bind.bind_lunit lines
    by (simp add: list_get_def parse_usize_decimal)
qed

theorem status_field_read_back_witness:
  "status_kb (Some (''Name:'' @ [CHR 0x09] @ ''bench'' @ [newline] @ ''VmRSS:'' @ [CHR 0x09] @ ''  '' @
     decimal 5120 @ '' kB'' @ [newline])) ''VmRSS:'' = Some 5120"
  using status_field_read_back [of "[''Name:'' @ [CHR 0x09] @ ''bench'']" "[]" "''VmRSS:''"
      "[CHR 0x09] @ ''  ''" "'' ''" 5120]
  by (simp add: word_def blank_def white_def newline_def carriage_return_def)

lemma takeWhile_upto: "c \<notin> set xs \<Longrightarrow> takeWhile (\<lambda>d. d \<noteq> c) (xs @ c # ys) = xs"
  by (induction xs) auto

text \<open>The times of a process are found behind the last parenthesis, whatever the name of the
  process: spaces, parentheses and line feeds in it do not matter.\<close>

theorem cpu_times_read_back:
  assumes "\<forall>(w, b) \<in> set ps. word w \<and> blank b \<and> CHR '')'' \<notin> set (w @ b)" and "12 < length ps"
    and "fst (ps ! 11) = decimal u" and "fst (ps ! 12) = decimal s" and "u + s < 2 ^ 64"
  shows "cpu_ticks pf (Some (pid @ '' ('' @ comm @ '') '' @ concat (map (\<lambda>(w, b). w @ b) ps))) =
    Inr (Some (u + s))"
proof -
  let ?tail = "concat (map (\<lambda>(w, b). w @ b) ps)"
  have "\<forall>p \<in> set ps. CHR '')'' \<notin> set (case p of (w, b) \<Rightarrow> w @ b)" using assms(1) by fast
  then have "CHR '')'' \<notin> set ?tail" by simp
  then have "CHR '')'' \<notin> set ('' '' @ ?tail)" by simp
  then have "takeWhile (\<lambda>d. d \<noteq> CHR '')'') (rev ('' '' @ ?tail) @ CHR '')'' # rev (pid @ '' ('' @ comm)) =
      rev ('' '' @ ?tail)"
    by (metis takeWhile_upto set_rev)
  then have rest: "after_last (CHR '')'') (pid @ '' ('' @ comm @ '') '' @ ?tail) = Some ('' '' @ ?tail)"
    by (simp add: after_last_def)
  have "split_whitespace ('' '' @ ?tail) = split_whitespace ?tail"
    by (simp add: split_whitespace_def white_def)
  also have "\<dots> = map fst ps" using assms(1) by (intro words_of_text) auto
  finally have fields: "split_whitespace ('' '' @ ?tail) = map fst ps" .
  have times: "list_get (map fst ps) 11 = Some (decimal u)" "list_get (map fst ps) 12 = Some (decimal s)"
    using assms(2-4) by (simp_all only: list_get_def length_map if_True nth_map) simp_all
  show ?thesis
    unfolding cpu_ticks_def Option.bind.bind_lunit rest option.case Let_def fields times
    using assms(5) by (simp add: parse_usize_decimal)
qed

section \<open>One alarm\<close>

text \<open>Samples in the order in which they are taken: the watch at the end, and which of them stopped
  the run.\<close>

primrec sample_all :: "reading list \<Rightarrow> fd_watch \<Rightarrow> fd_watch \<times> bool list" where
  "sample_all [] w = (w, [])"
| "sample_all (rd # rds) w = (case sample rd w of (w1, a) \<Rightarrow>
     (case sample_all rds w1 of (w2, as) \<Rightarrow> (w2, a # as)))"

abbreviation over :: "nat \<Rightarrow> reading \<Rightarrow> bool" where
  "over n rd \<equiv> n \<le> mine rd \<or> n \<le> theirs rd"

definition spaced :: "(nat \<times> nat \<times> nat \<times> nat) list \<Rightarrow> bool" where
  "spaced log \<longleftrightarrow> sorted_wrt (\<lambda>a b. fst a + 10 ^ 9 \<le> fst b) log"

lemma log_sample_fields [simp]:
  "limit (log_sample rd w) = limit w" "threshold (log_sample rd w) = threshold w"
  "peak_self (log_sample rd w) = peak_self w" "peak_child (log_sample rd w) = peak_child w"
  "tripped (log_sample rd w) = tripped w"
  by (simp_all add: log_sample_def Let_def split: option.split prod.split)

lemma sample_fields:
  "threshold (fst (sample rd w)) = threshold w"
  "peak_self (fst (sample rd w)) = max (peak_self w) (mine rd)"
  "peak_child (fst (sample rd w)) = max (peak_child w) (theirs rd)"
  "tripped (fst (sample rd w)) = (tripped w \<or> over (threshold w) rd)"
  "snd (sample rd w) = (over (threshold w) rd \<and> \<not> tripped w)"
  by (simp_all add: sample_def Let_def)

lemma spaced_snoc:
  "spaced log \<Longrightarrow> log = [] \<or> fst (last log) + 10 ^ 9 \<le> fst e \<Longrightarrow> spaced (log @ [e])"
  by (cases log rule: rev_cases) (fastforce simp: spaced_def sorted_wrt_append)+

lemma sample_spaced:
  assumes "\<And>start log. timeline w = Some (start, log) \<Longrightarrow> spaced log"
    and "timeline (fst (sample rd w)) = Some (start, log)"
  shows "spaced log"
proof -
  let ?w1 = "w\<lparr>peak_self := max (peak_self w) (mine rd), peak_child := max (peak_child w) (theirs rd)\<rparr>"
  have "timeline (fst (sample rd w)) = timeline (log_sample rd ?w1)"
    by (simp add: sample_def Let_def)
  with assms show ?thesis
    by (auto simp: log_sample_def Let_def split: if_splits option.splits intro!: spaced_snoc)
qed

theorem watch_stops_once:
  assumes "\<not> tripped w" and "\<And>start log. timeline w = Some (start, log) \<Longrightarrow> spaced log"
    and "sample_all rds w = (w1, alarms)"
  shows "length (filter id alarms) = (if \<exists>rd \<in> set rds. over (threshold w) rd then 1 else 0) \<and>
    list_all2 (\<lambda>rd a. a \<longrightarrow> over (threshold w) rd) rds alarms \<and>
    peak_self w1 = fold max (map mine rds) (peak_self w) \<and>
    peak_child w1 = fold max (map theirs rds) (peak_child w) \<and>
    (\<forall>start log. timeline w1 = Some (start, log) \<longrightarrow> spaced log)"
proof -
  have "length (filter id alarms) = (if \<not> tripped w \<and> (\<exists>rd \<in> set rds. over (threshold w) rd) then 1 else 0) \<and>
    list_all2 (\<lambda>rd a. a \<longrightarrow> over (threshold w) rd) rds alarms \<and>
    peak_self w1 = fold max (map mine rds) (peak_self w) \<and>
    peak_child w1 = fold max (map theirs rds) (peak_child w) \<and>
    (\<forall>start log. timeline w1 = Some (start, log) \<longrightarrow> spaced log)"
    using assms(2,3)
  proof (induction rds arbitrary: w alarms)
    case (Cons rd rds)
    obtain as where as: "sample_all rds (fst (sample rd w)) = (w1, as)" "alarms = snd (sample rd w) # as"
      using Cons.prems(2) by (auto split: prod.splits)
    have "spaced log" if "timeline (fst (sample rd w)) = Some (start, log)" for start log
      using sample_spaced [OF Cons.prems(1) that] .
    from Cons.IH [OF this as(1)] show ?case
      unfolding as(2) by (auto simp: sample_fields max.commute)
  qed auto
  with assms(1) show ?thesis by simp
qed

end
