(* ===== verification/Bench_Client.thy ===== *)
theory Bench_Client
  imports Remote_Echo Bench_Monitor
begin

text \<open>
  The client of the benchmark: the methods of \<open>Client\<close> in \<open>src/examples/bench.rs\<close>, the self
  check of \<open>client_main\<close> and the probe of the payload ceiling.

  A method is a program over the world of the client's process. A result without a value means
  that the watchdog has stopped the process. The clock and what the samples see are given for
  the n-th time they are looked at; of a statistic only what is computed without floating-point
  numbers is kept.
\<close>

section \<open>Calls\<close>

record 'h client =
  reply_obj :: "'h binder_object"
  devnull :: i32

definition client_message :: "'h env \<Rightarrow> 'h client \<Rightarrow> byte list \<Rightarrow> nat \<Rightarrow> nat \<Rightarrow>
    ('h, 'h payload_builder) prog" where
  "client_message E c content nrefs nfds =
     pbind (Driver.on_dev (message (prof E) (union_junk E) (reply_obj c) (devnull c) content nrefs nfds))
       (\<lambda>b. case b of None \<Rightarrow> (\<lambda>w. None) | Some x \<Rightarrow> pret x)"

definition round_trip :: "'h env \<Rightarrow> 'h client \<Rightarrow> byte list \<Rightarrow> nat \<Rightarrow> nat \<Rightarrow>
    ('h, error + 'h payload_reader) prog" where
  "round_trip E c content nrefs nfds = pbind (client_message E c content nrefs nfds) (\<lambda>b.
     pbind (transact_blocking E Target_Context_Manager ECHO_CODE b) (\<lambda>res.
     pret (map_sum id snd res)))"

definition client_one_way :: "'h env \<Rightarrow> 'h client \<Rightarrow> byte list \<Rightarrow> nat \<Rightarrow> ('h, error + unit) prog" where
  "client_one_way E c content nrefs = pbind (client_message E c content nrefs 0) (\<lambda>b.
     transact_one_way E Target_Context_Manager ECHO_CODE b)"

text \<open>Both failures are panics of \<open>expect\<close>.\<close>

definition service_stats :: "'h env \<Rightarrow> ('h, 64 word \<times> 64 word) prog" where
  "service_stats E = pbind (transact_blocking E Target_Context_Manager STATS_CODE new_builder) (\<lambda>res.
     case res of Inl e \<Rightarrow> ppanic Unwrap_Failed
     | Inr (cde, reply) \<Rightarrow> (case read_bytes (prof E) 16 reply of
         Inl p \<Rightarrow> ppanic p
       | Inr (Inl e) \<Rightarrow> ppanic Unwrap_Failed
       | Inr (Inr (bs, reply1)) \<Rightarrow> pbind (drop_reader E reply1)
           (\<lambda>_. pret (u64_of (take 8 bs), u64_of (drop 8 bs)))))"

text \<open>A result that is not used is dropped at once.\<close>

definition drop_result :: "'h env \<Rightarrow> error + 'h payload_reader \<Rightarrow> ('h, unit) prog" where
  "drop_result E res = (case res of Inl e \<Rightarrow> pret () | Inr r \<Rightarrow> drop_reader E r)"

definition reset_stats :: "'h env \<Rightarrow> ('h, unit) prog" where
  "reset_stats E = pbind (transact_blocking E Target_Context_Manager RESET_CODE new_builder)
     (\<lambda>res. drop_result E (map_sum id snd res))"

section \<open>Loops\<close>

text \<open>
  The clock of a phase: whether the n-th look at it finds the deadline passed, whether a sample is
  due then, and what the sample sees.
\<close>

record phase_clock =
  passed :: "nat \<Rightarrow> bool"
  due :: "nat \<Rightarrow> bool"
  readings :: "nat \<Rightarrow> reading"

definition sample_if_due :: "phase_clock \<Rightarrow> nat \<Rightarrow> fd_watch \<Rightarrow> fd_watch \<times> bool" where
  "sample_if_due T k watch = (if due T k then sample (readings T k) watch else (watch, False))"

definition times_A :: "nat \<Rightarrow> byte list" where "times_A n = replicate n 0x41"

primrec warm_up :: "'h env \<Rightarrow> 'h client \<Rightarrow> byte list \<Rightarrow> nat \<Rightarrow> nat \<Rightarrow> nat \<Rightarrow> ('h, unit) prog" where
  "warm_up E c content nrefs nfds 0 = pret ()"
| "warm_up E c content nrefs nfds (Suc n) = pbind (round_trip E c content nrefs nfds) (\<lambda>res.
     pbind (drop_result E res) (\<lambda>_. warm_up E c content nrefs nfds n))"

text \<open>The timed iterations: the samples are the elapsed times, and the first error ends the loop.\<close>

primrec latency_loop :: "'h env \<Rightarrow> 'h client \<Rightarrow> phase_clock \<Rightarrow> (nat \<Rightarrow> nat) \<Rightarrow> byte list \<Rightarrow> nat \<Rightarrow> nat \<Rightarrow>
    nat \<Rightarrow> nat list \<Rightarrow> fd_watch \<Rightarrow> ('h, (nat list \<times> fd_watch) option) prog" where
  "latency_loop E c T elapsed content nrefs nfds 0 samples watch = pret (Some (samples, watch))"
| "latency_loop E c T elapsed content nrefs nfds (Suc n) samples watch =
     pbind (round_trip E c content nrefs nfds) (\<lambda>res. case res of
       Inl e \<Rightarrow> pret (Some (samples, watch))
     | Inr reply \<Rightarrow> pbind (drop_reader E reply) (\<lambda>_.
         let k = length samples in
         case sample_if_due T k watch of (watch1, stopped) \<Rightarrow>
           if stopped then pret None
           else latency_loop E c T elapsed content nrefs nfds n (samples @ [elapsed k]) watch1))"

text \<open>\<open>summarize\<close>: the sorted samples; the first of none is out of range.\<close>

definition summarize :: "nat list \<Rightarrow> nat list outcome" where
  "summarize samples = (if samples = [] then Inl Slice_Out_Of_Range else Inr (sort samples))"

definition latency :: "'h env \<Rightarrow> 'h client \<Rightarrow> phase_clock \<Rightarrow> (nat \<Rightarrow> nat) \<Rightarrow> nat \<Rightarrow> nat \<Rightarrow> nat \<Rightarrow> nat \<Rightarrow>
    fd_watch \<Rightarrow> ('h, (nat list \<times> fd_watch) option) prog" where
  "latency E c T elapsed content nrefs nfds rounds watch =
     pbind (warm_up E c (times_A content) nrefs nfds (min 1000 rounds)) (\<lambda>_.
     pbind (latency_loop E c T elapsed (times_A content) nrefs nfds rounds [] (reset_peaks watch)) (\<lambda>res.
     case res of None \<Rightarrow> pret None
     | Some (samples, watch1) \<Rightarrow> (case summarize samples of Inl p \<Rightarrow> ppanic p
         | Inr ordered \<Rightarrow> pret (Some (ordered, watch1)))))"

text \<open>One thread of \<open>throughput_blocking\<close>: what it adds to \<open>done\<close> and to \<open>failed\<close>.\<close>

partial_function (option) blocking_job :: "'h env \<Rightarrow> 'h client \<Rightarrow> phase_clock \<Rightarrow> bool \<Rightarrow> byte list \<Rightarrow>
    nat \<Rightarrow> nat \<Rightarrow> nat \<Rightarrow> nat \<Rightarrow> fd_watch \<Rightarrow> ('h, (nat \<times> nat \<times> fd_watch) option) prog" where
  "blocking_job E c T samples content nrefs nfds n failed watch w =
     pbind (round_trip E c content nrefs nfds) (\<lambda>res.
     pbind (drop_result E res) (\<lambda>_ w1.
     let failed1 = (if isl res then failed + 1 else failed); n1 = n + 1 in
     if n1 mod 16 = 0 then
       (if passed T (n1 div 16) then pret (Some (n1, failed1, watch)) w1
        else case (if samples then sample_if_due T (n1 div 16) watch else (watch, False)) of
          (watch1, stopped) \<Rightarrow> if stopped then pret None w1
            else blocking_job E c T samples content nrefs nfds n1 failed1 watch1 w1)
     else blocking_job E c T samples content nrefs nfds n1 failed1 watch w1)) w"

text \<open>The loop of \<open>throughput_one_way\<close>.\<close>

partial_function (option) one_way_pump :: "'h env \<Rightarrow> 'h client \<Rightarrow> phase_clock \<Rightarrow> byte list \<Rightarrow> nat \<Rightarrow>
    nat \<Rightarrow> nat \<Rightarrow> fd_watch \<Rightarrow> ('h, (nat \<times> nat \<times> fd_watch) option) prog" where
  "one_way_pump E c T content nrefs sent_n rejected watch w =
     pbind (client_one_way E c content nrefs) (\<lambda>res w1.
     let sent1 = (if isl res then sent_n else sent_n + 1);
         rejected1 = (if isl res then rejected + 1 else rejected);
         k = (sent1 + rejected1) div 64 in
     if (sent1 + rejected1) mod 64 = 0 then
       (if passed T k then pret (Some (sent1, rejected1, watch)) w1
        else case sample_if_due T k watch of (watch1, stopped) \<Rightarrow>
          if stopped then pret None w1 else one_way_pump E c T content nrefs sent1 rejected1 watch1 w1)
     else one_way_pump E c T content nrefs sent1 rejected1 watch w1) w"

text \<open>Waiting for the tail: the service's counter until it has caught up, stands still, or time is up.\<close>

partial_function (option) drain_tail :: "'h env \<Rightarrow> (nat \<Rightarrow> bool) \<Rightarrow> nat \<Rightarrow> nat \<Rightarrow> nat \<Rightarrow>
    ('h, nat) prog" where
  "drain_tail E time_up sent_n k handled w =
     (if handled < sent_n \<and> \<not> time_up k then
        pbind (service_stats E) (\<lambda>stats w1.
          if unat (fst stats) = handled then pret handled w1
          else drain_tail E time_up sent_n (k + 1) (unat (fst stats)) w1) w
      else pret handled w)"

text \<open>\<open>Some (sent, handled, rejected)\<close> with the watch.\<close>

definition throughput_one_way :: "'h env \<Rightarrow> 'h client \<Rightarrow> phase_clock \<Rightarrow> (nat \<Rightarrow> bool) \<Rightarrow> nat \<Rightarrow> nat \<Rightarrow>
    fd_watch \<Rightarrow> ('h, (nat \<times> nat \<times> nat \<times> fd_watch) option) prog" where
  "throughput_one_way E c T time_up content nrefs watch =
     pbind (reset_stats E) (\<lambda>_.
     pbind (one_way_pump E c T (times_A content) nrefs 0 0 (reset_peaks watch)) (\<lambda>res. case res of
       None \<Rightarrow> pret None
     | Some (sent_n, rejected, watch1) \<Rightarrow>
         pbind (service_stats E) (\<lambda>stats.
         pbind (drain_tail E time_up sent_n 0 (unat (fst stats))) (\<lambda>handled.
         pret (Some (sent_n, handled, rejected, watch1))))))"

section \<open>The self check and the probe\<close>

text \<open>Reading every object that is left; anything but a local or a remote strong reference or a
  descriptor is a panic.\<close>

partial_function (option) count_objects :: "'h env \<Rightarrow> 'h payload_reader \<Rightarrow> nat \<Rightarrow> nat \<Rightarrow>
    ('h, nat \<times> nat \<times> 'h payload_reader) prog" where
  "count_objects E r nrefs nfds w = (case next_object_type (prof E) r of
     Inl p \<Rightarrow> ppanic p w
   | Inr None \<Rightarrow> pret (nrefs, nfds, r) w
   | Inr (Some kind) \<Rightarrow>
       if kind = Type_BinderObject \<or> kind = Type_BinderRef then
         pbind (Driver.on_dev (read_binder_ref (prof E) r)) (\<lambda>res. case res of
           Inl e \<Rightarrow> ppanic Unwrap_Failed
         | Inr (x, r1) \<Rightarrow> pbind (Driver.on_dev (object_or_ref_drop (prof E) x))
             (\<lambda>_. count_objects E r1 (nrefs + 1) nfds)) w
       else if kind = Type_Fd then (case read_fd (prof E) r of
           Inl p \<Rightarrow> ppanic p w
         | Inr (Inl e) \<Rightarrow> ppanic Unwrap_Failed w
         | Inr (Inr ((fd, ck), r1)) \<Rightarrow> pbind (pupdate (\<lambda>w. w\<lparr>closed_fds := closed_fds w @ [fd]\<rparr>))
             (\<lambda>_. count_objects E r1 nrefs (nfds + 1)) w)
       else ppanic Assert_Failed w)"

definition self_check_payload :: "byte list" where
  "self_check_payload = map of_char ''binderbinder bench self-check''"

definition assert_true :: "bool \<Rightarrow> ('h, unit) prog" where
  "assert_true b = (if b then pret () else ppanic Assert_Failed)"

definition check_reply :: "'h env \<Rightarrow> byte list \<Rightarrow> 'h payload_reader \<Rightarrow> ('h, unit) prog" where
  "check_reply E content reply =
     (case bytes_until_next_obj (prof E) reply of Inl p \<Rightarrow> ppanic p
      | Inr block \<Rightarrow> (case read_bytes (prof E) block reply of Inl p \<Rightarrow> ppanic p
        | Inr (Inl e) \<Rightarrow> ppanic Unwrap_Failed
        | Inr (Inr (echoed, r1)) \<Rightarrow>
            pbind (assert_true (header_counts echoed = (2, 2))) (\<lambda>_.
            case slice_index echoed 8 (8 + length content) of Inl p \<Rightarrow> ppanic p
            | Inr bs \<Rightarrow> pbind (assert_true (bs = content)) (\<lambda>_.
                pbind (count_objects E r1 0 0) (\<lambda>(nrefs, nfds, r2).
                pbind (assert_true (nrefs = 2 \<and> nfds = 2)) (\<lambda>_.
                drop_reader E r2))))))"

definition self_check :: "'h env \<Rightarrow> 'h client \<Rightarrow> ('h, unit) prog" where
  "self_check E c = pbind (round_trip E c self_check_payload 2 2) (\<lambda>res. case res of
     Inl e \<Rightarrow> ppanic Unwrap_Failed
   | Inr reply \<Rightarrow> check_reply E self_check_payload reply)"

text \<open>
  What a probe sends to the main thread: the error, or the size that came back; the reply is
  dropped by the thread. A thread that does not return sends nothing.
\<close>

definition probe_payload :: "'h env \<Rightarrow> 'h client \<Rightarrow> nat \<Rightarrow> ('h, error + nat) prog" where
  "probe_payload E c len = pbind (round_trip E c (times_A len) 0 0) (\<lambda>res. case res of
     Inl e \<Rightarrow> pret (Inl e)
   | Inr reply \<Rightarrow> (case bytes_until_next_obj (prof E) reply of Inl p \<Rightarrow> ppanic p
       | Inr n \<Rightarrow> pbind (drop_reader E reply) (\<lambda>_. pret (Inr (n - 8)))))"

section \<open>Readers of an echoed message\<close>

lemma unread_types:
  "unread (It_Object j x # its) r \<Longrightarrow>
     next_object_type pf r = Inr (object_type_of (hdr_type (get_flat_binder_object j x)))"
  "unread (It_Fd j fd ck # its) r \<Longrightarrow> next_object_type pf r = Inr (Some Type_Fd)"
  "unread [] r \<Longrightarrow> next_object_type pf r = Inr None"
proof -
  assume u: "unread (It_Object j x # its) r"
  let ?ob = "enc_flat (get_flat_binder_object j x)"
  obtain off where "current_offset r = Some off" "data_at pf r off 4 = Inr (take 4 ?ob)"
    by (rule unread_object [OF u, where ob = ?ob]) simp_all
  then show "next_object_type pf r = Inr (object_type_of (hdr_type (get_flat_binder_object j x)))"
    by (simp add: next_object_type_def)
next
  assume u: "unread (It_Fd j fd ck # its) r"
  let ?ob = "enc_fd (fd_object j fd ck)"
  obtain off where "current_offset r = Some off" "data_at pf r off 4 = Inr (take 4 ?ob)"
    by (rule unread_object [OF u, where ob = ?ob]) simp_all
  moreover have "dec_header (take 4 ?ob) = FD" by simp
  ultimately show "next_object_type pf r = Inr (Some Type_Fd)"
    by (simp add: next_object_type_def) (simp add: object_type_of_def)
next
  assume "unread [] r"
  then show "next_object_type pf r = Inr None"
    by (auto simp: unread_def next_object_type_def current_offset_def)
qed

lemma unread_drop:
  assumes "unread [] r" and "pr_binder_objects r = []" and "can_free r (world.dev w)"
  shows "drop_reader E r w = Some (Inr (), freed r w)"
  using unread_types(3) [OF assms(1), of "prof E"] assms(2,3)
  by (cases "pr_data r") (auto simp: drop_reader_def reader_drop_def drain.simps freed_def free_def
      bind_def can_free_def dev_write_struct_command_def write_binder_struct_command_def)

text \<open>A reference that is read and dropped leaves the device as it was.\<close>

definition lendable :: "'h binder_device \<Rightarrow> binder_object_id \<Rightarrow> bool" where
  "lendable d i \<longleftrightarrow> (\<exists>h st. objects d i = Some h \<and> object_refcounts d i = Some st \<and> settled 1 st)"

lemma settled_local:
  assumes "settled 1 st"
  shows "\<exists>c st1. increase_local pf st = (Inr c, st1) \<and> (\<exists>c1. decrease_local pf st1 = (Inr c1, st))"
proof -
  let ?c = "counts st"
  have u: "unat (local ?c + 1) = unat (local ?c) + 1"
    using assms by (intro unat_plus1) (simp add: settled_def)
  then have nz: "local ?c + 1 \<noteq> 0" by (metis add_is_0 unat_0 zero_neq_one)
  have "total pf (?c\<lparr>local := local ?c + 1\<rparr>) = Inr (local ?c + 1 + remote ?c + pending ?c)"
    using assms u total_settled [of "local ?c + 1" "remote ?c" "pending ?c"]
    by (cases ?c) (simp add: settled_def)
  then have inc: "increase_local pf st = (Inr (?c\<lparr>local := local ?c + 1\<rparr>),
      st\<lparr>counts := ?c\<lparr>local := local ?c + 1\<rparr>, strong_count := local ?c + 1 + remote ?c + pending ?c\<rparr>)"
    using assms u by (simp add: increase_local_def update_def settled_def add_checked_def)
  have "total pf ?c = Inr (local ?c + remote ?c + pending ?c)"
    using assms total_settled [of "local ?c" "remote ?c" "pending ?c"]
    by (cases ?c) (simp add: settled_def)
  then have "decrease_local pf (st\<lparr>counts := ?c\<lparr>local := local ?c + 1\<rparr>,
      strong_count := local ?c + 1 + remote ?c + pending ?c\<rparr>) = (Inr ?c, st)"
    using assms nz by (simp add: decrease_local_def update_def settled_def sub_checked_def)
  with inc show ?thesis by blast
qed

lemma lend_and_return:
  assumes "lendable d i"
  shows "\<exists>b d1. borrowed_from_id pf i d = (Inr (Some b), d1) \<and> object_or_ref_drop pf (Object b) d1 = (Inr (), d)"
proof -
  obtain h st where st: "objects d i = Some h" "object_refcounts d i = Some st" "settled 1 st"
    using assms by (auto simp: lendable_def)
  obtain c st1 c1 where s: "increase_local pf st = (Inr c, st1)" "decrease_local pf st1 = (Inr c1, st)"
    using settled_local [OF st(3)] by blast
  have "(object_refcounts d)(i \<mapsto> st) = object_refcounts d" using st(2) by (rule fun_upd_idem)
  then show ?thesis
    using st s by (simp add: borrowed_from_id_def get_handler_def with_refstate_def bind_def
        object_or_ref_drop_def borrowed_drop_def)
qed

lemma count_fds_unread:
  assumes "unread fs r" and "list_all (fd_item junk) fs"
  shows "\<exists>r1 fds. count_objects E r a b w =
      Some (Inr (a, b + length fs, r1), w\<lparr>closed_fds := closed_fds w @ fds\<rparr>) \<and> length fds = length fs \<and>
    unread [] r1 \<and> pr_data r1 = pr_data r \<and> pr_binder_objects r1 = pr_binder_objects r"
  using assms
proof (induction fs arbitrary: r b w)
  case Nil
  then show ?case by (simp add: count_objects.simps unread_types(3))
next
  case (Cons it fs)
  then obtain fd ck where it: "it = It_Fd junk fd ck" by (auto simp: fd_item_def)
  obtain r1 where r1: "read_fd (prof E) r = Inr (Inr ((fd, ck), r1))" "unread fs r1"
    using Cons.prems(1) it unread_fd by fastforce
  then have same: "pr_data r1 = pr_data r" "pr_binder_objects r1 = pr_binder_objects r"
    by (auto elim: read_fd_next)
  let ?w = "w\<lparr>closed_fds := closed_fds w @ [fd]\<rparr>"
  have "count_objects E r a b w = count_objects E r1 a (b + 1) ?w"
    using Cons.prems(1) it r1(1) unread_types(2) [of junk fd ck fs r "prof E"]
    by (subst count_objects.simps) simp
  with Cons.IH [OF r1(2), of "b + 1" ?w] Cons.prems(2) same show ?case
    by (auto intro!: exI [of _ "fd # _"])
qed

lemma count_objects_unread:
  assumes "unread (os @ fs) r" and "list_all (local_item i) os" and "list_all (fd_item junk) fs"
    and "lendable (world.dev w) i"
  shows "\<exists>r1 fds. count_objects E r a b w =
      Some (Inr (a + length os, b + length fs, r1), w\<lparr>closed_fds := closed_fds w @ fds\<rparr>) \<and>
    length fds = length fs \<and> unread [] r1 \<and> pr_data r1 = pr_data r \<and>
    pr_binder_objects r1 = pr_binder_objects r"
  using assms(1,2)
proof (induction os arbitrary: r a)
  case Nil
  then show ?case using count_fds_unread [of fs r junk] assms(3) by simp
next
  case (Cons it os)
  then obtain j x where it: "it = It_Object j (Object x)" "bbo_id x = i"
    by (auto simp: local_item_def)
  obtain r1 where r1: "unread (os @ fs) r1"
    and rd: "read_binder_ref (prof E) r = bind (recover (prof E) (Object x))
      (\<lambda>res. case res of Inl e \<Rightarrow> ret (Inl e) | Inr y \<Rightarrow> ret (Inr (y, r1)))"
    using Cons.prems(1) it by (auto elim: unread_binder)
  obtain y d1 where y: "borrowed_from_id (prof E) i (world.dev w) = (Inr (Some y), d1)"
    "object_or_ref_drop (prof E) (Object y) d1 = (Inr (), world.dev w)"
    using lend_and_return [OF assms(4)] by blast
  have read: "read_binder_ref (prof E) r (world.dev w) = (Inr (Inr (Object y, r1)), d1)"
    using y it by (simp add: rd recover_def bind_def)
  then have same: "pr_data r1 = pr_data r" "pr_binder_objects r1 = pr_binder_objects r"
    by (auto elim: read_binder_ref_next)
  have "next_object_type (prof E) r = Inr (Some Type_BinderObject)"
    using unread_types(1) [of j "Object x" "os @ fs" r "prof E"] Cons.prems(1) it
    by (simp add: get_flat_binder_object_def object_type_of_def)
  then have "count_objects E r a b w = count_objects E r1 (a + 1) b w"
    using read y(2) by (subst count_objects.simps) (simp add: Driver.on_dev_def pbind_def)
  with Cons.IH [OF r1, of "a + 1"] Cons.prems(2) same show ?case by simp
qed

section \<open>The self check\<close>

text \<open>A reader at the start of what a builder describes.\<close>

definition shows_builder :: "'h payload_builder \<Rightarrow> 'h payload_reader \<Rightarrow> bool" where
  "shows_builder b r \<longleftrightarrow> items (pr_data r) = pb_data b \<and>
     (\<exists>v. pr_offsets r = Some v \<and> items v = obj_offsets b) \<and>
     next_offset_index r = 0 \<and> next_data_index r = 0 \<and> pr_binder_objects r = []"

text \<open>Such a reader of a message gives its block of bytes first, and has its objects left.\<close>

lemma message_reader:
  fixes r :: "'h payload_reader"
  assumes "message pf junk ob fd content nrefs nfds d0 = (Inr (Some b), d1)" and "shows_builder b r"
    and "data_buffer_len b < 2 ^ 64" and "nrefs < 2 ^ 32" and "nfds < 2 ^ 32"
  obtains block pad os r1 where "bytes_until_next_obj pf1 r = Inr (length block)"
    and "read_bytes pf1 (length block) r = Inr (Inr (block, r1))"
    and "block = u32_bytes (word_of_nat nrefs) @ u32_bytes (word_of_nat nfds) @ content @ pad"
    and "header_counts block = (word_of_nat nrefs, word_of_nat nfds)"
    and "unread (os @ replicate nfds (It_Fd junk fd 0)) r1"
    and "length (os :: 'h item list) = nrefs" and "list_all (local_item (bo_id ob)) os"
    and "pr_data r1 = pr_data r" and "pr_binder_objects r1 = []"
proof -
  let ?h1 = "u32_bytes (word_of_nat nrefs)" and ?h2 = "u32_bytes (word_of_nat nfds)"
  let ?fs = "replicate nfds (It_Fd junk fd 0) :: 'h item list"
  obtain os where b: "pb_data b = lay_bytes 0 ([It_Bytes ?h1, It_Bytes ?h2, It_Bytes content] @ os @ ?fs)"
    "obj_offsets b = lay_offsets 0 ([It_Bytes ?h1, It_Bytes ?h2, It_Bytes content] @ os @ ?fs)"
    and os: "length (os :: 'h item list) = nrefs" "list_all (local_item (bo_id ob)) os"
    by (rule message_items [OF assms(1)])
  have objs: "list_all is_object (os @ ?fs)"
    using os(2) by (auto simp: list_all_iff dest: local_item_is_object)
  define pad where "pad = (if os @ ?fs = [] then []
    else replicate (padding 8 (length ?h1 + length ?h2 + length content)) (0 :: byte))"
  define block where "block = ?h1 @ ?h2 @ content @ pad"
  note merged = merge_block [OF objs, of ?h1 ?h2 content, folded pad_def block_def]
  have unread: "unread (It_Bytes block # os @ ?fs) r"
  proof -
    have "pb_data b = lay_bytes 0 (It_Bytes block # os @ ?fs)"
      "obj_offsets b = lay_offsets 0 (It_Bytes block # os @ ?fs)"
      using b merged by (simp_all only:)
    moreover have "length (items (pr_data r)) < 2 ^ 64"
      using assms(2,3) by (simp add: shows_builder_def data_buffer_len_def)
    ultimately show ?thesis
      unfolding unread_def using assms(2)
      by (intro conjI exI [of _ "[]"]) (auto simp: shows_builder_def)
  qed
  have aligned: "length block mod 8 = 0" if "os @ ?fs \<noteq> []"
    unfolding block_def pad_def by (rule block_aligned [OF _ _ that]) simp_all
  have "next_data_index r = 0" using assms(2) by (simp add: shows_builder_def)
  then have first: "os @ ?fs = [] \<or> (\<exists>it its1. os @ ?fs = it # its1 \<and> is_object it \<and>
      (next_data_index r + length block) mod 8 = 0)"
    using objs aligned by (cases "os @ ?fs") simp_all
  have "block \<noteq> []" by (simp add: block_def u32_bytes_not_Nil)
  from until_next_is_block [OF unread this first]
  have until: "bytes_until_next_obj pf1 r = Inr (length block)" .
  obtain r1 where r1: "read_bytes pf1 (length block) r = Inr (Inr (block, r1))" "unread (os @ ?fs) r1"
    using unread_bytes [OF unread] by blast
  have "length block + 0 < 2 ^ 64"
    using unread by (auto simp: unread_def)
  then have "r1 = r\<lparr>next_data_index := next_data_index r + length block\<rparr>"
    using read_bytes_cases(2) [OF _ r1(1)] assms(2) by (simp add: shows_builder_def)
  moreover have "header_counts block = (word_of_nat nrefs, word_of_nat nfds)"
    unfolding block_def by (rule header_counts_message [OF assms(4,5)])
  ultimately show ?thesis
    using that [OF until r1(1) block_def _ r1(2) os] assms(2) by (simp add: shows_builder_def)
qed

text \<open>When the call of the check is answered with the message itself, none of its assertions fails; it
  leaves the reply's buffer given back and two descriptors closed.\<close>

lemma check_passes:
  assumes "round_trip E c self_check_payload 2 2 w = Some (Inr (Inr r), w1)"
    and "message pf junk (reply_obj c) fd self_check_payload 2 2 d0 = (Inr (Some b), d1)"
    and "shows_builder b r" and "data_buffer_len b < 2 ^ 64"
    and "lendable (world.dev w1) (bo_id (reply_obj c))" and "can_free r (world.dev w1)"
  shows "\<exists>fds. self_check E c w =
      Some (Inr (), freed r (w1\<lparr>closed_fds := closed_fds w1 @ fds\<rparr>)) \<and> length fds = 2"
proof -
  obtain block pad os r1 where m: "bytes_until_next_obj (prof E) r = Inr (length block)"
    "read_bytes (prof E) (length block) r = Inr (Inr (block, r1))"
    "block = u32_bytes (word_of_nat 2) @ u32_bytes (word_of_nat 2) @ self_check_payload @ pad"
    "header_counts block = (word_of_nat 2, word_of_nat 2)"
    "unread (os @ replicate 2 (It_Fd junk fd 0)) r1" "length os = 2"
    "list_all (local_item (bo_id (reply_obj c))) os" "pr_data r1 = pr_data r" "pr_binder_objects r1 = []"
    by (rule message_reader [OF assms(2,3,4)]) simp_all
  have fds: "list_all (fd_item junk) (replicate 2 (It_Fd junk fd 0))"
    by (simp add: fd_item_def list_all_iff)
  obtain r2 fs where r2: "count_objects E r1 0 0 w1 =
      Some (Inr (2, 2, r2), w1\<lparr>closed_fds := closed_fds w1 @ fs\<rparr>)" "length fs = 2"
    "unread [] r2" "pr_data r2 = pr_data r" "pr_binder_objects r2 = []"
    using count_objects_unread [OF m(5,7) fds assms(5), of E 0 0] m(6,8,9) by auto
  have slice: "slice_index block 8 (8 + length self_check_payload) = Inr self_check_payload"
    unfolding m(3) by (simp add: slice_index_def slice_get_def)
  let ?w2 = "w1\<lparr>closed_fds := closed_fds w1 @ fs\<rparr>"
  have "drop_reader E r2 ?w2 = Some (Inr (), freed r ?w2)"
    using unread_drop [OF r2(3,5), of ?w2 E] assms(6) r2(4) by (simp add: can_free_def freed_def)
  then have "self_check E c w = Some (Inr (), freed r ?w2)"
    using assms(1) m(1,2,4) slice r2(1)
    by (simp add: self_check_def check_reply_def pbind_def assert_true_def)
  with r2(2) show ?thesis by blast
qed

end
