(* ===== verification/Bench_Check.thy ===== *)
theory Bench_Check
  imports Bench_Client
begin

text \<open>
  The self check of the benchmark from end to end: a call that carries references and descriptors
  to the service of another process, the reply the kernel shows, and the assertions of
  \<open>client_main\<close>.

  What is followed through the call are the counts of the object whose references are sent: it has
  room for so many more references, and so many of its local ones are held by the call.
\<close>

section \<open>Room in the counts\<close>

lemma settled_inc:
  assumes "settled (Suc n) st"
  shows "\<exists>c st1. increase_local pf st = (Inr c, st1) \<and> settled n st1 \<and>
    unat (local (counts st1)) = unat (local (counts st)) + 1"
proof -
  let ?c = "counts st"
  have u: "unat (local ?c + 1) = unat (local ?c) + 1"
    using assms by (intro unat_plus1) (simp add: settled_def)
  have "total pf (?c\<lparr>local := local ?c + 1\<rparr>) = Inr (local ?c + 1 + remote ?c + pending ?c)"
    using assms u total_settled [of "local ?c + 1" "remote ?c" "pending ?c"]
    by (cases ?c) (simp add: settled_def)
  then have "increase_local pf st = (Inr (?c\<lparr>local := local ?c + 1\<rparr>),
      st\<lparr>counts := ?c\<lparr>local := local ?c + 1\<rparr>, strong_count := local ?c + 1 + remote ?c + pending ?c\<rparr>)"
    using assms u by (simp add: increase_local_def update_def settled_def add_checked_def)
  with u assms show ?thesis by (auto simp: settled_def)
qed

lemma settled_dec:
  assumes "settled n st" and "0 < unat (local (counts st))"
  shows "\<exists>c st1. decrease_local pf st = (Inr c, st1) \<and> settled n st1 \<and>
    unat (local (counts st1)) = unat (local (counts st)) - 1"
proof -
  let ?c = "counts st"
  have nz: "local ?c \<noteq> 0" using assms(2) by auto
  then have u: "unat (local ?c - 1) = unat (local ?c) - 1" by (rule unat_minus1)
  have "unat (local ?c) + unat (remote ?c) + unat (pending ?c) < 2 ^ 32"
    using assms(1) by (simp add: settled_def)
  with u have "unat (local ?c - 1) + unat (remote ?c) + unat (pending ?c) < 2 ^ 32" by linarith
  from total_settled [OF this]
  have "total pf (?c\<lparr>local := local ?c - 1\<rparr>) = Inr (local ?c - 1 + remote ?c + pending ?c)"
    by (cases ?c) simp
  then have "decrease_local pf st = (Inr (?c\<lparr>local := local ?c - 1\<rparr>),
      st\<lparr>counts := ?c\<lparr>local := local ?c - 1\<rparr>, strong_count := local ?c - 1 + remote ?c + pending ?c\<rparr>)"
    using assms nz by (simp add: decrease_local_def update_def settled_def sub_checked_def word_less_1)
  with u assms show ?thesis by (auto simp: settled_def)
qed

lemma settled_guarded:
  "settled (n + k) st \<Longrightarrow> settled n (guarded k st) \<and> local (counts (guarded k st)) = local (counts st)"
proof (induction k arbitrary: n)
  case (Suc k)
  then have "settled (Suc n) (guarded k st)" "local (counts (guarded k st)) = local (counts st)"
    using Suc.IH [of "Suc n"] by simp_all
  moreover have "guarded (Suc k) st = guarded 1 (guarded k st)"
    using guarded_guarded [of 1 k st] by simp
  moreover have "local (counts (guarded m s)) = local (counts s)" for m s by (simp add: guarded_def)
  ultimately show ?case using mark_settled(2) [of n "guarded k st"] by simp
qed simp

text \<open>The object is registered, all counts have room for \<open>n\<close> more, and \<open>m\<close> local references to it
  are held.\<close>

definition holds :: "'h binder_device \<Rightarrow> binder_object_id \<Rightarrow> nat \<Rightarrow> nat \<Rightarrow> bool" where
  "holds d i m n \<longleftrightarrow> objects d i \<noteq> None \<and> all_settled n d \<and>
     (\<exists>st. object_refcounts d i = Some st \<and> m \<le> unat (local (counts st)))"

lemma holds_sent: "holds (d\<lparr>sent := x\<rparr>) i m n = holds d i m n"
  by (simp add: holds_def all_settled_def)

definition only_counts :: "'h binder_device \<Rightarrow> 'h binder_device \<Rightarrow> bool" where
  "only_counts d e \<longleftrightarrow> (\<exists>rc. e = d\<lparr>object_refcounts := rc\<rparr>)"

lemma only_counts_refl [simp]: "only_counts d d"
  unfolding only_counts_def by (rule exI [of _ "object_refcounts d"]) simp

lemma only_counts_trans: "only_counts d e \<Longrightarrow> only_counts e f \<Longrightarrow> only_counts d f"
  by (auto simp: only_counts_def)

lemma only_counts_sent:
  "only_counts d e \<Longrightarrow> only_counts (d\<lparr>sent := sent d @ cs\<rparr>) (e\<lparr>sent := sent e @ cs\<rparr>)"
  by (cases d) (auto simp: only_counts_def)

lemma only_counts_with_guards: "only_counts d (with_guards ids d)"
  by (auto simp: only_counts_def with_guards_def)

lemma lend:
  assumes "holds d (bo_id ob) m (Suc n)"
  shows "\<exists>d1. object_to_object_or_ref pf ob d = (Inr (Object \<lparr>bbo_id = bo_id ob,
      bbo_handler = bo_handler ob, increased_local_ref = True\<rparr>), d1) \<and>
    holds d1 (bo_id ob) (Suc m) n \<and> only_counts d d1"
proof -
  obtain st where st: "object_refcounts d (bo_id ob) = Some st" "m \<le> unat (local (counts st))"
    "settled (Suc n) st"
    using assms by (auto simp: holds_def all_settled_def)
  obtain c st1 where s: "increase_local pf st = (Inr c, st1)" "settled n st1"
    "unat (local (counts st1)) = unat (local (counts st)) + 1"
    using settled_inc [OF st(3)] by blast
  let ?d1 = "d\<lparr>object_refcounts := (object_refcounts d)(bo_id ob \<mapsto> st1)\<rparr>"
  have "object_to_object_or_ref pf ob d = (Inr (Object \<lparr>bbo_id = bo_id ob,
      bbo_handler = bo_handler ob, increased_local_ref = True\<rparr>), ?d1)"
    using st(1) s(1) by (simp add: object_to_object_or_ref_def with_refstate_def bind_def)
  moreover have "holds ?d1 (bo_id ob) (Suc m) n"
    using assms s(2,3) st(2) settled_less by (auto simp: holds_def all_settled_def)
  ultimately show ?thesis by (auto simp: only_counts_def)
qed

lemma give_back:
  assumes "holds d i (Suc m) n"
  shows "\<exists>d1. object_or_ref_drop pf (Object \<lparr>bbo_id = i, bbo_handler = h, increased_local_ref = True\<rparr>) d =
      (Inr (), d1) \<and> holds d1 i m n \<and> only_counts d d1"
proof -
  obtain st where st: "object_refcounts d i = Some st" "Suc m \<le> unat (local (counts st))" "settled n st"
    using assms by (auto simp: holds_def all_settled_def)
  obtain c st1 where s: "decrease_local pf st = (Inr c, st1)" "settled n st1"
    "unat (local (counts st1)) = unat (local (counts st)) - 1"
    using settled_dec [OF st(3)] st(2) by fastforce
  let ?d1 = "d\<lparr>object_refcounts := (object_refcounts d)(i \<mapsto> st1)\<rparr>"
  have "object_or_ref_drop pf (Object \<lparr>bbo_id = i, bbo_handler = h, increased_local_ref = True\<rparr>) d =
      (Inr (), ?d1)"
    using st(1) s(1) by (simp add: object_or_ref_drop_def borrowed_drop_def with_refstate_def bind_def)
  moreover have "holds ?d1 i m n"
    using assms s(2,3) st(2) by (auto simp: holds_def all_settled_def)
  ultimately show ?thesis by (auto simp: only_counts_def)
qed

lemma give_all_back:
  assumes "holds d i (m + k) n"
  shows "\<exists>d1. drop_objects pf (replicate k
      (Object \<lparr>bbo_id = i, bbo_handler = h, increased_local_ref = True\<rparr>)) d = (Inr (), d1) \<and>
    holds d1 i m n \<and> only_counts d d1"
  using assms
proof (induction k arbitrary: d)
  case (Suc k)
  then obtain d1 where d1: "object_or_ref_drop pf
      (Object \<lparr>bbo_id = i, bbo_handler = h, increased_local_ref = True\<rparr>) d = (Inr (), d1)"
    "holds d1 i (m + k) n" "only_counts d d1"
    using give_back [of d i "m + k" n pf h] by auto
  from Suc.IH [OF d1(2)] d1 only_counts_trans show ?case by (fastforce simp: bind_def)
qed auto

lemma guards_hold:
  assumes "holds d i m (n + k)" and "length ids \<le> k"
  shows "holds (with_guards ids d) i m n"
proof -
  have "settled n (guarded (count_list ids j) st) \<and>
      local (counts (guarded (count_list ids j) st)) = local (counts st)"
    if "object_refcounts d j = Some st" for j st
  proof (rule settled_guarded)
    have "settled (n + k) st" using assms(1) that by (auto simp: holds_def all_settled_def)
    moreover have "count_list ids j \<le> k" using count_le_length [of ids j] assms(2) by simp
    ultimately show "settled (n + count_list ids j) st" by (auto intro: settled_le)
  qed
  with assms(1) show ?thesis
    by (fastforce simp: holds_def all_settled_def with_guards_def)
qed

section \<open>The message can be built\<close>

lemma push_refs:
  assumes "holds d (bo_id ob) m (n + k)"
  shows "\<exists>b1 d1. pushes pf (replicate k (Push_Binder junk (Send_Object ob)) @ ps) b d = pushes pf ps b1 d1 \<and>
    holds d1 (bo_id ob) (m + k) n \<and> only_counts d d1 \<and> owned_fds b1 = owned_fds b \<and>
    binder_objects b1 = binder_objects b @ replicate k (Object \<lparr>bbo_id = bo_id ob,
      bbo_handler = bo_handler ob, increased_local_ref = True\<rparr>)"
  using assms
proof (induction k arbitrary: m d b)
  case (Suc k)
  let ?x = "Object \<lparr>bbo_id = bo_id ob, bbo_handler = bo_handler ob, increased_local_ref = True\<rparr>"
  obtain d1 where d1: "object_to_object_or_ref pf ob d = (Inr ?x, d1)"
    "holds d1 (bo_id ob) (Suc m) (n + k)" "only_counts d d1"
    using lend [of d ob m "n + k" pf] Suc.prems by auto
  obtain b1 where b1: "push_step pf (Push_Binder junk (Send_Object ob)) b d = (Inr (Some b1), d1)"
    "owned_fds b1 = owned_fds b" "binder_objects b1 = binder_objects b @ [?x]"
    using d1(1) by (simp add: push_binder_ref_def to_binder_object_or_ref_def bind_def align_eq
        append_object_def)
  from Suc.IH [OF d1(2), of b1] b1 d1(3) only_counts_trans show ?case
    by (fastforce simp: bind_def replicate_append_same)
next
  case 0
  then show ?case by (intro exI [of _ b] exI [of _ d]) simp
qed

lemma push_fds:
  "\<exists>b1. pushes pf (replicate k (Push_Fd junk fd ck)) b d = (Inr (Some b1), d) \<and>
     owned_fds b1 = owned_fds b \<and> binder_objects b1 = binder_objects b"
proof (induction k arbitrary: b)
  case (Suc k)
  obtain b1 where b1: "push_fd junk fd ck b = Some b1" "owned_fds b1 = owned_fds b"
    "binder_objects b1 = binder_objects b"
    by (simp add: push_fd_def align_eq append_object_def)
  with Suc [of b1] show ?case by (simp add: bind_def)
qed simp

lemma message_built:
  fixes ob :: "'h binder_object"
  assumes "holds d (bo_id ob) m (n + nrefs)"
  shows "\<exists>b d1. message pf junk ob fd content nrefs nfds d = (Inr (Some b), d1) \<and>
    holds d1 (bo_id ob) (m + nrefs) n \<and> only_counts d d1 \<and> owned_fds b = [] \<and>
    binder_objects b = replicate nrefs (Object \<lparr>bbo_id = bo_id ob, bbo_handler = bo_handler ob,
      increased_local_ref = True\<rparr>)"
proof -
  let ?b = "push_bytes content (push_bytes (u32_bytes (word_of_nat nfds))
    (push_bytes (u32_bytes (word_of_nat nrefs)) new_builder)) :: 'h payload_builder"
  have head: "message pf junk ob fd content nrefs nfds d =
      pushes pf (replicate nrefs (Push_Binder junk (Send_Object ob)) @
        replicate nfds (Push_Fd junk fd 0)) ?b d"
    by (simp add: message_def message_pushes_def bind_def)
  obtain b1 d1 where b1: "pushes pf (replicate nrefs (Push_Binder junk (Send_Object ob)) @
      replicate nfds (Push_Fd junk fd 0)) ?b d = pushes pf (replicate nfds (Push_Fd junk fd 0)) b1 d1"
    "holds d1 (bo_id ob) (m + nrefs) n" "only_counts d d1" "owned_fds b1 = owned_fds ?b"
    "binder_objects b1 = binder_objects ?b @ replicate nrefs (Object \<lparr>bbo_id = bo_id ob,
      bbo_handler = bo_handler ob, increased_local_ref = True\<rparr>)"
    using push_refs [OF assms, of pf junk "replicate nfds (Push_Fd junk fd 0)" ?b]
    by (elim exE conjE) (rule that)
  have "message pf junk ob fd content nrefs nfds d = pushes pf (replicate nfds (Push_Fd junk fd 0)) b1 d1"
    unfolding head by (rule b1(1))
  note b1 = b1(2-5) this
  with b1 push_fds [of pf nfds junk fd 0 b1 d1] show ?thesis
    by (fastforce simp: push_bytes_def new_builder_def)
qed

section \<open>The call is answered\<close>

lemma length_embedded: "length (embedded_ids b) \<le> length (obj_offsets b)"
proof -
  have "length (concat (map f xs)) \<le> length xs" if "\<And>x. length (f x) \<le> 1"
    for f :: "nat \<Rightarrow> binder_object_id list" and xs
  proof (induction xs)
    case (Cons x xs)
    with that [of x] show ?case by simp
  qed simp
  then show ?thesis unfolding embedded_ids_def by (simp add: Let_def)
qed

lemma length_lay_offsets: "length (lay_offsets k its) = length (filter is_object its)"
  by (induction k its rule: lay_offsets.induct) simp_all

lemma length_lay_bytes:
  "length (lay_bytes k its) \<le> sum_list (map (\<lambda>it. case it of It_Bytes bs \<Rightarrow> length bs | _ \<Rightarrow> 32) its)"
proof (induction k its rule: lay_bytes.induct)
  case (3 k junk fd ck its)
  then show ?case using padding_less [of 8 k] by simp
next
  case (4 k junk x its)
  then show ?case using padding_less [of 8 k] by simp
qed simp_all

lemma message_size:
  fixes ob :: "'h binder_object"
  assumes "message pf junk ob fd content nrefs nfds d0 = (Inr (Some b), d1)"
  shows "length (obj_offsets b) = nrefs + nfds"
    and "data_buffer_len b \<le> 8 + length content + 32 * (nrefs + nfds)"
proof -
  let ?fs = "replicate nfds (It_Fd junk fd 0) :: 'h item list"
  let ?its = "[It_Bytes (u32_bytes (word_of_nat nrefs)), It_Bytes (u32_bytes (word_of_nat nfds)),
      It_Bytes content] :: 'h item list"
  obtain os where b: "pb_data b = lay_bytes 0 (?its @ os @ ?fs)" "obj_offsets b = lay_offsets 0 (?its @ os @ ?fs)"
    and os: "length (os :: 'h item list) = nrefs" "list_all (local_item (bo_id ob)) os"
    by (rule message_items [OF assms])
  have "filter is_object os = os" using os(2) by (auto simp: list_all_iff filter_id_conv dest: local_item_is_object)
  then show "length (obj_offsets b) = nrefs + nfds"
    unfolding b(2) length_lay_offsets using os(1) by simp
  have "sum_list (map (\<lambda>it. case it of It_Bytes bs \<Rightarrow> length bs | _ \<Rightarrow> 32) os) = 32 * length os"
    using os(2) by (induction os) (auto simp: local_item_def)
  moreover have "sum_list (map (\<lambda>it. case it of It_Bytes bs \<Rightarrow> length bs | _ \<Rightarrow> 32) ?fs) = 32 * nfds"
    by (induction nfds) simp_all
  ultimately show "data_buffer_len b \<le> 8 + length content + 32 * (nrefs + nfds)"
    using length_lay_bytes [of 0 "?its @ os @ ?fs"] os(1) unfolding data_buffer_len_def b(1) by simp
qed

text \<open>
  A message with room for its references can be built, its objects marked, and its references given
  back after the commands \<open>cs\<close> have been sent.
\<close>

lemma message_prepared:
  fixes ob :: "'h binder_object"
  assumes "holds d (bo_id ob) m (n + (nrefs + nfds) + nrefs)"
    and "8 + length content + 32 * (nrefs + nfds) < 2 ^ 64"
  obtains b d1 where "message pf junk ob fd content nrefs nfds d = (Inr (Some b), d1)"
    and "mark_objects_as_pending_remote pf b d1 = (Inr (), with_guards (embedded_ids b) d1)"
    and "owned_fds b = []" and "only_counts d d1"
    and "\<And>cs. \<exists>d2. drop_objects pf (binder_objects b) ((with_guards (embedded_ids b) d1)
        \<lparr>sent := sent (with_guards (embedded_ids b) d1) @ cs\<rparr>) = (Inr (), d2) \<and>
      holds d2 (bo_id ob) m n \<and> only_counts (d\<lparr>sent := sent d @ cs\<rparr>) d2"
proof -
  let ?x = "Object \<lparr>bbo_id = bo_id ob, bbo_handler = bo_handler ob, increased_local_ref = True\<rparr>"
  obtain b d1 where b: "message pf junk ob fd content nrefs nfds d = (Inr (Some b), d1)"
    and d1: "holds d1 (bo_id ob) (m + nrefs) (n + (nrefs + nfds))" "only_counts d d1"
    and rest: "owned_fds b = []" "binder_objects b = replicate nrefs ?x"
    using message_built [OF assms(1)] by blast
  note size = message_size [OF b]
  have ids: "length (embedded_ids b) \<le> nrefs + nfds" using length_embedded [of b] size(1) by simp
  have len: "data_buffer_len b < 2 ^ 64" using size(2) assms(2) by simp
  have "length (embedded_ids b) \<le> n + (nrefs + nfds)" using ids by simp
  then have "all_settled (length (embedded_ids b)) d1"
    using d1(1) settled_le unfolding holds_def all_settled_def by blast
  note mark = marking_eq(1) [OF b [unfolded message_def] len this, of pf]
  let ?d2 = "with_guards (embedded_ids b) d1"
  have d2: "holds ?d2 (bo_id ob) (m + nrefs) n" "only_counts d ?d2"
    using guards_hold [OF d1(1) ids] only_counts_trans [OF d1(2) only_counts_with_guards] by simp_all
  have "\<exists>d3. drop_objects pf (binder_objects b) (?d2\<lparr>sent := sent ?d2 @ cs\<rparr>) = (Inr (), d3) \<and>
      holds d3 (bo_id ob) m n \<and> only_counts (d\<lparr>sent := sent d @ cs\<rparr>) d3" for cs
  proof -
    have "holds (?d2\<lparr>sent := sent ?d2 @ cs\<rparr>) (bo_id ob) (m + nrefs) n"
      using d2(1) by (simp only: holds_sent)
    from give_all_back [OF this, of pf "bo_handler ob"] show ?thesis
      using rest(2) only_counts_trans [OF only_counts_sent [OF d2(2)]] by metis
  qed
  with that [OF b mark rest(1) d1(2)] show ?thesis by blast
qed

lemma remote_manager:
  "only_counts d e \<Longrightarrow> ctx_manager d = 0 \<Longrightarrow>
     get_transaction_target_handle e (Target_Context_Manager :: 'h transaction_target) = Remote 0"
  by (auto simp: get_transaction_target_handle_def context_manager_handle_def only_counts_def)

text \<open>A call whose reply comes after any number of idle returns: the client has written one call, its
  guards stay for the kernel's acquires, and the local references of the message are given back.\<close>

theorem round_trip_answered:
  fixes E :: "'h env"
  assumes "ioctl_opcode (ioc E)" and "ctx_manager (world.dev w) = 0" and "reply_after E w k t"
    and "holds (world.dev w) (bo_id (reply_obj c)) m (n + (nrefs + nfds) + nrefs)"
    and "8 + length content + 32 * (nrefs + nfds) < 2 ^ 64"
  shows "\<exists>w1 b d. round_trip E c content nrefs nfds w = Some (Inr (Inr (kernel_payload E t)), w1) \<and>
    message (prof E) (union_junk E) (reply_obj c) (devnull c) content nrefs nfds (world.dev w) =
      (Inr (Some b), d) \<and>
    holds (world.dev w1) (bo_id (reply_obj c)) m n \<and> closed_fds w1 = closed_fds w \<and>
    only_counts ((world.dev w)\<lparr>sent := sent (world.dev w) @ call_data (outgoing E
      (union_write32 (union_junk E) 0) ECHO_CODE ACCEPT_FDS 0 0 b)\<rparr>) (world.dev w1)"
proof -
  let ?i = "bo_id (reply_obj c)" and ?d = "world.dev w"
  obtain b d1 where b: "message (prof E) (union_junk E) (reply_obj c) (devnull c) content nrefs nfds ?d =
      (Inr (Some b), d1)"
    and mark: "mark_objects_as_pending_remote (prof E) b d1 = (Inr (), with_guards (embedded_ids b) d1)"
    and rest: "owned_fds b = []" "only_counts ?d d1"
    and give: "\<And>cs. \<exists>d2. drop_objects (prof E) (binder_objects b) ((with_guards (embedded_ids b) d1)
        \<lparr>sent := sent (with_guards (embedded_ids b) d1) @ cs\<rparr>) = (Inr (), d2) \<and>
      holds d2 ?i m n \<and> only_counts (?d\<lparr>sent := sent ?d @ cs\<rparr>) d2"
    by (rule message_prepared [OF assms(4,5)]) blast
  let ?d2 = "with_guards (embedded_ids b) d1"
  let ?t = "outgoing E (union_write32 (union_junk E) 0) ECHO_CODE ACCEPT_FDS 0 0 b"
  let ?w2 = "w\<lparr>dev := ?d2\<rparr>" and ?d3 = "?d2\<lparr>sent := sent ?d2 @ call_data ?t\<rparr>"
  have "reply_after E ?w2 k t" using assms(3) by (simp add: reply_after_def)
  from call_gets_reply [OF assms(1) this, of "Some (call_data ?t)" b] obtain j where
    j: "blocking_loop E (Some (call_data ?t)) b ?w2 = Some (Inr (Inr (code t, kernel_payload E t)),
      ?w2\<lparr>calls := j, dev := ?d3\<rparr>)"
    by auto
  obtain d4 where d4: "drop_objects (prof E) (binder_objects b) ?d3 = (Inr (), d4)" "holds d4 ?i m n"
    "only_counts (?d\<lparr>sent := sent ?d @ call_data ?t\<rparr>) d4"
    using give by blast
  have drop: "drop_builder E b (?w2\<lparr>calls := j, dev := ?d3\<rparr>) = Some (Inr (), w\<lparr>calls := j, dev := d4\<rparr>)"
    using d4(1) rest(1) by (simp add: drop_builder_def Driver.on_dev_def pbind_def)
  have built: "client_message E c content nrefs nfds w = Some (Inr b, w\<lparr>dev := d1\<rparr>)"
    using b by (simp add: client_message_def Driver.on_dev_def pbind_def)
  have "round_trip E c content nrefs nfds w = Some (Inr (Inr (kernel_payload E t)), w\<lparr>calls := j, dev := d4\<rparr>)"
    using built remote_manager [OF rest(2) assms(2)] mark j drop
    by (simp add: round_trip_def transact_blocking_def remote_transact_blocking_def Let_def
        Driver.on_dev_def pbind_def)
  then show ?thesis using b d4(2,3) by fastforce
qed

section \<open>The self check\<close>

lemma holds_lendable: "holds d i m (Suc n) \<Longrightarrow> lendable d i"
  using settled_le [of "Suc n" _ 1] by (fastforce simp: holds_def lendable_def all_settled_def)

lemma holds_freed: "holds (world.dev (freed r w)) i m n = holds (world.dev w) i m n"
  by (simp add: freed_def holds_sent split: payload_reader_buffer.split)


lemma lay_offsets_le: "off \<in> set (lay_offsets k its) \<Longrightarrow> off \<le> k + length (lay_bytes k its)"
  by (induction k its rule: lay_bytes.induct) force+

text \<open>A kernel whose buffers hold a given builder.\<close>

definition shows_env :: "'h env \<Rightarrow> 'h payload_builder \<Rightarrow> 'h env" where
  "shows_env E b = E\<lparr>kernel_memory := (\<lambda>p n. pb_data b), kernel_offsets := (\<lambda>p n. map word_of_nat (obj_offsets b))\<rparr>"

lemma message_shown:
  fixes ob :: "'h binder_object"
  assumes "message pf junk ob fd content nrefs nfds d0 = (Inr (Some b), d1)" and "data_offsets t \<noteq> 0"
    and "data_buffer_len b < 2 ^ 64"
  shows "shows_builder b (kernel_payload (shows_env E b) t)"
proof -
  obtain os :: "'h item list" where lay: "pb_data b = lay_bytes 0 ([It_Bytes (u32_bytes (word_of_nat nrefs)),
      It_Bytes (u32_bytes (word_of_nat nfds)), It_Bytes content] @ os @ replicate nfds (It_Fd junk fd 0))"
    "obj_offsets b = lay_offsets 0 ([It_Bytes (u32_bytes (word_of_nat nrefs)),
      It_Bytes (u32_bytes (word_of_nat nfds)), It_Bytes content] @ os @ replicate nfds (It_Fd junk fd 0))"
    by (rule message_items [OF assms(1)])
  have "off \<le> length (pb_data b)" if "off \<in> set (obj_offsets b)" for off
    using lay_offsets_le [OF that [unfolded lay(2)]] unfolding lay(1) by simp
  then have "off < 2 ^ 64" if "off \<in> set (obj_offsets b)" for off
    using that assms(3) unfolding data_buffer_len_def by (meson le_less_trans)
  then have "unat (word_of_nat off :: 64 word) = off" if "off \<in> set (obj_offsets b)" for off
    using that by (simp add: unat_of_nat)
  then have "map (unat \<circ> (word_of_nat :: nat \<Rightarrow> 64 word)) (obj_offsets b) = obj_offsets b"
    by (simp add: map_idI)
  with assms(2) show ?thesis
    by (simp add: shows_builder_def kernel_payload_def from_kernel_raw_def shows_env_def)
qed


end
