(* ===== verification/Bench_Flow.thy ===== *)
theory Bench_Flow
  imports Bench_Check
begin

text \<open>
  What the loops of the benchmark count: one-way sends against a service whose buffer is full,
  the size of a run of blocking calls, the samples of a phase whose calls fail, and what a probe
  of the payload ceiling reports.
\<close>

section \<open>A full buffer\<close>

text \<open>
  The next \<open>m\<close> answers refuse a one-way transaction for want of space in the buffer of the target,
  the one after them accepts it.
\<close>

definition refused_then_taken :: "'h env \<Rightarrow> 'h world \<Rightarrow> nat \<Rightarrow> bool" where
  "refused_then_taken E w m \<longleftrightarrow>
     (\<forall>k < m. \<exists>rs rest. set rs \<subseteq> set idle \<and> extended_error E (ext_calls w + k) = Some minus_NOSPC \<and>
        answers w (calls w + k) = Some (Ioctl_Read True
          (returned (ioc E) rs @ u32_bytes (return_code (ioc E) BR_FAILED_REPLY) @ rest))) \<and>
     (\<exists>rs. set rs \<subseteq> set idle \<and> answers w (calls w + m) = Some (Ioctl_Read True (returned (ioc E) rs)))"

lemma write_read_refused:
  assumes "ioctl_opcode (ioc E)" and "set rs \<subseteq> set idle"
    and "extended_error E (ext_calls w) = Some minus_NOSPC"
    and "answers w (calls w) = Some (Ioctl_Read True
      (returned (ioc E) rs @ u32_bytes (return_code (ioc E) BR_FAILED_REPLY) @ rest))"
  shows "binder_write_read E data w =
    Some (Inr (Some (Inl WR_AsyncBufferFull)), (asked data w)\<lparr>ext_calls := ext_calls w + 1\<rparr>)"
proof -
  let ?buf = "returned (ioc E) rs @ u32_bytes (return_code (ioc E) BR_FAILED_REPLY) @ rest"
  let ?w = "asked data w"
  have ext: "ext_calls ?w = ext_calls w" by (simp add: asked_def)
  have "dispatch E (4 * length rs + 4) rest (Some BR_FAILED_REPLY) ?w =
      Some (Inr (Return (Inl WR_AsyncBufferFull)), ?w\<lparr>ext_calls := ext_calls w + 1\<rparr>)"
    using assms(3) ext by (simp add: failed_reply_def pbind_def)
  then have "parse E ?buf (4 * length rs) ?w = Some (Inr (Some (Inl WR_AsyncBufferFull)), ?w\<lparr>ext_calls := ext_calls w + 1\<rparr>)"
    by (intro parse_return [OF assms(1), of _ _ BR_FAILED_REPLY rest]) simp_all
  moreover have "parse E ?buf 0 ?w = parse E ?buf (4 * length rs) ?w"
    using parse_idle [OF assms(1,2), of 0 ?buf _ ?w] by simp
  ultimately show ?thesis
    using call_kernel_read [OF assms(4)] by (simp add: binder_write_read_def)
qed

lemma one_way_gets_through:
  assumes "ioctl_opcode (ioc E)" and "refused_then_taken E w m"
  shows "\<exists>j k. one_way_loop E cs b w = Some (Inr (Inr ()), w\<lparr>calls := j, ext_calls := k,
    dev := (world.dev w)\<lparr>sent := sent (world.dev w) @ concat (replicate (Suc m) cs)\<rparr>\<rparr>)"
  using assms(2)
proof (induction m arbitrary: w)
  case 0
  then obtain rs where "set rs \<subseteq> set idle" "answers w (calls w) = Some (Ioctl_Read True (returned (ioc E) rs))"
    by (auto simp: refused_then_taken_def)
  from write_read_idle [OF assms(1) this, of "Some cs"] show ?case
    by (intro exI [of _ "Suc (calls w)"] exI [of _ "ext_calls w"], subst one_way_loop.simps)
      (simp add: asked_def)
next
  case (Suc m)
  then obtain rs rest where r: "set rs \<subseteq> set idle" "extended_error E (ext_calls w) = Some minus_NOSPC"
    "answers w (calls w) = Some (Ioctl_Read True
      (returned (ioc E) rs @ u32_bytes (return_code (ioc E) BR_FAILED_REPLY) @ rest))"
    unfolding refused_then_taken_def by (metis add.right_neutral zero_less_Suc)
  let ?w = "(asked (Some cs) w)\<lparr>ext_calls := ext_calls w + 1\<rparr>"
  have step: "one_way_loop E cs b w = one_way_loop E cs b ?w"
    using write_read_refused [OF assms(1) r, of "Some cs"] by (subst one_way_loop.simps) simp
  have "refused_then_taken E ?w m"
    unfolding refused_then_taken_def
  proof (intro conjI allI impI)
    fix k assume "k < m"
    then have "Suc k < Suc m" by simp
    with Suc.prems obtain rs rest where "set rs \<subseteq> set idle" "extended_error E (ext_calls w + Suc k) = Some minus_NOSPC"
      "answers w (calls w + Suc k) = Some (Ioctl_Read True
        (returned (ioc E) rs @ u32_bytes (return_code (ioc E) BR_FAILED_REPLY) @ rest))"
      unfolding refused_then_taken_def by blast
    then show "\<exists>rs rest. set rs \<subseteq> set idle \<and> extended_error E (ext_calls ?w + k) = Some minus_NOSPC \<and>
        answers ?w (calls ?w + k) = Some (Ioctl_Read True
          (returned (ioc E) rs @ u32_bytes (return_code (ioc E) BR_FAILED_REPLY) @ rest))"
      by (auto simp: asked_def)
  next
    show "\<exists>rs. set rs \<subseteq> set idle \<and> answers ?w (calls ?w + m) = Some (Ioctl_Read True (returned (ioc E) rs))"
      using Suc.prems by (auto simp: refused_then_taken_def asked_def)
  qed
  from Suc.IH [OF this] step show ?case by (auto simp: asked_def)
qed

text \<open>C32: Backpressure is invisible: however often the kernel refuses a one-way transaction because
  the service's buffer is full, the call neither fails nor returns before it has got through, and it
  writes the whole transaction again each time; so the benchmark counts a send and never the
  rejections it wants to report.\<close>

theorem backpressure_is_hidden:
  fixes E :: "'h env"
  assumes "ioctl_opcode (ioc E)" and "ctx_manager (world.dev w) = 0" and "refused_then_taken E w m"
    and "holds (world.dev w) (bo_id (reply_obj c)) k (n + nrefs + nrefs)"
    and "8 + length content + 32 * nrefs < 2 ^ 64" and "(Suc sent_n + rejected) mod 64 \<noteq> 0"
  shows "\<exists>w1 b. client_one_way E c content nrefs w = Some (Inr (Inr ()), w1) \<and>
    sent (world.dev w1) = sent (world.dev w) @ concat (replicate (Suc m) (call_data (outgoing E
      (union_write32 (union_junk E) 0) ECHO_CODE (ACCEPT_FDS OR ONE_WAY) 0 0 b))) \<and>
    one_way_pump E c T content nrefs sent_n rejected watch w =
      one_way_pump E c T content nrefs (Suc sent_n) rejected watch w1"
proof -
  let ?d = "world.dev w"
  have room: "holds ?d (bo_id (reply_obj c)) k (n + (nrefs + 0) + nrefs)"
    "8 + length content + 32 * (nrefs + 0) < 2 ^ 64" using assms(4,5) by simp_all
  obtain b d1 where b: "message (prof E) (union_junk E) (reply_obj c) (devnull c) content nrefs 0 ?d =
      (Inr (Some b), d1)"
    and mark: "mark_objects_as_pending_remote (prof E) b d1 = (Inr (), with_guards (embedded_ids b) d1)"
    and rest: "owned_fds b = []" "only_counts ?d d1"
    and give: "\<And>cs. \<exists>d2. drop_objects (prof E) (binder_objects b) ((with_guards (embedded_ids b) d1)
        \<lparr>sent := sent (with_guards (embedded_ids b) d1) @ cs\<rparr>) = (Inr (), d2) \<and>
      holds d2 (bo_id (reply_obj c)) k n \<and> only_counts (?d\<lparr>sent := sent ?d @ cs\<rparr>) d2"
    by (rule message_prepared [OF room]) blast
  let ?d2 = "with_guards (embedded_ids b) d1"
  let ?cs = "call_data (outgoing E (union_write32 (union_junk E) 0) ECHO_CODE (ACCEPT_FDS OR ONE_WAY) 0 0 b)"
  let ?all = "concat (replicate (Suc m) ?cs)"
  let ?w2 = "w\<lparr>dev := ?d2\<rparr>" and ?d3 = "?d2\<lparr>sent := sent ?d2 @ ?all\<rparr>"
  have "refused_then_taken E ?w2 m" using assms(3) by (simp add: refused_then_taken_def)
  from one_way_gets_through [OF assms(1) this, of ?cs b] obtain i j where
    loop: "one_way_loop E ?cs b ?w2 = Some (Inr (Inr ()), ?w2\<lparr>calls := i, ext_calls := j, dev := ?d3\<rparr>)"
    by auto
  obtain d4 where d4: "drop_objects (prof E) (binder_objects b) ?d3 = (Inr (), d4)"
    "only_counts (?d\<lparr>sent := sent ?d @ ?all\<rparr>) d4"
    using give by blast
  let ?w1 = "w\<lparr>calls := i, ext_calls := j, dev := d4\<rparr>"
  have drop: "drop_builder E b (?w2\<lparr>calls := i, ext_calls := j, dev := ?d3\<rparr>) = Some (Inr (), ?w1)"
    using d4(1) rest(1) by (simp add: drop_builder_def Driver.on_dev_def pbind_def)
  have built: "client_message E c content nrefs 0 w = Some (Inr b, w\<lparr>dev := d1\<rparr>)"
    using b by (simp add: client_message_def Driver.on_dev_def pbind_def)
  have one: "client_one_way E c content nrefs w = Some (Inr (Inr ()), ?w1)"
    using built remote_manager [OF rest(2) assms(2)] mark loop drop
    by (simp add: client_one_way_def transact_one_way_def remote_transact_one_way_def Let_def
        Driver.on_dev_def pbind_def)
  moreover have "sent (world.dev ?w1) = sent ?d @ ?all"
    using d4(2) by (auto simp: only_counts_def)
  moreover have "one_way_pump E c T content nrefs sent_n rejected watch w =
      one_way_pump E c T content nrefs (Suc sent_n) rejected watch ?w1"
    using one assms(6) by (subst one_way_pump.simps) (simp add: Let_def)
  ultimately show ?thesis by blast
qed

definition full_world :: "unit world" where
  "full_world = demo_world
     [Ioctl_Read True (returned linux_ioc [BR_NOOP] @ u32_bytes (return_code linux_ioc BR_FAILED_REPLY)),
      Ioctl_Read True (returned linux_ioc [BR_NOOP, BR_TRANSACTION_COMPLETE])]"

theorem backpressure_is_hidden_witness:
  "\<forall>T watch. \<exists>c w1. client_one_way busy_env c [65] 1 full_world = Some (Inr (Inr ()), w1) \<and>
     one_way_pump busy_env c T [65] 1 0 0 watch full_world = one_way_pump busy_env c T [65] 1 1 0 watch w1"
proof (intro allI)
  fix T watch
  let ?ob = "\<lparr>bo_id = Driver.demo_id, bo_handler = ()\<rparr>"
  let ?c = "\<lparr>reply_obj = ?ob, devnull = 3\<rparr>"
  have w: "world.dev full_world = demo_device" "calls full_world = 0" "ext_calls full_world = 0"
    "answers full_world 0 = Some (Ioctl_Read True (returned linux_ioc [BR_NOOP] @
       u32_bytes (return_code linux_ioc BR_FAILED_REPLY)))"
    "answers full_world 1 = Some (Ioctl_Read True (returned linux_ioc [BR_NOOP, BR_TRANSACTION_COMPLETE]))"
    by (simp_all add: full_world_def demo_world_def)
  have ioc: "ioc busy_env = linux_ioc" "extended_error busy_env n = Some minus_NOSPC" for n
    by (simp_all add: busy_env_def)
  have "holds demo_device (bo_id ?ob) 0 7"
    by (auto simp: holds_def all_settled_def demo_device_fields settled_def new_ref_state_def
        zero_counts_def split: if_splits)
  moreover have "ctx_manager demo_device = 0"
    by (simp add: demo_device_def register_object_def new_device_def Let_def)
  moreover have "refused_then_taken busy_env full_world 1"
    unfolding refused_then_taken_def w(2,3) ioc
  proof (intro conjI allI impI)
    fix k :: nat assume "k < 1"
    then show "\<exists>rs rest. set rs \<subseteq> set idle \<and> Some minus_NOSPC = Some minus_NOSPC \<and>
        answers full_world (0 + k) = Some (Ioctl_Read True
          (returned linux_ioc rs @ u32_bytes (return_code linux_ioc BR_FAILED_REPLY) @ rest))"
      using w(4) by (intro exI [of _ "[BR_NOOP]"] exI [of _ "[]"]) (simp add: idle_def)
  next
    show "\<exists>rs. set rs \<subseteq> set idle \<and> answers full_world (0 + 1) = Some (Ioctl_Read True (returned linux_ioc rs))"
      using w(5) by (intro exI [of _ "[BR_NOOP, BR_TRANSACTION_COMPLETE]"]) (simp add: idle_def)
  qed
  ultimately show "\<exists>c w1. client_one_way busy_env c [65] 1 full_world = Some (Inr (Inr ()), w1) \<and>
     one_way_pump busy_env c T [65] 1 0 0 watch full_world = one_way_pump busy_env c T [65] 1 1 0 watch w1"
    using backpressure_is_hidden [of busy_env full_world 1 ?c 0 5 1 "[65]" 0 0 T watch] w(1) ioc(1)
      linux.ioctl_opcode_axioms
    by (auto intro!: exI [of _ ?c])
qed

section \<open>Counting calls\<close>

text \<open>The one-way loop ends with the first multiple of 64 attempts at which the deadline has passed.\<close>

lemma multiple_up:
  assumes "(n :: nat) mod k \<noteq> 0"
  shows "n div k = (n - 1) div k"
  using assms by (cases n) (simp_all add: div_Suc mod_Suc split: if_splits)

theorem one_way_pump_stops:
  assumes "one_way_pump E c T content nrefs sent_n rejected watch w = Some (Inr (Some (s, r, watch1)), w1)"
  shows "sent_n \<le> s \<and> rejected \<le> r \<and> sent_n + rejected < s + r \<and> 64 dvd s + r \<and> passed T ((s + r) div 64) \<and>
    (\<forall>k. (sent_n + rejected) div 64 < k \<and> k < (s + r) div 64 \<longrightarrow> \<not> passed T k)"
proof -
  have "fst y = Inr (Some (s, r, watch1)) \<Longrightarrow> sent_n \<le> s \<and> rejected \<le> r \<and> sent_n + rejected < s + r \<and>
      64 dvd s + r \<and> passed T ((s + r) div 64) \<and>
      (\<forall>k. (sent_n + rejected) div 64 < k \<and> k < (s + r) div 64 \<longrightarrow> \<not> passed T k)"
    if "one_way_pump E c T content nrefs sent_n rejected watch w = Some y"
    for E c T content nrefs sent_n rejected watch y and w :: "'a world"
  proof (induction rule: one_way_pump.raw_induct [OF _ that])
    case (1 f E c T content nrefs sent_n rejected watch w y)
    obtain res w2 where res: "client_one_way E c content nrefs w = Some (Inr res, w2)"
      using 1(2,3) by (cases y) (auto elim!: pbind_Some_cases)
    define s1 where "s1 = (if isl res then sent_n else sent_n + 1)"
    define r1 where "r1 = (if isl res then rejected + 1 else rejected)"
    have le: "sent_n \<le> s1" "rejected \<le> r1" and sum: "s1 + r1 = Suc (sent_n + rejected)"
      by (auto simp: s1_def r1_def)
    have step: "(if (s1 + r1) mod 64 = 0 then
        (if passed T ((s1 + r1) div 64) then Some (Inr (Some (s1, r1, watch)), w2)
         else case sample_if_due T ((s1 + r1) div 64) watch of (watch2, stopped) \<Rightarrow>
           if stopped then Some (Inr None, w2) else f E c T content nrefs s1 r1 watch2 w2)
        else f E c T content nrefs s1 r1 watch w2) = Some y"
      using 1(2) unfolding pbind_simps(3) [of "client_one_way E c content nrefs", OF res] s1_def r1_def Let_def prog_simps .
    show ?case
    proof (cases "(s1 + r1) mod 64 = 0")
      case False
      with step have "f E c T content nrefs s1 r1 watch w2 = Some y" by simp
      from 1(1) [OF this 1(3)] show ?thesis
        using le sum multiple_up [OF False] by auto
    next
      case True
      show ?thesis
      proof (cases "passed T ((s1 + r1) div 64)")
        case True
        with step \<open>(s1 + r1) mod 64 = 0\<close> 1(3) have "s = s1" "r = r1" by auto
        moreover have "\<not> ((sent_n + rejected) div 64 < k \<and> k < (s1 + r1) div 64)" for k
          unfolding sum by (auto simp: div_Suc)
        ultimately show ?thesis
          using True le sum \<open>(s1 + r1) mod 64 = 0\<close> by (auto simp: mod_eq_0_iff_dvd)
      next
        case False
        obtain watch2 where "f E c T content nrefs s1 r1 watch2 w2 = Some y"
          using step True False 1(3) by (auto split: prod.splits if_splits)
        from 1(1) [OF this 1(3)] show ?thesis
          using le sum False by (auto simp: div_Suc split: if_splits)
            (metis Suc_lessI)
      qed
    qed
  qed
  with assms show ?thesis by fastforce
qed

text \<open>A thread of the blocking phase counts every call, and a failed one as such too: it ends with a
  multiple of 16 calls, no more of them failed than made.\<close>

theorem blocking_job_counts:
  assumes "blocking_job E c T samples content nrefs nfds n failed watch w = Some (Inr (Some (n1, f1, watch1)), w1)"
  shows "n < n1 \<and> 16 dvd n1 \<and> passed T (n1 div 16) \<and> failed \<le> f1 \<and> f1 - failed \<le> n1 - n"
proof -
  have "fst y = Inr (Some (n1, f1, watch1)) \<Longrightarrow>
      n < n1 \<and> 16 dvd n1 \<and> passed T (n1 div 16) \<and> failed \<le> f1 \<and> f1 - failed \<le> n1 - n"
    if "blocking_job E c T samples content nrefs nfds n failed watch w = Some y"
    for E c T samples content nrefs nfds n failed watch y and w :: "'a world"
  proof (induction rule: blocking_job.raw_induct [OF _ that])
    case (1 f E c T samples content nrefs nfds n failed watch w y)
    obtain res w2 where res: "round_trip E c content nrefs nfds w = Some (Inr res, w2)"
      using 1(2,3) by (cases y) (auto elim!: pbind_Some_cases)
    obtain u w3 where drop: "drop_result E res w2 = Some (Inr u, w3)"
      using 1(2,3) res by (cases y) (auto elim!: pbind_Some_cases)
    define f2 where "f2 = (if isl res then failed + 1 else failed)"
    have le: "failed \<le> f2" "f2 \<le> failed + 1" by (auto simp: f2_def)
    have step: "(if (n + 1) mod 16 = 0 then
        (if passed T ((n + 1) div 16) then Some (Inr (Some (n + 1, f2, watch)), w3)
         else case (if samples then sample_if_due T ((n + 1) div 16) watch else (watch, False)) of
           (watch2, stopped) \<Rightarrow> if stopped then Some (Inr None, w3)
             else f E c T samples content nrefs nfds (n + 1) f2 watch2 w3)
        else f E c T samples content nrefs nfds (n + 1) f2 watch w3) = Some y"
      using 1(2) unfolding pbind_simps(3) [of "round_trip E c content nrefs nfds", OF res]
        pbind_simps(3) [of "drop_result E res", OF drop] f2_def Let_def prog_simps .
    consider (stop) "(n + 1) mod 16 = 0" "passed T ((n + 1) div 16)" "y = (Inr (Some (n + 1, f2, watch)), w3)"
      | (more) watch2 where "f E c T samples content nrefs nfds (n + 1) f2 watch2 w3 = Some y"
      using step 1(3) by (auto split: if_splits prod.splits)
    then show ?case
    proof cases
      case stop
      with le 1(3) show ?thesis by (auto simp: mod_eq_0_iff_dvd)
    next
      case more
      from 1(1) [OF this 1(3)] le show ?thesis by auto
    qed
  qed
  with assms show ?thesis by fastforce
qed

text \<open>The samples of a latency phase are the elapsed times of its iterations, sorted; there is one for
  every iteration unless a call failed.\<close>

lemma latency_loop_samples:
  assumes "latency_loop E c T elapsed content nrefs nfds rounds samples watch w = Some (Inr (Some (s, watch1)), w1)"
    and "samples = map elapsed [0..<k]"
  shows "\<exists>j \<le> rounds. s = map elapsed [0..<k + j]"
  using assms
proof (induction rounds arbitrary: samples watch w k)
  case 0
  then show ?case by auto
next
  case (Suc rounds)
  obtain res w2 where res: "round_trip E c content nrefs nfds w = Some (Inr res, w2)"
    using Suc.prems(1) by (auto elim!: pbind_Some_cases)
  show ?case
  proof (cases res)
    case (Inl e)
    then show ?thesis using Suc.prems res by auto
  next
    case (Inr reply)
    obtain u w3 where drop: "drop_reader E reply w2 = Some (Inr u, w3)"
      using Suc.prems(1) res Inr by (auto elim!: pbind_Some_cases)
    obtain watch2 where "latency_loop E c T elapsed content nrefs nfds rounds (samples @ [elapsed k]) watch2 w3 =
        Some (Inr (Some (s, watch1)), w1)"
      using Suc.prems res Inr drop by (auto simp: Let_def split: prod.splits if_splits)
    from Suc.IH [OF this, of "Suc k"] Suc.prems(2) obtain j where "j \<le> rounds" "s = map elapsed [0..<Suc k + j]"
      by auto
    then show ?thesis by (intro exI [of _ "Suc j"]) simp
  qed
qed

theorem latency_samples:
  assumes "latency E c T elapsed len nrefs nfds rounds watch w = Some (Inr (Some (s, watch1)), w1)"
  shows "\<exists>j. 0 < j \<and> j \<le> rounds \<and> s = sort (map elapsed [0..<j])"
proof -
  obtain samples w2 where "latency_loop E c T elapsed (times_A len) nrefs nfds rounds [] (reset_peaks watch) w2 =
      Some (Inr (Some (samples, watch1)), w1)" "summarize samples = Inr s"
    using assms unfolding latency_def
    by (auto elim!: pbind_Some_cases split: option.splits prod.splits sum.splits)
  with latency_loop_samples [OF this(1), of 0] show ?thesis
    by (auto simp: summarize_def split: if_splits)
qed

text \<open>A phase whose first timed call fails, or one of no iterations, does not report that: it panics
  when it looks for the median of no samples.\<close>

theorem latency_without_samples_panics:
  assumes "warm_up E c (times_A len) nrefs nfds (min 1000 rounds) w = Some (Inr (), w1)"
    and "rounds = 0 \<and> w2 = w1 \<or>
      rounds \<noteq> 0 \<and> round_trip E c (times_A len) nrefs nfds w1 = Some (Inr (Inl e), w2)"
  shows "latency E c T elapsed len nrefs nfds rounds watch w = Some (Inl Slice_Out_Of_Range, w2)"
  using assms by (cases rounds) (auto simp: latency_def summarize_def)

end
