(* ===== verification/Pool_Sharing.thy ===== *)
theory Pool_Sharing
  imports Device_Files
begin

text \<open>
  The pool of \<open>src/src/test_pool.rs\<close> shared by test processes: each runs \<open>PoolNode::acquire\<close> in
  single steps, a probe or a wait at a time, holds its node and lets go of it, and any of them can
  die at any moment. The lock of a node is held by at most one process and is released by the
  kernel when its holder ends.
\<close>

section \<open>Processes and locks\<close>

datatype test_pc = Probing nat | Blocking nat | Holding nat | Gone | Panicked panic

text \<open>A process is its identifier, from which it starts to probe, and where it is.\<close>

record sharing =
  procs :: "(u32 \<times> test_pc) list"
  holder :: "nat \<Rightarrow> nat option"

definition pool_view :: "(nat \<Rightarrow> bool) \<Rightarrow> sharing \<Rightarrow> pool_env" where
  "pool_view exists s = \<lparr>mount_exists = True, node_exists = exists,
     try_lock = (\<lambda>i. if holder s i = None then Lock_Taken else Would_Block)\<rparr>"

definition at_pc :: "sharing \<Rightarrow> nat \<Rightarrow> test_pc" where "at_pc s p = snd (procs s ! p)"

definition goes :: "nat \<Rightarrow> test_pc \<Rightarrow> sharing \<Rightarrow> sharing" where
  "goes p pc s = s\<lparr>procs := (procs s)[p := (fst (procs s ! p), pc)]\<rparr>"

definition takes :: "nat \<Rightarrow> nat \<Rightarrow> sharing \<Rightarrow> sharing" where
  "takes p i s = (goes p (Holding i) s)\<lparr>holder := (holder s)(i \<mapsto> p)\<rparr>"

text \<open>Letting go, by dropping the guard or by ending: the kernel releases what the process holds.\<close>

definition lets_go :: "nat \<Rightarrow> sharing \<Rightarrow> sharing" where
  "lets_go p s = (goes p Gone s)\<lparr>holder := (\<lambda>i. if holder s i = Some p then None else holder s i)\<rparr>"

text \<open>One step of \<open>acquire\<close>: the next probe, or after the last one the choice of the node to wait
  for, or the end of that wait.\<close>

definition acquire_step :: "profile \<Rightarrow> (nat \<Rightarrow> bool) \<Rightarrow> nat \<Rightarrow> nat \<Rightarrow> sharing \<Rightarrow> sharing option" where
  "acquire_step prof exists sz p s = (let start = unat (fst (procs s ! p)); env = pool_view exists s in
     case at_pc s p of
       Probing offset \<Rightarrow>
         if offset < sz then
           (case bind_out (usize_add prof start offset) (\<lambda>n. bind_out (usize_rem n sz) (try_claim env)) of
              Inl e \<Rightarrow> Some (goes p (Panicked e) s)
            | Inr (Some i) \<Rightarrow> Some (takes p i s)
            | Inr None \<Rightarrow> Some (goes p (Probing (offset + 1)) s))
         else
           (case bind_out (usize_rem start sz) (block_claim env) of
              Inl e \<Rightarrow> Some (goes p (Panicked e) s)
            | Inr (Waiting_For i) \<Rightarrow> Some (goes p (Blocking i) s)
            | Inr (Claimed i) \<Rightarrow> Some (takes p i s))
     | Blocking i \<Rightarrow> if holder s i = None then Some (takes p i s) else None
     | _ \<Rightarrow> None)"

inductive pool_step :: "profile \<Rightarrow> (nat \<Rightarrow> bool) \<Rightarrow> nat \<Rightarrow> sharing \<Rightarrow> sharing \<Rightarrow> bool" for prof exists sz where
  acquires: "p < length (procs s) \<Longrightarrow> acquire_step prof exists sz p s = Some t \<Longrightarrow>
    pool_step prof exists sz s t"
| drops: "p < length (procs s) \<Longrightarrow> at_pc s p = Holding i \<Longrightarrow> pool_step prof exists sz s (lets_go p s)"

text \<open>A process can also be killed.\<close>

inductive pool_reachable :: "profile \<Rightarrow> (nat \<Rightarrow> bool) \<Rightarrow> nat \<Rightarrow> u32 list \<Rightarrow> sharing \<Rightarrow> bool"
  for prof exists sz pids where
  init: "pool_reachable prof exists sz pids
    \<lparr>procs = map (\<lambda>pid. (pid, Probing 0)) pids, holder = (\<lambda>i. None)\<rparr>"
| step: "pool_reachable prof exists sz pids s \<Longrightarrow> pool_step prof exists sz s t \<Longrightarrow>
    pool_reachable prof exists sz pids t"
| killed: "pool_reachable prof exists sz pids s \<Longrightarrow> p < length (procs s) \<Longrightarrow>
    pool_reachable prof exists sz pids (lets_go p s)"

inductive_cases pool_step_cases: "pool_step prof exists sz s t"

section \<open>Locks are held by whoever holds a node\<close>

definition pool_inv :: "(nat \<Rightarrow> bool) \<Rightarrow> nat \<Rightarrow> sharing \<Rightarrow> bool" where
  "pool_inv exists sz s \<longleftrightarrow>
     (\<forall>i p. holder s i = Some p \<longleftrightarrow> p < length (procs s) \<and> at_pc s p = Holding i) \<and>
     (\<forall>p < length (procs s). case at_pc s p of
        Probing offset \<Rightarrow> offset \<le> sz
      | Blocking i \<Rightarrow> i < sz \<and> exists i
      | Holding i \<Rightarrow> i < sz \<and> exists i
      | Gone \<Rightarrow> True
      | Panicked e \<Rightarrow> False)"

lemma goes_simps [simp]:
  "length (procs (goes p pc s)) = length (procs s)" "holder (goes p pc s) = holder s"
  "p < length (procs s) \<Longrightarrow> at_pc (goes p pc s) q = (if q = p then pc else at_pc s q)"
  by (auto simp: goes_def at_pc_def)

lemma takes_simps [simp]:
  "length (procs (takes p i s)) = length (procs s)" "holder (takes p i s) = (holder s)(i \<mapsto> p)"
  "p < length (procs s) \<Longrightarrow> at_pc (takes p i s) q = (if q = p then Holding i else at_pc s q)"
  by (auto simp: takes_def goes_def at_pc_def)

lemma lets_go_simps [simp]:
  "length (procs (lets_go p s)) = length (procs s)"
  "holder (lets_go p s) = (\<lambda>i. if holder s i = Some p then None else holder s i)"
  "p < length (procs s) \<Longrightarrow> at_pc (lets_go p s) q = (if q = p then Gone else at_pc s q)"
  by (auto simp: lets_go_def goes_def at_pc_def)

lemma pool_inv_goes:
  assumes "pool_inv exists sz s" and "p < length (procs s)" and "\<forall>i. at_pc s p \<noteq> Holding i"
    and "case pc of Probing offset \<Rightarrow> offset \<le> sz | Blocking i \<Rightarrow> i < sz \<and> exists i | Gone \<Rightarrow> True | _ \<Rightarrow> False"
  shows "pool_inv exists sz (goes p pc s)"
  using assms unfolding pool_inv_def by (auto split: test_pc.splits)

lemma pool_inv_takes:
  assumes "pool_inv exists sz s" and "p < length (procs s)" and "\<forall>i. at_pc s p \<noteq> Holding i"
    and "holder s i = None" and "i < sz" and "exists i"
  shows "pool_inv exists sz (takes p i s)"
proof -
  have none: "\<not> (q < length (procs s) \<and> at_pc s q = Holding i)" for q
    using assms(1,4) unfolding pool_inv_def by (metis option.distinct(1))
  then show ?thesis
    using assms unfolding pool_inv_def by auto
qed

lemma pool_inv_lets_go:
  assumes "pool_inv exists sz s" and "p < length (procs s)"
  shows "pool_inv exists sz (lets_go p s)"
proof -
  have "q = p" if "q < length (procs s)" "at_pc s q = Holding i" "at_pc s p = Holding i" for q i
    using assms that unfolding pool_inv_def by (metis option.inject)
  then show ?thesis
    using assms unfolding pool_inv_def by (auto split: test_pc.splits)
qed

text \<open>A probe of a pool whose nodes all exist does not panic: it takes a free node, or finds one that
  is held.\<close>

lemma try_claim_view:
  assumes "exists i"
  shows "try_claim (pool_view exists s) i = Inr (if holder s i = None then Some i else None)"
  using assms by (simp add: try_claim_def pool_view_def)

lemma acquire_step_cases:
  assumes "acquire_step prof exists sz p s = Some t" and "0 < sz" and "sz \<le> 2 ^ 32"
    and "\<forall>i < sz. exists i"
  obtains (moves) offset where "at_pc s p = Probing offset" "offset < sz" "t = goes p (Probing (offset + 1)) s"
    | (waits) i where "at_pc s p = Probing sz" "i < sz" "t = goes p (Blocking i) s"
    | (overran) offset where "at_pc s p = Probing offset" "sz < offset"
    | (gets) i where "\<forall>j. at_pc s p \<noteq> Holding j" "at_pc s p \<noteq> Blocking i \<longrightarrow> i < sz" "holder s i = None"
        "t = takes p i s"
proof (cases "at_pc s p")
  case (Probing offset)
  let ?start = "unat (fst (procs s ! p))"
  have start: "?start < 2 ^ 32" using unsigned_less [of "fst (procs s ! p)"] by simp
  show thesis
  proof (cases "offset < sz")
    case True
    let ?i = "(?start + offset) mod sz"
    have "?i < sz" using assms(2) by simp
    moreover have "usize_add prof ?start offset = Inr (?start + offset)"
      using start True assms(3) by (simp add: usize_add_def)
    ultimately have "t = (if holder s ?i = None then takes p ?i s else goes p (Probing (offset + 1)) s)"
      using assms(1,2,4) Probing True
      by (auto simp: acquire_step_def Let_def usize_rem_def try_claim_view bind_out_def)
    then show thesis
      using moves [OF Probing True] gets [of ?i] Probing \<open>?i < sz\<close> by (auto split: if_splits)
  next
    case False
    let ?i = "?start mod sz"
    have "?i < sz" using assms(2) by simp
    then have "t = goes p (Blocking ?i) s"
      using assms(1,2,4) Probing False
      by (auto simp: acquire_step_def Let_def usize_rem_def block_claim_def pool_view_def bind_out_def
          split: if_splits)
    then show thesis
      using waits [of ?i] overran [of offset] Probing \<open>?i < sz\<close> False by (cases "offset = sz") auto
  qed
next
  case (Blocking i)
  then show thesis
    using gets [of i] assms(1) by (auto simp: acquire_step_def Let_def split: if_splits)
qed (use assms(1) in \<open>auto simp: acquire_step_def Let_def\<close>)

lemma pool_inv_step:
  assumes "pool_step prof exists sz s t" and "pool_inv exists sz s" and "0 < sz" and "sz \<le> 2 ^ 32"
    and "\<forall>i < sz. exists i"
  shows "pool_inv exists sz t"
  using assms(1)
proof cases
  case (acquires p)
  have pc: "case at_pc s p of Probing offset \<Rightarrow> offset \<le> sz | Blocking i \<Rightarrow> i < sz \<and> exists i | _ \<Rightarrow> True"
    using assms(2) acquires(1) unfolding pool_inv_def by (auto split: test_pc.splits)
  from acquires(2) assms(3-5) show ?thesis
  proof (cases rule: acquire_step_cases)
    case (moves offset)
    then show ?thesis using pool_inv_goes [OF assms(2) acquires(1)] by simp
  next
    case (waits i)
    then show ?thesis using pool_inv_goes [OF assms(2) acquires(1)] assms(5) by simp
  next
    case (overran offset)
    with pc show ?thesis by simp
  next
    case (gets i)
    then have "i < sz" "exists i" using pc assms(5) by auto
    with gets show ?thesis using pool_inv_takes [OF assms(2) acquires(1)] by simp
  qed
next
  case (drops p i)
  with assms(2) show ?thesis by (simp add: pool_inv_lets_go)
qed

lemma pool_inv_reachable:
  assumes "pool_reachable prof exists sz pids s" and "0 < sz" and "sz \<le> 2 ^ 32" and "\<forall>i < sz. exists i"
  shows "pool_inv exists sz s \<and> length (procs s) = length pids"
  using assms(1)
proof (induction rule: pool_reachable.induct)
  case init
  then show ?case by (auto simp: pool_inv_def at_pc_def)
next
  case (step s t)
  moreover have "length (procs t) = length (procs s)"
    using step(2)
  proof cases
    case (acquires p)
    from acquires(2) assms(2-4) show ?thesis
    proof (cases rule: acquire_step_cases)
      case (overran offset)
      then have "\<not> offset \<le> sz" by simp
      with overran(1) step(3) acquires(1) show ?thesis unfolding pool_inv_def by force
    qed simp_all
  qed simp
  ultimately show ?case using pool_inv_step assms(2-4) by auto
next
  case (killed s p)
  then show ?case by (simp add: pool_inv_lets_go)
qed

section \<open>Sharing\<close>

text \<open>What is left of the tries of a process, and of all.\<close>

primrec tries :: "nat \<Rightarrow> test_pc \<Rightarrow> nat" where
  "tries sz (Probing offset) = sz - offset + 3"
| "tries sz (Blocking i) = 2"
| "tries sz (Holding i) = 1"
| "tries sz Gone = 0"
| "tries sz (Panicked e) = 0"

definition tries_left :: "nat \<Rightarrow> sharing \<Rightarrow> nat" where
  "tries_left sz s = (\<Sum>p < length (procs s). tries sz (at_pc s p))"

lemma tries_left_less:
  assumes "p < length (procs s)" and "length (procs t) = length (procs s)"
    and "\<And>q. q \<noteq> p \<Longrightarrow> at_pc t q = at_pc s q" and "tries sz (at_pc t p) < tries sz (at_pc s p)"
  shows "tries_left sz t < tries_left sz s"
  unfolding tries_left_def assms(2)
proof (rule sum_strict_mono_ex1)
  show "\<forall>q \<in> {..<length (procs s)}. tries sz (at_pc t q) \<le> tries sz (at_pc s q)"
    using assms(3,4) by (metis less_imp_le order_refl)
  show "\<exists>q \<in> {..<length (procs s)}. tries sz (at_pc t q) < tries sz (at_pc s q)"
    using assms(1,4) by blast
qed simp

lemma pool_step_progress:
  assumes "pool_step prof exists sz s t" and "pool_inv exists sz s" and "0 < sz" and "sz \<le> 2 ^ 32"
    and "\<forall>i < sz. exists i"
  shows "tries_left sz t < tries_left sz s"
  using assms(1)
proof cases
  case (acquires p)
  from acquires(2) assms(3-5) show ?thesis
  proof (cases rule: acquire_step_cases)
    case (moves offset)
    with acquires(1) show ?thesis by (intro tries_left_less [of p]) auto
  next
    case (waits i)
    with acquires(1) show ?thesis by (intro tries_left_less [of p]) auto
  next
    case (overran offset)
    then have "\<not> offset \<le> sz" by simp
    with overran(1) assms(2) acquires(1) show ?thesis unfolding pool_inv_def by force
  next
    case (gets i)
    have "1 < tries sz (at_pc s p)"
      using acquires(2) gets(1) by (cases "at_pc s p") (auto simp: acquire_step_def Let_def)
    with gets acquires(1) show ?thesis by (intro tries_left_less [of p]) auto
  qed
next
  case (drops p i)
  then show ?thesis by (intro tries_left_less [of p]) auto
qed

lemma someone_can_step:
  assumes "pool_inv exists sz s" and "p < length (procs s)" and "at_pc s p \<noteq> Gone"
  shows "\<exists>t. pool_step prof exists sz s t"
proof (cases "at_pc s p")
  case (Probing offset)
  then have "acquire_step prof exists sz p s \<noteq> None"
    by (auto simp: acquire_step_def Let_def split: sum.splits option.splits claim.splits)
  then show ?thesis using acquires assms(2) by blast
next
  case (Blocking i)
  show ?thesis
  proof (cases "holder s i")
    case None
    with Blocking have "acquire_step prof exists sz p s = Some (takes p i s)"
      by (simp add: acquire_step_def Let_def)
    then show ?thesis using acquires assms(2) by blast
  next
    case (Some q)
    then have "q < length (procs s)" "at_pc s q = Holding i"
      using assms(1) unfolding pool_inv_def by blast+
    then show ?thesis using drops by blast
  qed
next
  case (Holding i)
  then show ?thesis using drops assms(2) by blast
next
  case (Panicked e)
  with assms(1,2) show ?thesis unfolding pool_inv_def by force
qed (use assms(3) in simp)


section \<open>The steps of one process\<close>

text \<open>Undisturbed, the steps of a process are the function \<open>pool_acquire\<close>.\<close>

primrec acquire_steps :: "profile \<Rightarrow> (nat \<Rightarrow> bool) \<Rightarrow> nat \<Rightarrow> nat \<Rightarrow> nat \<Rightarrow> sharing \<Rightarrow> sharing" where
  "acquire_steps prof exists sz p 0 s = s"
| "acquire_steps prof exists sz p (Suc n) s = (case acquire_step prof exists sz p s of
     None \<Rightarrow> s | Some t \<Rightarrow> acquire_steps prof exists sz p n t)"

definition pc_of_claim :: "claim outcome \<Rightarrow> test_pc" where
  "pc_of_claim res = (case res of Inl e \<Rightarrow> Panicked e | Inr (Claimed i) \<Rightarrow> Holding i
     | Inr (Waiting_For i) \<Rightarrow> Blocking i)"

lemma acquire_steps_done:
  "\<forall>offset i. at_pc s p \<noteq> Probing offset \<and> at_pc s p \<noteq> Blocking i \<Longrightarrow> acquire_steps prof exists sz p n s = s"
  by (cases n; cases "at_pc s p") (simp_all add: acquire_step_def Let_def)

lemma acquire_steps_stop:
  assumes "acquire_step prof exists sz p s = Some t"
    and "\<forall>offset i. at_pc t p \<noteq> Probing offset \<and> at_pc t p \<noteq> Blocking i"
  shows "acquire_steps prof exists sz p (Suc n) s = t"
  using assms by (simp add: acquire_steps_done)

lemma acquire_steps_probe:
  assumes "p < length (procs s)" and "procs s ! p = (pid, Probing offset)" and "offset + k = sz"
  shows "at_pc (acquire_steps prof exists sz p (Suc k) s) p =
    pc_of_claim (bind_out (probe prof (pool_view exists s) (unat pid) sz [offset..<sz]) (\<lambda>found. case found of
      Some i \<Rightarrow> Inr (Claimed i)
    | None \<Rightarrow> bind_out (usize_rem (unat pid) sz) (block_claim (pool_view exists s))))"
  using assms
proof (induction k arbitrary: offset s)
  case 0
  then show ?case
    by (auto simp: acquire_step_def at_pc_def Let_def pc_of_claim_def goes_def takes_def bind_out_def
        block_claim_def split: sum.splits claim.splits if_splits)
next
  case (Suc k)
  let ?env = "pool_view exists s"
  let ?attempt = "bind_out (usize_add prof (unat pid) offset) (\<lambda>n. bind_out (usize_rem n sz) (try_claim ?env))"
  have lt: "offset < sz" using Suc.prems(3) by simp
  then have upt: "[offset..<sz] = offset # [offset + 1..<sz]" by (simp add: upt_conv_Cons)
  have pc: "at_pc s p = Probing offset" using Suc.prems(2) by (simp add: at_pc_def)
  show ?case
  proof (cases ?attempt)
    case (Inl e)
    then have "acquire_step prof exists sz p s = Some (goes p (Panicked e) s)"
      using pc lt Suc.prems(2) by (simp add: acquire_step_def Let_def)
    then have "acquire_steps prof exists sz p (Suc (Suc k)) s = goes p (Panicked e) s"
      using Suc.prems(1) by (intro acquire_steps_stop) simp_all
    moreover have "probe prof ?env (unat pid) sz [offset..<sz] = Inl e"
      using Inl unfolding upt by (auto simp: bind_out_def split: sum.splits)
    ultimately show ?thesis using Suc.prems(1) by (simp add: pc_of_claim_def bind_out_def)
  next
    case (Inr found)
    show ?thesis
    proof (cases found)
      case (Some i)
      then have "acquire_step prof exists sz p s = Some (takes p i s)"
        using Inr pc lt Suc.prems(2) by (simp add: acquire_step_def Let_def)
      then have "acquire_steps prof exists sz p (Suc (Suc k)) s = takes p i s"
        using Suc.prems(1) by (intro acquire_steps_stop) simp_all
      moreover have "probe prof ?env (unat pid) sz [offset..<sz] = Inr (Some i)"
        using Inr Some unfolding upt by (auto simp: bind_out_def split: sum.splits)
      ultimately show ?thesis using Suc.prems(1) by (simp add: pc_of_claim_def bind_out_def)
    next
      case None
      let ?t = "goes p (Probing (offset + 1)) s"
      have step: "acquire_step prof exists sz p s = Some ?t"
        using Inr None pc lt Suc.prems(2) by (simp add: acquire_step_def Let_def)
      have view: "pool_view exists ?t = ?env" by (simp add: pool_view_def)
      have "at_pc (acquire_steps prof exists sz p (Suc k) ?t) p =
          pc_of_claim (bind_out (probe prof ?env (unat pid) sz [offset + 1..<sz]) (\<lambda>found. case found of
            Some i \<Rightarrow> Inr (Claimed i)
          | None \<Rightarrow> bind_out (usize_rem (unat pid) sz) (block_claim ?env)))"
        using Suc.IH [of ?t "offset + 1"] Suc.prems unfolding view by (simp add: goes_def)
      moreover have "probe prof ?env (unat pid) sz [offset..<sz] =
          probe prof ?env (unat pid) sz [offset + 1..<sz]"
        using Inr None unfolding upt by (auto simp: bind_out_def split: sum.splits)
      moreover have "acquire_steps prof exists sz p (Suc (Suc k)) s = acquire_steps prof exists sz p (Suc k) ?t"
        by (subst acquire_steps.simps(2)) (simp only: step option.case)
      ultimately show ?thesis by (simp only:)
    qed
  qed
qed

theorem undisturbed_steps_are_acquire:
  assumes "p < length (procs s)" and "procs s ! p = (pid, Probing 0)"
  shows "at_pc (acquire_steps prof exists sz p (Suc sz) s) p =
    pc_of_claim (pool_acquire prof (pool_view exists s) pid sz)"
  using acquire_steps_probe [OF assms, of sz sz prof exists]
  by (simp add: pool_acquire_def pool_view_def Let_def)

section \<open>An example\<close>

text \<open>Two processes and one node: the second waits until the first has let go.\<close>

definition one_node :: sharing where
  "one_node = \<lparr>procs = [(4, Probing 0), (5, Probing 0)], holder = (\<lambda>i. None)\<rparr>"

definition first_holds :: sharing where "first_holds = takes 0 0 one_node"

lemma first_holds_reachable: "pool_reachable Checked (\<lambda>i. i < 1) 1 [4, 5] first_holds"
proof -
  have "pool_reachable Checked (\<lambda>i. i < 1) 1 [4, 5] one_node"
    using pool_reachable.init [of Checked "\<lambda>i. i < 1" 1 "[4, 5]"] by (simp add: one_node_def)
  moreover have "pool_step Checked (\<lambda>i. i < 1) 1 one_node first_holds"
    by (rule acquires [of 0])
      (simp_all add: acquire_step_def one_node_def first_holds_def at_pc_def usize_add_def usize_rem_def
        try_claim_def pool_view_def bind_out_def Let_def)
  ultimately show ?thesis by (rule pool_reachable.step)
qed


end
