(* ===== verification/Two_Processes.thy ===== *)
theory Two_Processes
  imports Pool_Setup
begin

text \<open>
  The main function of \<open>examples/bench.rs\<close> up to its phases: which device nodes a run takes, and
  how the two processes it forks come up and go away.

  The two processes share a pipe; each is a program of single steps, and a run is any interleaving
  of them. The calls of the service that can fail do so at will; the client can be killed at any
  moment.
\<close>

section \<open>The nodes of a run\<close>

text \<open>
  The service's node, the node of the raw binder service, and the claim of the first, which is
  held for the whole run. \<open>Inl\<close> is an exit before that.
\<close>

definition as_path :: "string \<Rightarrow> path" where "as_path s = map of_char s"

definition claimed_index :: "claim \<Rightarrow> nat" where
  "claimed_index c = (case c of Claimed i \<Rightarrow> i | Waiting_For i \<Rightarrow> i)"

definition other_node :: "pool_env \<Rightarrow> path option \<Rightarrow> nat \<Rightarrow> path \<Rightarrow> path option" where
  "other_node env mount_var sz p = map_option (node_path mount_var)
     (find (\<lambda>i. node_path mount_var i \<noteq> p \<and> node_exists env i) [0..<sz])"

definition bench_nodes :: "profile \<Rightarrow> pool_env \<Rightarrow> u32 \<Rightarrow> string option \<Rightarrow> path option \<Rightarrow> bench_args \<Rightarrow>
    (exit + path \<times> path option \<times> claim option) outcome" where
  "bench_nodes prof env pid size_var mount_var args = (case device args of
     Some p \<Rightarrow> Inr (Inr (as_path p, map_option as_path (raw_device args), None))
   | None \<Rightarrow>
       if \<not> mount_exists env then Inr (Inl (Exit 2))
       else bind_out (pool_acquire prof env pid (pool_size size_var)) (\<lambda>node.
         let p = node_path mount_var (claimed_index node) in
         Inr (Inr (p,
           (case raw_device args of Some q \<Rightarrow> Some (as_path q)
            | None \<Rightarrow> other_node env mount_var (pool_size size_var) p),
           Some node))))"

lemma find_upt_Some: "find P [0..<n] = Some i \<Longrightarrow> i < n \<and> P i \<and> (\<forall>j < i. \<not> P j)"
  by (auto simp: find_Some_iff)

text \<open>A node that is looked for is another node of the pool than the service's, and one is found
  whenever there is one.\<close>

lemma other_node_is_another:
  "case other_node env mv sz p of
     Some q \<Rightarrow> q \<noteq> p \<and> (\<exists>i < sz. q = node_path mv i \<and> node_exists env i)
   | None \<Rightarrow> \<forall>i < sz. node_exists env i \<longrightarrow> node_path mv i = p"
proof (cases "find (\<lambda>i. node_path mv i \<noteq> p \<and> node_exists env i) [0..<sz]")
  case None
  then have "other_node env mv sz p = None" by (simp add: other_node_def)
  with None show ?thesis by (auto simp: find_None_iff)
next
  case (Some i)
  then have "other_node env mv sz p = Some (node_path mv i)" by (simp add: other_node_def)
  with find_upt_Some [OF Some] show ?thesis by auto
qed

theorem raw_node_is_another:
  assumes "device args = None" and "raw_device args = None"
    and "bench_nodes prof env pid size_var mount_var args = Inr (Inr (p, raw, node))"
  shows "(\<exists>c. node = Some c \<and> p = node_path mount_var (claimed_index c)) \<and>
    (case raw of
       Some q \<Rightarrow> q \<noteq> p \<and> (\<exists>i < pool_size size_var. q = node_path mount_var i \<and> node_exists env i)
     | None \<Rightarrow> \<forall>i < pool_size size_var. node_exists env i \<longrightarrow> node_path mount_var i = p)"
  using assms other_node_is_another [where env = env and mv = mount_var and sz = "pool_size size_var" and p = p]
  by (auto simp: bench_nodes_def Let_def bind_out_def split: sum.splits if_splits)

text \<open>It is not claimed, and whether another process holds it makes no difference: with two nodes of
  which the second is locked by another process, the run takes both.\<close>

theorem raw_node_is_not_claimed:
  "bench_nodes Checked
     \<lparr>mount_exists = True, node_exists = (\<lambda>i. i < 2),
      try_lock = (\<lambda>i. if i = 0 then Lock_Taken else Would_Block)\<rparr>
     4 (Some ''2'') None (parse_args []) =
   Inr (Inr (node_path None 0, Some (node_path None 1), Some (Claimed 0)))"
proof -
  have sz: "pool_size (Some ''2'') = 2"
    by (simp add: pool_size_def parse_usize_def digit_value_def)
  have "[0..<2] = [0, 1 :: nat]" by (simp add: upt_rec)
  then show ?thesis
    by (simp add: bench_nodes_def parse_args_def arg_value_def sz pool_acquire_def try_claim_def
        usize_rem_def usize_add_def bind_out_def claimed_index_def other_node_def node_path_inj Let_def)
qed

section \<open>Starting and stopping\<close>

text \<open>
  The service: forked, without the read end, bound to its parent's life, with the device open, as
  context manager, with the threads of the floors, and, when it has written, parked for good.
\<close>

datatype service_pc = Forked | Write_End_Only | Tied | Opened | Manager | Floors | Signalled | Parked | Dead

text \<open>The client: forked, without its write end, waiting for the byte, in \<open>client_main\<close>, gone.\<close>

datatype client_pc = Parent | Waiting | Running | Gone

record run_state =
  service :: service_pc
  client :: client_pc
  pipe :: "byte list"
  service_writes :: bool
  client_writes :: bool
  client_reads :: bool
  managed :: bool

definition forked :: run_state where
  "forked = \<lparr>service = Forked, client = Parent, pipe = [], service_writes = True, client_writes = True,
     client_reads = True, managed = False\<rparr>"

text \<open>A process that ends gives up its ends of the pipe, and the service's node its manager.\<close>

definition service_ends :: "run_state \<Rightarrow> run_state" where
  "service_ends s = s\<lparr>service := Dead, service_writes := False, managed := False\<rparr>"

definition client_ends :: "run_state \<Rightarrow> run_state" where
  "client_ends s = s\<lparr>client := Gone, client_writes := False, client_reads := False\<rparr>"

text \<open>
  A step of the service; \<open>ok\<close> is whether the call it makes succeeds, and a failure is a panic of its
  main thread. A write to a pipe nobody reads fails. The service makes no step of its own once it is
  parked.
\<close>

definition service_step :: "bool \<Rightarrow> run_state \<Rightarrow> run_state option" where
  "service_step ok s = (case service s of
     Forked \<Rightarrow> Some (s\<lparr>service := Write_End_Only\<rparr>)
   | Write_End_Only \<Rightarrow> Some (s\<lparr>service := Tied\<rparr>)
   | Tied \<Rightarrow> Some (if ok then s\<lparr>service := Opened\<rparr> else service_ends s)
   | Opened \<Rightarrow> Some (if ok then s\<lparr>service := Manager, managed := True\<rparr> else service_ends s)
   | Manager \<Rightarrow> Some (if ok then s\<lparr>service := Floors\<rparr> else service_ends s)
   | Floors \<Rightarrow> Some (if ok \<and> client_reads s then s\<lparr>service := Signalled, pipe := pipe s @ [1]\<rparr>
       else service_ends s)
   | Signalled \<Rightarrow> Some (s\<lparr>service := Parked, service_writes := False\<rparr>)
   | Parked \<Rightarrow> None
   | Dead \<Rightarrow> None)"

text \<open>
  A step of the client. The read waits while the pipe is empty and someone can write to it; at the
  end of the pipe the buffer keeps its zero and the assertion fails. When \<open>client_main\<close> returns, or
  the watchdog stops it, it kills the service.
\<close>

definition client_step :: "bool \<Rightarrow> run_state \<Rightarrow> run_state option" where
  "client_step ok s = (case client s of
     Parent \<Rightarrow> Some (s\<lparr>client := Waiting, client_writes := False\<rparr>)
   | Waiting \<Rightarrow> (case pipe s of
       [] \<Rightarrow> if service_writes s \<or> client_writes s then (if ok then None else Some (client_ends s))
             else Some (client_ends s)
     | b # bs \<Rightarrow> if ok \<and> b = 1 then Some (s\<lparr>client := Running, pipe := bs, client_reads := False\<rparr>)
             else Some (client_ends s))
   | Running \<Rightarrow> Some (client_ends (if ok then service_ends s else s))
   | Gone \<Rightarrow> None)"

text \<open>The signal a process has asked for with \<open>prctl\<close> for when its parent ends.\<close>

definition parent_death :: "run_state \<Rightarrow> run_state option" where
  "parent_death s = (if client s = Gone \<and> service s \<notin> {Forked, Write_End_Only, Dead}
     then Some (service_ends s) else None)"

inductive run_step :: "run_state \<Rightarrow> run_state \<Rightarrow> bool" where
  serves: "service_step ok s = Some t \<Longrightarrow> run_step s t"
| drives: "client_step True s = Some t \<Longrightarrow> run_step s t"
| reaps: "parent_death s = Some t \<Longrightarrow> run_step s t"

text \<open>What can happen besides: the read is interrupted, or a process is killed.\<close>

inductive disturbed :: "run_state \<Rightarrow> run_state \<Rightarrow> bool" where
  fails: "client_step False s = Some t \<Longrightarrow> disturbed s t"
| client_killed: "client s \<noteq> Gone \<Longrightarrow> disturbed s (client_ends s)"
| service_killed: "service s \<noteq> Dead \<Longrightarrow> disturbed s (service_ends s)"

inductive run_reachable :: "run_state \<Rightarrow> bool" where
  init: "run_reachable forked"
| step: "run_reachable s \<Longrightarrow> run_step s t \<Longrightarrow> run_reachable t"
| disturbance: "run_reachable s \<Longrightarrow> disturbed s t \<Longrightarrow> run_reachable t"

inductive_cases run_step_cases: "run_step s t"
inductive_cases disturbed_cases: "disturbed s t"

text \<open>What holds throughout: who holds which end, when the byte is in the pipe, and when the node has
  a manager.\<close>

definition run_inv :: "run_state \<Rightarrow> bool" where
  "run_inv s \<longleftrightarrow>
     (service_writes s \<longleftrightarrow> service s \<notin> {Parked, Dead}) \<and>
     (client_writes s \<longleftrightarrow> client s = Parent) \<and>
     (client_reads s \<longleftrightarrow> client s \<in> {Parent, Waiting}) \<and>
     (managed s \<longleftrightarrow> service s \<in> {Manager, Floors, Signalled, Parked}) \<and>
     (pipe s = [] \<or> pipe s = [1] \<and> service s \<in> {Signalled, Parked, Dead}) \<and>
     (client s \<in> {Parent, Waiting} \<and> service s \<in> {Signalled, Parked} \<longrightarrow> pipe s = [1]) \<and>
     (client s = Running \<longrightarrow> service s \<in> {Signalled, Parked, Dead})"

lemmas run_defs = run_inv_def service_step_def client_step_def parent_death_def service_ends_def
  client_ends_def

lemma run_inv_service:
  assumes "run_inv s" and "service_step ok s = Some t"
  shows "run_inv t"
proof -
  have "case service_step ok s of None \<Rightarrow> True | Some t \<Rightarrow> run_inv t"
    using assms(1) by (cases "service s"; cases ok) (simp_all add: run_defs)
  with assms(2) show ?thesis by simp
qed

lemma run_inv_client:
  assumes "run_inv s" and "client_step ok s = Some t"
  shows "run_inv t"
proof -
  have "case client_step ok s of None \<Rightarrow> True | Some t \<Rightarrow> run_inv t"
    using assms(1) by (cases "client s"; cases ok; cases "pipe s") (simp_all add: run_defs)
  with assms(2) show ?thesis by simp
qed

lemma run_inv_ends: "run_inv s \<Longrightarrow> run_inv (service_ends s)" "run_inv s \<Longrightarrow> run_inv (client_ends s)"
  by (simp_all add: run_inv_def service_ends_def client_ends_def) blast?

lemma run_inv_step:
  assumes "run_step s t" and "run_inv s"
  shows "run_inv t"
  using assms
  by cases (auto simp: parent_death_def run_inv_ends intro: run_inv_service run_inv_client split: if_splits)

lemma run_inv_disturbed:
  assumes "disturbed s t" and "run_inv s"
  shows "run_inv t"
  using assms by cases (auto simp: run_inv_ends intro: run_inv_client)

lemma run_inv_reachable: "run_reachable s \<Longrightarrow> run_inv s"
  by (induction rule: run_reachable.induct)
    (simp_all add: run_inv_step run_inv_disturbed, simp add: run_inv_def forked_def)

text \<open>The client measures a service that is ready: while it is in \<open>client_main\<close>, the service is context
  manager of its node, unless it has died.\<close>

theorem client_runs_against_manager:
  assumes "run_reachable s" and "client s = Running"
  shows "managed s \<or> service s = Dead"
  using run_inv_reachable [OF assms(1)] assms(2) by (auto simp: run_inv_def)

text \<open>Every step, and every disturbance, is progress.\<close>

primrec steps_of_service :: "service_pc \<Rightarrow> nat" where
  "steps_of_service Forked = 8"
| "steps_of_service Write_End_Only = 7"
| "steps_of_service Tied = 6"
| "steps_of_service Opened = 5"
| "steps_of_service Manager = 4"
| "steps_of_service Floors = 3"
| "steps_of_service Signalled = 2"
| "steps_of_service Parked = 1"
| "steps_of_service Dead = 0"

primrec steps_of_client :: "client_pc \<Rightarrow> nat" where
  "steps_of_client Parent = 3"
| "steps_of_client Waiting = 2"
| "steps_of_client Running = 1"
| "steps_of_client Gone = 0"

definition steps_left :: "run_state \<Rightarrow> nat" where
  "steps_left s = steps_of_service (service s) + steps_of_client (client s)"

lemma steps_left_ends:
  "service s \<noteq> Dead \<Longrightarrow> steps_left (service_ends s) < steps_left s"
  "client s \<noteq> Gone \<Longrightarrow> steps_left (client_ends s) < steps_left s"
  "steps_left (service_ends s) \<le> steps_left s"
proof -
  show "service s \<noteq> Dead \<Longrightarrow> steps_left (service_ends s) < steps_left s"
    by (cases "service s") (simp_all add: steps_left_def service_ends_def)
  show "client s \<noteq> Gone \<Longrightarrow> steps_left (client_ends s) < steps_left s"
    by (cases "client s") (simp_all add: steps_left_def client_ends_def)
  show "steps_left (service_ends s) \<le> steps_left s"
    by (simp add: steps_left_def service_ends_def)
qed

lemma service_step_progress: "service_step ok s = Some t \<Longrightarrow> steps_left t < steps_left s"
  by (cases "service s") (auto simp: service_step_def steps_left_def service_ends_def split: if_splits)

lemma client_step_progress: "client_step ok s = Some t \<Longrightarrow> steps_left t < steps_left s"
  by (cases "client s")
    (auto simp: client_step_def steps_left_def service_ends_def client_ends_def split: if_splits list.splits)

lemma run_step_progress: "run_step s t \<Longrightarrow> steps_left t < steps_left s"
  by (erule run_step_cases)
    (auto simp: parent_death_def intro: service_step_progress client_step_progress steps_left_ends split: if_splits)

lemma disturbed_progress: "disturbed s t \<Longrightarrow> steps_left t < steps_left s"
  by (erule disturbed_cases) (auto intro: client_step_progress steps_left_ends)

text \<open>While a process is left, one can go on without any disturbance.\<close>

lemma someone_can_go_on:
  assumes "run_inv s" and "client s \<noteq> Gone \<or> service s \<noteq> Dead"
  shows "\<exists>t. run_step s t"
proof (cases "client s")
  case Parent
  then have "client_step True s \<noteq> None" by (simp add: client_step_def)
  then show ?thesis using drives by blast
next
  case Running
  then have "client_step True s \<noteq> None" by (simp add: client_step_def)
  then show ?thesis using drives by blast
next
  case Waiting
  then have "client_step True s \<noteq> None \<or> service_step True s \<noteq> None"
    using assms(1) by (cases "service s") (auto simp: run_defs)
  then show ?thesis using drives serves by blast
next
  case Gone
  with assms(2) have "service_step True s \<noteq> None \<or> parent_death s \<noteq> None"
    by (cases "service s") (auto simp: run_defs)
  then show ?thesis using serves reaps by blast
qed


text \<open>The service dies in its attempt to become context manager; the client, which has been waiting,
  reads the end of the pipe and ends too.\<close>

definition refused_run :: run_state where
  "refused_run = service_ends (forked\<lparr>service := Opened, client := Waiting, client_writes := False\<rparr>)"

lemma refused_run_reachable: "run_reachable refused_run"
proof -
  let ?s1 = "forked\<lparr>client := Waiting, client_writes := False\<rparr>"
  have "run_reachable ?s1"
    by (rule run_reachable.step [OF init], rule drives) (simp add: client_step_def forked_def)
  then have "run_reachable (?s1\<lparr>service := Write_End_Only\<rparr>)"
    by (rule run_reachable.step, intro serves) (simp add: service_step_def forked_def)
  then have "run_reachable (?s1\<lparr>service := Tied\<rparr>)"
    by (rule run_reachable.step, intro serves) (simp add: service_step_def forked_def)
  then have "run_reachable (?s1\<lparr>service := Opened\<rparr>)"
    by (rule run_reachable.step, intro serves [where ok = True]) (simp add: service_step_def forked_def)
  then show ?thesis
    by (rule run_reachable.step, intro serves [where ok = False])
      (simp add: service_step_def forked_def refused_run_def)
qed


end
