(* ===== verification/Basic_Main.thy ===== *)
theory Basic_Main
  imports Pool_Setup
begin

text \<open>
  \<open>examples/basic.rs\<close>: mounting binderfs in a directory of its own, making a device and asking it
  for the version of its protocol.

  The file system is the state of \<open>Pool_Setup\<close>; making and removing the directory are two more
  calls on it. What the program prints at the end is its verdict.
\<close>

datatype verdict = No_Binderfs | No_Device | Version u32 | No_Version

record 'f dir_ops =
  op_make_dirs :: "'f \<Rightarrow> io_error option \<times> 'f"
  op_remove_dirs :: "'f \<Rightarrow> 'f"

definition binder_test_path :: path where
  "binder_test_path = map of_char ''/tmp/binder_test''"

definition binder_name :: "byte list" where "binder_name = map of_char ''binder''"

definition remove_dirs :: "'f dir_ops \<Rightarrow> ('f, unit) action" where
  "remove_dirs dirs f = (Inr (), op_remove_dirs dirs f)"

definition mounting :: "'f node_ops \<Rightarrow> mount_env \<Rightarrow> ('f, io_error + nat) action" where
  "mounting ops env f = (fst (mount env), op_mount ops (snd (mount env)) f)"

text \<open>\<open>ask\<close> is the answer of the device to \<open>BINDER_VERSION\<close>. The result of removing the directory is
  not looked at.\<close>

definition basic_main :: "'f node_ops \<Rightarrow> 'f dir_ops \<Rightarrow> mount_env \<Rightarrow> (nat \<Rightarrow> io_error + u32) \<Rightarrow>
    ('f, verdict \<times> exit) action" where
  "basic_main ops dirs env ask =
     bind (expect_call (op_make_dirs dirs)) (\<lambda>_.
     bind (mounting ops env) (\<lambda>res. case res of
       Inl e \<Rightarrow> bind (remove_dirs dirs) (\<lambda>_. ret (No_Binderfs, Exit 1))
     | Inr control \<Rightarrow> bind (create_node ops binder_test_path binder_name) (\<lambda>res. case res of
         Inl e \<Rightarrow> ret (No_Device, Exit 1)
       | Inr fd \<Rightarrow> bind (remove_dirs dirs) (\<lambda>_.
           ret (case ask fd of Inl e \<Rightarrow> No_Version | Inr v \<Rightarrow> Version v, Finished)))))"

text \<open>
  The exit status says whether a device was made, not whether it answered: a device that refuses
  \<open>BINDER_VERSION\<close> is printed as a failure and ends the program as a success does.
\<close>

theorem basic_status:
  assumes "basic_main ops dirs env ask f = (Inr (v, status), g)"
  shows "status = Finished \<longleftrightarrow> (\<exists>x. v = Version x) \<or> v = No_Version"
  using assms
  by (auto simp: basic_main_def ret_def elim!: bind_Inr_cases split: sum.splits)

text \<open>The directory is removed on every path that ends but one: when no device can be made, it stays.\<close>

theorem basic_cleans_up:
  assumes "basic_main ops dirs env ask f = (Inr (v, status), g)"
  shows "if v = No_Device
     then \<exists>f1. op_make_dirs dirs f = (None, f1) \<and>
       g = snd (create_node ops binder_test_path binder_name (op_mount ops (snd (mount env)) f1))
     else \<exists>f2. g = op_remove_dirs dirs f2"
  using assms
  by (auto simp: basic_main_def ret_def remove_dirs_def mounting_def expect_call_def
      elim!: bind_Inr_cases split: sum.splits option.splits prod.splits)
    (rule exI, rule refl)+

end
