(* ===== verification/Lock_Files.thy ===== *)
theory Lock_Files
  imports Pool_Setup Pool_Sharing
begin

text \<open>
  The lock files of the test pool (\<open>lock_dir\<close>, \<open>lock_path\<close> and \<open>open_lock_file\<close> of
  \<open>src/src/test_pool.rs\<close>): a node is locked through a file in a directory that the environment of
  the process names.

  \<open>Pool_Sharing\<close> speaks of the lock of a node; here a lock is that of a file, so that processes
  with different environments can be compared. A process sees as taken the nodes whose lock file,
  under its own directory, is locked by someone.
\<close>

section \<open>Names\<close>

definition LOCK_DIR_NAME :: "byte list" where "LOCK_DIR_NAME = map of_char ''binderbinder-test-pool''"

text \<open>\<open>tmp\<close> is what \<open>temp_dir\<close> gives, \<open>var\<close> the variable of the environment.\<close>

definition lock_dir :: "path option \<Rightarrow> path \<Rightarrow> path" where
  "lock_dir var tmp = (case var of Some p \<Rightarrow> p | None \<Rightarrow> path_join tmp LOCK_DIR_NAME)"

definition lock_name :: "nat \<Rightarrow> byte list" where
  "lock_name i = map of_char (POOL_PREFIX @ decimal i @ ''.lock'')"

definition lock_path :: "path option \<Rightarrow> path \<Rightarrow> nat \<Rightarrow> path" where
  "lock_path var tmp i = path_join (lock_dir var tmp) (lock_name i)"

text \<open>Making the directory and opening the file; both failures are panics.\<close>

definition open_lock_file :: "(path \<Rightarrow> io_error option) \<Rightarrow> (path \<Rightarrow> io_error + nat) \<Rightarrow> path option \<Rightarrow> path \<Rightarrow>
    nat \<Rightarrow> nat outcome" where
  "open_lock_file make_dirs open_file var tmp i = (case make_dirs (lock_dir var tmp) of
     Some e \<Rightarrow> Inl Assert_Failed
   | None \<Rightarrow> (case open_file (lock_path var tmp i) of Inl e \<Rightarrow> Inl Assert_Failed | Inr fd \<Rightarrow> Inr fd))"

section \<open>One directory\<close>

lemma lock_name_bytes: "lock_name i \<noteq> []" "hd (lock_name i) \<noteq> 47"
  by (simp_all add: lock_name_def POOL_PREFIX_def)

lemma lock_name_inj: "lock_name i = lock_name j \<longleftrightarrow> i = j"
proof -
  have "lock_name n = node_name n @ map of_char ''.lock''" for n
    by (simp add: lock_name_def node_name_def)
  then show ?thesis by (simp add: node_name_inj)
qed

lemma lock_path_inj: "lock_path var tmp i = lock_path var tmp j \<longleftrightarrow> i = j"
  by (simp add: lock_path_def path_join_inj lock_name_bytes lock_name_inj)

text \<open>What a process sees: a missing lock file, or one it cannot open, is a panic.\<close>

definition locks_view :: "(nat \<Rightarrow> bool) \<Rightarrow> (path \<Rightarrow> nat option) \<Rightarrow> (path \<Rightarrow> io_error + nat) \<Rightarrow> path option \<Rightarrow>
    path \<Rightarrow> pool_env" where
  "locks_view exists locks open_file var tmp = \<lparr>mount_exists = True, node_exists = exists,
     try_lock = (\<lambda>i. case open_lock_file (\<lambda>d. None) open_file var tmp i of
       Inl e \<Rightarrow> Lock_Error
     | Inr fd \<Rightarrow> if locks (lock_path var tmp i) = None then Lock_Taken else Would_Block)\<rparr>"

text \<open>Among processes with the same directory, locks of files are locks of nodes: taking the lock of one
  node changes what the others see of that node and of no other, and they see exactly what
  \<open>Pool_Sharing\<close> says.\<close>

lemma locks_view_open:
  assumes "\<forall>p. \<exists>fd. open_file p = Inr fd"
  shows "locks_view exists locks open_file var tmp = \<lparr>mount_exists = True, node_exists = exists,
    try_lock = (\<lambda>i. if locks (lock_path var tmp i) = None then Lock_Taken else Would_Block)\<rparr>"
proof -
  obtain fd where fd: "open_file p = Inr (fd p)" for p using assms by metis
  then have "open_lock_file (\<lambda>d. None) open_file var tmp j = Inr (fd (lock_path var tmp j))" for j
    by (simp add: open_lock_file_def)
  then show ?thesis by (simp add: locks_view_def)
qed

theorem same_directory_shares_locks:
  assumes "\<forall>p. \<exists>fd. open_file p = Inr fd" and "\<forall>i. locks (lock_path var tmp i) = holder s i"
  shows "locks_view exists locks open_file var tmp = pool_view exists s \<and>
    locks_view exists (locks(lock_path var tmp i \<mapsto> p)) open_file var tmp = pool_view exists (takes p i s)"
  using assms(2)
  by (auto simp: locks_view_open [OF assms(1)] pool_view_def takes_def goes_def lock_path_inj intro!: ext)

section \<open>Different directories\<close>

text \<open>The node does not depend on the directory of the locks. A process that looks for a lock in another
  directory does not see that a node is claimed, and claims the same node: the first one it probes.\<close>

theorem other_directory_same_node:
  assumes "\<forall>p. \<exists>fd. open_file p = Inr fd" and "0 < sz" and "sz \<le> 2 ^ 32" and "i = unat pid mod sz"
    and "exists i" and "locks (lock_path var2 tmp2 i) = None"
    and "lock_path var1 tmp1 i \<noteq> lock_path var2 tmp2 i"
  shows "pool_acquire prof
    (locks_view exists (locks(lock_path var1 tmp1 i \<mapsto> p)) open_file var2 tmp2) pid sz = Inr (Claimed i)"
proof -
  have "unat pid < 2 ^ 32" using unsigned_less [of pid] by simp
  then have "usize_add prof (unat pid) 0 = Inr (unat pid)" by (simp add: usize_add_def)
  moreover have "[0..<sz] = 0 # [1..<sz]" using assms(2) by (simp add: upt_conv_Cons)
  ultimately show ?thesis
    using assms(2,4-7)
    by (simp add: locks_view_open [OF assms(1)] pool_acquire_def usize_rem_def try_claim_def bind_out_def Let_def)
qed

theorem other_directory_same_node_witness:
  "pool_acquire Checked (locks_view (\<lambda>i. i < 4) [lock_path None [47, 97] 1 \<mapsto> 7] (\<lambda>p. Inr 3) None [47, 98])
     5 4 = Inr (Claimed 1)"
proof -
  have "lock_path None [47, 97] 1 \<noteq> lock_path None [47, 98] (1 :: nat)"
    by (simp add: lock_path_def lock_dir_def path_join_def lock_name_bytes LOCK_DIR_NAME_def)
  then show ?thesis
    using other_directory_same_node [of "\<lambda>p. Inr 3" 4 1 5 "\<lambda>i. i < 4" Map.empty None "[47, 98]" None "[47, 97]"
        Checked 7] by simp
qed

end
