(* ===== verification/Raw_Setup.thy ===== *)
theory Raw_Setup
  imports Raw_Binder
begin

text \<open>
  What the floors of \<open>src/examples/bench.rs\<close> need besides the protocol: opening and closing a device
  by hand, the set-up of the raw service, and the echo over a socket that serves as a reference.

  The calls that acquire and release something are recorded in the order the code makes them; of
  each the environment gives the answer.
\<close>

section \<open>Opening and closing\<close>

datatype os_call = Open_Device | Map_Buffer usize nat | Set_Max_Threads u32 | Unmap usize nat | Close_Device

record raw_binder =
  raw_map :: usize
  raw_map_len :: nat

record raw_env =
  open_error :: "errno option"
  mmap_answer :: "errno + usize"
  limit_answer :: "errno option"

definition RAW_MAP_LEN :: nat where "RAW_MAP_LEN = 1024 * 1024"

text \<open>\<open>RawBinder::open\<close>: each \<open>?\<close> returns at once and drops the descriptor, which closes it.\<close>

definition raw_open :: "raw_env \<Rightarrow> (errno + raw_binder) \<times> os_call list" where
  "raw_open env = (case open_error env of
     Some e \<Rightarrow> (Inl e, [])
   | None \<Rightarrow> (case mmap_answer env of
       Inl e \<Rightarrow> (Inl e, [Open_Device, Close_Device])
     | Inr addr \<Rightarrow> (case limit_answer env of
         Some e \<Rightarrow> (Inl e, [Open_Device, Map_Buffer addr RAW_MAP_LEN, Set_Max_Threads 1, Close_Device])
       | None \<Rightarrow> (Inr \<lparr>raw_map = addr, raw_map_len = RAW_MAP_LEN\<rparr>,
           [Open_Device, Map_Buffer addr RAW_MAP_LEN, Set_Max_Threads 1]))))"

text \<open>The destructor unmaps; the descriptor is dropped after it.\<close>

definition raw_drop :: "raw_binder \<Rightarrow> os_call list" where
  "raw_drop b = [Unmap (raw_map b) (raw_map_len b), Close_Device]"

record raw_binder_client =
  raw_dev :: raw_binder
  raw_read :: "byte list"

definition raw_client_open :: "raw_env \<Rightarrow> (errno + raw_binder_client) \<times> os_call list" where
  "raw_client_open env = (case raw_open env of
     (Inl e, trace) \<Rightarrow> (Inl e, trace)
   | (Inr d, trace) \<Rightarrow> (Inr \<lparr>raw_dev = d, raw_read = replicate 4096 0\<rparr>, trace))"

text \<open>What a sequence of calls leaves: open descriptors and mapped areas.\<close>

primrec left_open :: "os_call list \<Rightarrow> int" where
  "left_open [] = 0"
| "left_open (c # cs) = (case c of Open_Device \<Rightarrow> 1 | Close_Device \<Rightarrow> - 1 | _ \<Rightarrow> 0) + left_open cs"

fun left_mapped :: "os_call list \<Rightarrow> (usize \<times> nat) list" where
  "left_mapped [] = []"
| "left_mapped (c # cs) = (case c of
     Map_Buffer a n \<Rightarrow> if Unmap a n \<in> set cs then left_mapped cs else (a, n) # left_mapped cs
   | _ \<Rightarrow> left_mapped cs)"

text \<open>A device that was opened is released completely by dropping it, and no way of failing leaves the
  descriptor open.\<close>

theorem raw_open_then_drop:
  "case raw_open env of
     (Inr b, trace) \<Rightarrow> left_open (trace @ raw_drop b) = 0 \<and> left_mapped (trace @ raw_drop b) = [] \<and>
       left_mapped trace = [(raw_map b, RAW_MAP_LEN)]
   | (Inl e, trace) \<Rightarrow> left_open trace = 0"
  by (cases env; cases "open_error env"; cases "mmap_answer env"; cases "limit_answer env")
    (simp_all add: raw_open_def raw_drop_def)

text \<open>But when \<open>SetMaxThreads\<close> is refused the mapping stays: there is no value yet whose destructor
  would unmap it, while the library's own \<open>BinderBackingMemMap\<close> is such a value.\<close>

theorem refused_limit_leaks_mapping:
  assumes "open_error env = None" and "mmap_answer env = Inr addr" and "limit_answer env = Some e"
  shows "fst (raw_open env) = Inl e \<and> left_mapped (snd (raw_open env)) = [(addr, RAW_MAP_LEN)]"
  using assms by (simp add: raw_open_def)

section \<open>The service\<close>

text \<open>The whole of \<open>raw_binder_service\<close>: the device is dropped however it returns, by an error of a
  call or of the parser.\<close>

definition raw_service_run :: "raw_env \<Rightarrow> ioc_fn \<Rightarrow> u32 \<Rightarrow> (flat_binder_object \<Rightarrow> bool) \<Rightarrow> raw_world \<Rightarrow>
    ((unit outcome \<times> raw_world) \<times> os_call list) option" where
  "raw_service_run env op junk set_mgr w = (case raw_open env of
     (Inl e, trace) \<Rightarrow> map_option (\<lambda>res. (res, trace)) (raw_binder_service op junk False set_mgr w)
   | (Inr d, trace) \<Rightarrow> map_option (\<lambda>res. (res, trace @ raw_drop d)) (raw_binder_service op junk True set_mgr w))"

theorem raw_service_closes:
  assumes "raw_service_run env op junk set_mgr w = Some (res, trace)" and "limit_answer env = None"
  shows "left_open trace = 0 \<and> left_mapped trace = []"
proof (cases "raw_open env")
  case (Pair r cs)
  show ?thesis
  proof (cases r)
    case (Inl e)
    then have "trace = cs" using assms(1) Pair by (auto simp: raw_service_run_def)
    moreover have "left_mapped cs = []" "left_open cs = 0"
      using Pair Inl assms(2) by (auto simp: raw_open_def split: option.splits sum.splits)
    ultimately show ?thesis by simp
  next
    case (Inr b)
    then have "trace = cs @ raw_drop b" using assms(1) Pair by (auto simp: raw_service_run_def)
    then show ?thesis using raw_open_then_drop [of env] Pair Inr by simp
  qed
qed

section \<open>The socket\<close>

text \<open>
  \<open>raw_echo\<close> on a socket that keeps message boundaries. What is received is a list: a message, or an
  error; after the last the peer has closed its end, which is a message of no bytes. A message longer
  than the buffer is cut. The result is what is sent; \<open>ok\<close> says whether the n-th send succeeds.
\<close>

definition ECHO_BUF :: nat where "ECHO_BUF = 2 ^ 20"

fun raw_echo :: "(nat \<Rightarrow> bool) \<Rightarrow> nat \<Rightarrow> (errno + byte list) list \<Rightarrow> byte list list" where
  "raw_echo ok k [] = []"
| "raw_echo ok k (Inl e # rs) = []"
| "raw_echo ok k (Inr m # rs) =
     (if m = [] then []
      else if ok k then take ECHO_BUF m # raw_echo ok (k + 1) rs else [])"

text \<open>The client of the reference: it sends a message and receives one into its buffer of 64 KiB; both
  calls are unwrapped. The service answers each message before the next is sent.\<close>

definition SEQ_BUF :: nat where "SEQ_BUF = 65536"

primrec seq_trips :: "(nat \<Rightarrow> bool) \<Rightarrow> nat \<Rightarrow> byte list \<Rightarrow> nat \<Rightarrow> (byte list list) outcome" where
  "seq_trips ok k content 0 = Inr []"
| "seq_trips ok k content (Suc n) = (case raw_echo (\<lambda>_. ok k) 0 [Inr content] of
     [] \<Rightarrow> Inl Unwrap_Failed
   | m # ms \<Rightarrow> bind_out (seq_trips ok (k + 1) content n) (\<lambda>rs. Inr (take SEQ_BUF m # rs)))"

text \<open>The echo gives every message back as it is, in order, up to the first that is empty.\<close>

theorem raw_echo_returns_messages:
  assumes "\<forall>m \<in> set ms. m \<noteq> [] \<and> length m \<le> ECHO_BUF" and "\<forall>k. ok k"
  shows "raw_echo ok k (map Inr ms @ Inr [] # rest) = ms \<and> raw_echo ok k (map Inr ms) = ms"
  using assms by (induction ms arbitrary: k) simp_all

theorem seq_trips_return_content:
  assumes "content \<noteq> []" and "length content \<le> SEQ_BUF" and "\<forall>k. ok k"
  shows "seq_trips ok k content n = Inr (replicate n content)"
  using assms by (induction n arbitrary: k) (simp_all add: SEQ_BUF_def ECHO_BUF_def)

end
