(* ===== verification/Bench_Jobs.thy ===== *)
theory Bench_Jobs
  imports Bench_Client
begin

text \<open>
  The threads of \<open>throughput_blocking\<close> in \<open>src/examples/bench.rs\<close>, which share the counters \<open>done\<close>
  and \<open>failed\<close>.

  Each thread repeats a call, which succeeds or fails; after every sixteenth it looks at the clock
  and leaves once the deadline has passed. \<open>failed\<close> is counted at once, \<open>done\<close> when a thread leaves.
  A run is any interleaving of these steps with the passing of the deadline. What a call does is
  the subject of \<open>Bench_Client\<close>; here only whether it fails matters. \<open>made\<close> and \<open>erred\<close> are what
  really happened, which the program does not see.
\<close>

section \<open>Threads\<close>

text \<open>The number of calls a thread has made, and whether it is about to call, to look at the clock, to
  add to \<open>done\<close>, or has been joined.\<close>

datatype job_pc = Calling nat | Checking nat | Leaving nat | Joined nat

record job_state =
  jobs :: "job_pc list"
  total_done :: "64 word"
  total_failed :: "64 word"
  late :: bool
  made :: nat
  erred :: nat

definition jobs_start :: "nat \<Rightarrow> job_state" where
  "jobs_start n = \<lparr>jobs = replicate n (Calling 0), total_done = 0, total_failed = 0, late = False,
     made = 0, erred = 0\<rparr>"

text \<open>A step of thread \<open>j\<close>; \<open>ok\<close> is the result of its call. \<open>fetch_add\<close> wraps.\<close>

definition job_moves :: "nat \<Rightarrow> bool \<Rightarrow> job_state \<Rightarrow> job_state option" where
  "job_moves j ok s = (case jobs s ! j of
     Calling n \<Rightarrow>
       let s1 = (if ok then s else s\<lparr>total_failed := total_failed s + 1, erred := erred s + 1\<rparr>) in
       Some (s1\<lparr>jobs := (jobs s)[j := if (n + 1) mod 16 = 0 then Checking (n + 1) else Calling (n + 1)],
         made := made s + 1\<rparr>)
   | Checking n \<Rightarrow> Some (s\<lparr>jobs := (jobs s)[j := if late s then Leaving n else Calling n]\<rparr>)
   | Leaving n \<Rightarrow> Some (s\<lparr>jobs := (jobs s)[j := Joined n], total_done := total_done s + word_of_nat n\<rparr>)
   | Joined n \<Rightarrow> None)"

inductive job_step :: "job_state \<Rightarrow> job_state \<Rightarrow> bool" where
  moves: "j < length (jobs s) \<Longrightarrow> job_moves j ok s = Some t \<Longrightarrow> job_step s t"
| deadline: "\<not> late s \<Longrightarrow> job_step s (s\<lparr>late := True\<rparr>)"

inductive job_reachable :: "nat \<Rightarrow> job_state \<Rightarrow> bool" for n where
  init: "job_reachable n (jobs_start n)"
| step: "job_reachable n s \<Longrightarrow> job_step s t \<Longrightarrow> job_reachable n t"

section \<open>The counters\<close>

primrec count_of :: "job_pc \<Rightarrow> nat" where
  "count_of (Calling n) = n"
| "count_of (Checking n) = n"
| "count_of (Leaving n) = n"
| "count_of (Joined n) = n"

primrec joined_of :: "job_pc \<Rightarrow> nat" where
  "joined_of (Calling n) = 0"
| "joined_of (Checking n) = 0"
| "joined_of (Leaving n) = 0"
| "joined_of (Joined n) = n"

primrec whole_rounds :: "bool \<Rightarrow> job_pc \<Rightarrow> bool" where
  "whole_rounds l (Calling n) \<longleftrightarrow> True"
| "whole_rounds l (Checking n) \<longleftrightarrow> 16 dvd n \<and> 0 < n"
| "whole_rounds l (Leaving n) \<longleftrightarrow> 16 dvd n \<and> 0 < n \<and> l"
| "whole_rounds l (Joined n) \<longleftrightarrow> 16 dvd n \<and> 0 < n \<and> l"

definition job_inv :: "nat \<Rightarrow> job_state \<Rightarrow> bool" where
  "job_inv n s \<longleftrightarrow> length (jobs s) = n \<and> made s = sum_list (map count_of (jobs s)) \<and>
     total_done s = word_of_nat (sum_list (map joined_of (jobs s))) \<and>
     total_failed s = word_of_nat (erred s) \<and> erred s \<le> made s \<and> list_all (whole_rounds (late s)) (jobs s)"

text \<open>Only one thread changes, so only its summand does.\<close>

lemma sum_list_map_update:
  fixes f :: "'a \<Rightarrow> nat"
  assumes "j < length xs"
  shows "sum_list (map f (xs[j := y])) + f (xs ! j) = sum_list (map f xs) + f y"
  using assms
proof (induction xs arbitrary: j)
  case (Cons x xs)
  then show ?case by (cases j) simp_all
qed simp

lemma list_all_update: "list_all P xs \<Longrightarrow> P y \<Longrightarrow> list_all P (xs[j := y])"
  by (auto simp: list_all_iff dest!: set_update_subset_insert [THEN subsetD])

lemma list_all_at: "list_all P xs \<Longrightarrow> j < length xs \<Longrightarrow> P (xs ! j)"
  by (simp add: list_all_length)

lemma job_inv_moves:
  assumes "job_inv n s" and "j < length (jobs s)" and "job_moves j ok s = Some t"
  shows "job_inv n t"
proof -
  note inv = assms(1) [unfolded job_inv_def]
  have round: "whole_rounds (late s) (jobs s ! j)" using inv assms(2) by (simp add: list_all_at)
  note sums = sum_list_map_update [OF assms(2), of count_of] sum_list_map_update [OF assms(2), of joined_of]
  show ?thesis
  proof (cases "jobs s ! j")
    case (Calling k)
    let ?pc = "if (k + 1) mod 16 = 0 then Checking (k + 1) else Calling (k + 1)"
    have "count_of ?pc = k + 1" "joined_of ?pc = 0" "whole_rounds (late s) ?pc"
      by (simp_all add: mod_eq_0_iff_dvd)
    then show ?thesis
      using inv assms(3) Calling sums [of ?pc]
      by (auto simp: job_inv_def job_moves_def Let_def list_all_update)
  next
    case (Checking k)
    let ?pc = "if late s then Leaving k else Calling k"
    have "count_of ?pc = k" "joined_of ?pc = 0" "whole_rounds (late s) ?pc"
      using round Checking by simp_all
    then show ?thesis
      using inv assms(3) Checking sums [of ?pc]
      by (auto simp: job_inv_def job_moves_def list_all_update)
  next
    case (Leaving k)
    then show ?thesis
      using inv assms(3) round sums [of "Joined k"]
      by (auto simp: job_inv_def job_moves_def list_all_update)
  next
    case (Joined k)
    with assms(3) show ?thesis by (simp add: job_moves_def)
  qed
qed

lemma job_inv_deadline: "job_inv n s \<Longrightarrow> job_inv n (s\<lparr>late := True\<rparr>)"
proof -
  have "whole_rounds l pc \<Longrightarrow> whole_rounds True pc" for l pc by (cases pc) simp_all
  then show "job_inv n s \<Longrightarrow> job_inv n (s\<lparr>late := True\<rparr>)"
    by (auto simp: job_inv_def list_all_iff)
qed

lemma job_inv_reachable: "job_reachable n s \<Longrightarrow> job_inv n s"
proof (induction rule: job_reachable.induct)
  case init
  then show ?case by (simp add: job_inv_def jobs_start_def sum_list_replicate list_all_iff)
next
  case (step s t)
  from step(2,3) show ?case by cases (auto intro: job_inv_moves job_inv_deadline)
qed

section \<open>The end\<close>

text \<open>How many more steps a thread makes once the deadline has passed.\<close>

primrec job_left :: "job_pc \<Rightarrow> nat" where
  "job_left (Calling n) = 18 - n mod 16"
| "job_left (Checking n) = 2"
| "job_left (Leaving n) = 1"
| "job_left (Joined n) = 0"

definition all_left :: "job_state \<Rightarrow> nat" where "all_left s = sum_list (map job_left (jobs s))"

lemma late_progress:
  assumes "late s" and "job_step s t"
  shows "all_left t < all_left s \<and> late t"
  using assms(2)
proof cases
  case (moves j ok)
  note less = sum_list_map_update [OF moves(1), of job_left]
  show ?thesis
  proof (cases "jobs s ! j")
    case (Calling k)
    let ?pc = "if (k + 1) mod 16 = 0 then Checking (k + 1) else Calling (k + 1)"
    have "job_left ?pc < job_left (Calling k)" by (auto simp: mod_Suc)
    then show ?thesis
      using moves(2) assms(1) Calling less [of ?pc]
      by (auto simp: job_moves_def all_left_def Let_def)
  next
    case (Checking k)
    then show ?thesis
      using moves(2) assms(1) less [of "Leaving k"] by (auto simp: job_moves_def all_left_def)
  next
    case (Leaving k)
    then show ?thesis
      using moves(2) assms(1) less [of "Joined k"] by (auto simp: job_moves_def all_left_def)
  next
    case (Joined k)
    with moves(2) show ?thesis by (simp add: job_moves_def)
  qed
qed (use assms(1) in simp)

lemma stuck_is_joined:
  assumes "\<nexists>t. job_step s t"
  shows "late s \<and> list_all (\<lambda>pc. \<exists>n. pc = Joined n) (jobs s)"
proof -
  have "late s" using assms deadline by blast
  moreover have "\<exists>n. jobs s ! j = Joined n" if "j < length (jobs s)" for j
  proof -
    have "job_moves j True s = None" using assms moves [OF that] by fastforce
    then show ?thesis by (auto simp: job_moves_def Let_def split: job_pc.splits)
  qed
  ultimately show ?thesis by (simp add: list_all_length)
qed

lemma joined_counts: "list_all (\<lambda>pc. \<exists>n. pc = Joined n) ps \<Longrightarrow>
    sum_list (map joined_of ps) = sum_list (map count_of ps)"
  by (induction ps) auto

lemma whole_sum: "list_all (whole_rounds l) ps \<Longrightarrow> list_all (\<lambda>pc. \<exists>n. pc = Joined n) ps \<Longrightarrow>
    16 dvd sum_list (map count_of ps) \<and> 16 * length ps \<le> sum_list (map count_of ps)"
proof (induction ps)
  case (Cons pc ps)
  then obtain n where "pc = Joined n" "16 dvd n" "0 < n" by auto
  moreover from this have "16 \<le> n" by (intro dvd_imp_le)
  ultimately show ?case using Cons by (cases l) simp_all
qed simp

text \<open>C18: However the threads of a blocking phase interleave, its report is exact: once the deadline
  has passed each thread makes at most eighteen more steps, so the phase ends, and when it has
  ended \<open>done\<close> is the number of calls all threads made and \<open>failed\<close> the number of those that failed,
  both modulo 2 to the 64; every thread has made a positive multiple of sixteen calls, so a row is
  never computed from none.\<close>

theorem throughput_is_exact:
  assumes "job_reachable n s"
  shows "(late s \<longrightarrow> all_left s \<le> 18 * n \<and> (\<forall>t. job_step s t \<longrightarrow> all_left t < all_left s)) \<and>
    ((\<nexists>t. job_step s t) \<longrightarrow> total_done s = word_of_nat (made s) \<and> total_failed s = word_of_nat (erred s) \<and>
      erred s \<le> made s \<and> 16 dvd made s \<and> 16 * n \<le> made s)"
proof -
  note inv = job_inv_reachable [OF assms, unfolded job_inv_def]
  have "job_left pc \<le> 18" for pc by (cases pc) simp_all
  then have "sum_list (map job_left ps) \<le> 18 * length ps" for ps
    by (induction ps) (auto intro: add_mono)
  then have "all_left s \<le> 18 * n" using inv unfolding all_left_def by metis
  moreover have "total_done s = word_of_nat (made s)" "16 dvd made s" "16 * n \<le> made s" if "\<nexists>t. job_step s t"
    using inv stuck_is_joined [OF that] joined_counts [of "jobs s"] whole_sum [of "late s" "jobs s"] by auto
  ultimately show ?thesis
    using inv late_progress by blast
qed

section \<open>The program of a thread\<close>

text \<open>What \<open>blocking_job\<close> of \<open>Bench_Client\<close> does in the world of the client is a run of these steps: if it
  returns \<open>n1\<close> calls of which \<open>f1\<close> failed, then the thread, alone, gets to where it adds \<open>n1\<close> to
  \<open>done\<close>, with \<open>f1\<close> counted.\<close>

lemma one_thread_moves:
  assumes "job_reachable 1 s" and "jobs s = [pc]" and "job_moves 0 ok s = Some t"
  shows "job_reachable 1 t"
  using assms by (intro job_reachable.step [OF assms(1)] moves [of 0]) simp_all

theorem blocking_job_takes_steps:
  assumes "blocking_job E c T samples content nrefs nfds 0 0 watch w = Some (Inr (Some (n1, f1, watch1)), w1)"
  shows "\<exists>s. job_reachable 1 s \<and> jobs s = [Leaving n1] \<and> total_failed s = word_of_nat f1 \<and>
    made s = n1 \<and> erred s = f1"
proof -
  have "fst y = Inr (Some (n1, f1, watch1)) \<Longrightarrow> job_reachable 1 s \<Longrightarrow> jobs s = [Calling n] \<Longrightarrow> \<not> late s \<Longrightarrow>
      total_failed s = word_of_nat failed0 \<Longrightarrow> made s = n \<Longrightarrow> erred s = failed0 \<Longrightarrow>
      \<exists>t. job_reachable 1 t \<and> jobs t = [Leaving n1] \<and> total_failed t = word_of_nat f1 \<and> made t = n1 \<and> erred t = f1"
    if "blocking_job E c T samples content nrefs nfds n failed0 watch w = Some y"
    for E c T samples content nrefs nfds n failed0 watch y s and w :: "'a world"
  proof (induction arbitrary: s rule: blocking_job.raw_induct [OF _ that])
    case (1 f E c T samples content nrefs nfds n failed0 watch w y s)
    obtain res w2 where res: "round_trip E c content nrefs nfds w = Some (Inr res, w2)"
      using 1(2,3) by (cases y) (auto elim!: pbind_Some_cases)
    obtain u w3 where drop: "drop_result E res w2 = Some (Inr u, w3)"
      using 1(2,3) res by (cases y) (auto elim!: pbind_Some_cases)
    define f2 where "f2 = (if isl res then failed0 + 1 else failed0)"
    define s1 where "s1 = the (job_moves 0 (\<not> isl res) s)"
    have s1: "job_moves 0 (\<not> isl res) s = Some s1"
      "jobs s1 = [if (n + 1) mod 16 = 0 then Checking (n + 1) else Calling (n + 1)]" "\<not> late s1"
      "total_failed s1 = word_of_nat f2" "made s1 = n + 1" "erred s1 = f2"
      using 1(5-9) by (auto simp: s1_def f2_def job_moves_def Let_def)
    have r1: "job_reachable 1 s1" by (rule one_thread_moves [OF 1(4,5) s1(1)])
    have step: "(if (n + 1) mod 16 = 0 then
        (if passed T ((n + 1) div 16) then Some (Inr (Some (n + 1, f2, watch)), w3)
         else case (if samples then sample_if_due T ((n + 1) div 16) watch else (watch, False)) of
           (watch2, stopped) \<Rightarrow> if stopped then Some (Inr None, w3)
             else f E c T samples content nrefs nfds (n + 1) f2 watch2 w3)
        else f E c T samples content nrefs nfds (n + 1) f2 watch w3) = Some y"
      using 1(2) unfolding pbind_simps(3) [of "round_trip E c content nrefs nfds", OF res]
        pbind_simps(3) [of "drop_result E res", OF drop] f2_def Let_def prog_simps .
    consider (stop) "(n + 1) mod 16 = 0" "y = (Inr (Some (n + 1, f2, watch)), w3)"
      | (look) watch2 where "(n + 1) mod 16 = 0" "f E c T samples content nrefs nfds (n + 1) f2 watch2 w3 = Some y"
      | (more) "(n + 1) mod 16 \<noteq> 0" "f E c T samples content nrefs nfds (n + 1) f2 watch w3 = Some y"
      using step 1(3) by (auto split: if_splits prod.splits)
    then show ?case
    proof cases
      case stop
      let ?s2 = "s1\<lparr>late := True\<rparr>"
      have "job_reachable 1 ?s2" using s1(3) by (intro job_reachable.step [OF r1] deadline)
      then have "job_reachable 1 (?s2\<lparr>jobs := [Leaving (n + 1)]\<rparr>)"
        by (rule one_thread_moves [where ok = True]) (use s1(2) stop(1) in \<open>simp_all add: job_moves_def\<close>)
      moreover have "n1 = n + 1" "f1 = f2" using stop(2) 1(3) by auto
      ultimately show ?thesis using s1(4-6) by (intro exI [of _ "?s2\<lparr>jobs := [Leaving (n + 1)]\<rparr>"]) simp
    next
      case look
      let ?s2 = "s1\<lparr>jobs := [Calling (n + 1)]\<rparr>"
      have "job_reachable 1 ?s2"
        by (rule one_thread_moves [OF r1 _, where ok = True])
          (use s1(2,3) look(1) in \<open>simp_all add: job_moves_def\<close>)
      from 1(1) [OF look(2) 1(3) this] s1(3-6) show ?thesis by simp
    next
      case more
      from 1(1) [OF more(2) 1(3) r1] s1(2-6) more(1) show ?thesis by simp
    qed
  qed
  from this [OF assms, of "jobs_start 1"] show ?thesis
    using job_reachable.init [of 1] by (simp add: jobs_start_def)
qed

section \<open>An example\<close>

text \<open>One thread whose fifth call fails, and a deadline that passes meanwhile.\<close>

primrec run_calls :: "nat \<Rightarrow> job_state \<Rightarrow> job_state" where
  "run_calls 0 s = s"
| "run_calls (Suc k) s = (let s1 = run_calls k s in case job_moves 0 (k \<noteq> 4) s1 of None \<Rightarrow> s1 | Some t \<Rightarrow> t)"

definition one_job :: job_state where
  "one_job = \<lparr>jobs = [Joined 16], total_done = 16, total_failed = 1, late = True, made = 16, erred = 1\<rparr>"

lemma run_calls_reachable: "job_reachable 1 s \<Longrightarrow> job_reachable 1 (run_calls k s)"
proof (induction k)
  case (Suc k)
  from Suc.IH [OF Suc.prems] have r: "job_reachable 1 (run_calls k s)" .
  then have "length (jobs (run_calls k s)) = 1"
    using job_inv_reachable [OF r] by (simp add: job_inv_def)
  then have "job_moves 0 (k \<noteq> 4) (run_calls k s) = Some t \<Longrightarrow> job_step (run_calls k s) t" for t
    by (intro moves) simp_all
  with r show ?case
    by (cases "job_moves 0 (k \<noteq> 4) (run_calls k s)") (auto simp: Let_def intro: job_reachable.step)
qed simp

lemma one_job_is_run: "one_job = run_calls 18 ((jobs_start 1)\<lparr>late := True\<rparr>)"
  by code_simp

theorem throughput_is_exact_witness:
  "job_reachable 1 one_job \<and> total_done one_job = word_of_nat (made one_job) \<and> 16 * 1 \<le> made one_job"
proof -
  have "job_reachable 1 ((jobs_start 1)\<lparr>late := True\<rparr>)"
    by (rule job_reachable.step [OF init], rule deadline) (simp add: jobs_start_def)
  then have r: "job_reachable 1 one_job" unfolding one_job_is_run by (rule run_calls_reachable)
  moreover have "\<nexists>t. job_step one_job t"
    by (auto simp: one_job_def job_moves_def elim!: job_step.cases)
  ultimately show ?thesis using throughput_is_exact [OF r] by simp
qed

end
