(* ===== verification/Bench_Phases.thy ===== *)
theory Bench_Phases
  imports Bench_Flow Command_Line
begin

text \<open>
  The phases of \<open>client_main\<close> in \<open>src/examples/bench.rs\<close>: which measurements a run makes, in which
  order and with which sizes, the rows of the latency phases as a program, and the search for the
  payload ceiling. What is printed between them is left out.
\<close>

section \<open>What is measured\<close>

text \<open>A row: the bytes of the payload, the references, the descriptors, and how often or how long.\<close>

datatype row =
    Latency_Row nat nat nat nat
  | Blocking_Row nat nat nat nat nat
  | One_Way_Row nat nat nat
  | Probe_Row nat

definition data_rows :: "nat \<Rightarrow> row list" where
  "data_rows n = map (\<lambda>p. Latency_Row p 0 0 n) [8, 64, 512, 1024, 4096, 8192]"

definition ref_rows :: "nat \<Rightarrow> row list" where
  "ref_rows n = map (\<lambda>p. Latency_Row p 1 0 n) [8, 1024, 8192]"

definition fd_rows :: "nat \<Rightarrow> row list" where
  "fd_rows n = map (\<lambda>p. Latency_Row p 0 1 n) [8, 1024, 8192]"

definition batch_iters :: "nat \<Rightarrow> nat" where "batch_iters n = max (n div 4) 500"

definition batch_rows :: "nat \<Rightarrow> row list" where
  "batch_rows n = concat (map (\<lambda>(nrefs, nfds). map (\<lambda>k. Latency_Row 8 (if nrefs then k else 0) (if nfds then k else 0)
     (batch_iters n)) [1, 8, 32, 128, 253]) [(True, False), (False, True)])"

definition blocking_rows :: "nat \<Rightarrow> nat \<Rightarrow> row list" where
  "blocking_rows js sec = map (\<lambda>(p, nrefs, nfds). Blocking_Row p nrefs nfds js sec)
     [(8, 0, 0), (1024, 0, 0), (8192, 0, 0), (8, 1, 0), (1024, 1, 0), (8, 0, 1), (1024, 0, 1)]"

definition one_way_rows :: "nat \<Rightarrow> row list" where
  "one_way_rows sec = map (\<lambda>(p, nrefs). One_Way_Row p nrefs sec) [(8, 0), (1024, 0), (8192, 0), (8, 1)]"

definition probe_sizes :: "nat list" where
  "probe_sizes = [4096, 65536, 262144, 524288, 1024 * 1024, 2 * 1024 * 1024]"

definition client_rows :: "bench_args \<Rightarrow> row list" where
  "client_rows args = (case soak args of
     Some sec \<Rightarrow> [Blocking_Row 64 1 0 (jobs args) sec]
   | None \<Rightarrow> data_rows (iters args) @ ref_rows (iters args) @ fd_rows (iters args) @ batch_rows (iters args) @
       blocking_rows (jobs args) (secs args) @ one_way_rows (secs args) @
       [Blocking_Row 64 1 1 (jobs args) (churn args)] @ map Probe_Row probe_sizes)"

section \<open>What is sent\<close>

fun row_message :: "row \<Rightarrow> nat \<times> nat \<times> nat" where
  "row_message (Latency_Row p nrefs nfds n) = (p, nrefs, nfds)"
| "row_message (Blocking_Row p nrefs nfds js sec) = (p, nrefs, nfds)"
| "row_message (One_Way_Row p nrefs sec) = (p, nrefs, 0)"
| "row_message (Probe_Row p) = (p, 0, 0)"

fun is_probe :: "row \<Rightarrow> bool" where "is_probe (Probe_Row p) = True" | "is_probe _ = False"

lemma rows_bounded:
  assumes "r \<in> set (client_rows args)" and "\<not> is_probe r" and "row_message r = (p, nrefs, nfds)"
  shows "8 + p + 40 * (nrefs + nfds) \<le> 2 ^ 14 \<and> nfds \<le> 253"
proof (cases "soak args")
  case None
  have "\<forall>r \<in> set (client_rows args). is_probe r \<or>
      (case row_message r of (p, nrefs, nfds) \<Rightarrow> 8 + p + 40 * (nrefs + nfds) \<le> 2 ^ 14 \<and> nfds \<le> 253)"
    by (simp add: None client_rows_def data_rows_def ref_rows_def fd_rows_def batch_rows_def blocking_rows_def
        one_way_rows_def)
  with assms show ?thesis by fastforce
next
  case (Some sec)
  with assms show ?thesis by (simp add: client_rows_def)
qed

text \<open>Every measured message, objects and offsets included, takes at most 16 KiB of a mapping of 1 MiB,
  so refusals for want of space come from what is pending and not from the sizes; only the probes of
  the ceiling are meant to exceed it, and the last two do.\<close>

theorem measured_messages_are_small:
  fixes c :: "'h client"
  assumes "r \<in> set (client_rows args)" and "\<not> is_probe r" and "row_message r = (p, nrefs, nfds)"
    and "message pf junk (reply_obj c) fd (times_A p) nrefs nfds d0 = (Inr (Some b), d1)"
  shows "data_buffer_len b + 8 * length (obj_offsets b) \<le> 2 ^ 14"
proof -
  have "data_buffer_len b \<le> 8 + p + 32 * (nrefs + nfds)" "length (obj_offsets b) = nrefs + nfds"
    using message_size [OF assms(4)] by (simp_all add: times_A_def)
  with rows_bounded [OF assms(1-3)] show ?thesis by simp
qed

section \<open>The latency rows\<close>

text \<open>The rows in turn; the first that stops the process ends it, and a panic of one is a panic of the
  whole. \<open>clocks\<close> and \<open>times_of\<close> are those of the k-th row.\<close>

primrec run_rows :: "'h env \<Rightarrow> 'h client \<Rightarrow> (nat \<Rightarrow> phase_clock) \<Rightarrow> (nat \<Rightarrow> nat \<Rightarrow> nat) \<Rightarrow> nat \<Rightarrow>
    (nat \<times> nat \<times> nat \<times> nat) list \<Rightarrow> fd_watch \<Rightarrow> ('h, (nat list list \<times> fd_watch) option) prog" where
  "run_rows E c clocks times_of k [] watch = pret (Some ([], watch))"
| "run_rows E c clocks times_of k (r # rs) watch = (case r of (p, nrefs, nfds, n) \<Rightarrow>
     pbind (latency E c (clocks k) (times_of k) p nrefs nfds n watch) (\<lambda>res. case res of
       None \<Rightarrow> pret None
     | Some (s, watch1) \<Rightarrow> pbind (run_rows E c clocks times_of (k + 1) rs watch1) (\<lambda>rest. pret (case rest of
         None \<Rightarrow> None | Some (ss, watch2) \<Rightarrow> Some (s # ss, watch2)))))"

text \<open>A run that gets through reports every row, and each from at least one sample and at most as many
  as it asked for, sorted.\<close>

theorem rows_report_samples:
  assumes "run_rows E c clocks times_of k rs watch w = Some (Inr (Some (ss, watch1)), w1)"
  shows "length ss = length rs \<and> (\<forall>i < length rs. \<exists>j. 0 < j \<and> j \<le> snd (snd (snd (rs ! i))) \<and>
    ss ! i = sort (map (times_of (k + i)) [0..<j]))"
  using assms
proof (induction rs arbitrary: k watch w ss)
  case Nil
  then show ?case by simp
next
  case (Cons r rs)
  obtain p nrefs nfds n where r: "r = (p, nrefs, nfds, n)" by (cases r) auto
  obtain s watch2 w2 ss1 where first: "latency E c (clocks k) (times_of k) p nrefs nfds n watch w =
      Some (Inr (Some (s, watch2)), w2)"
    and rest: "run_rows E c clocks times_of (k + 1) rs watch2 w2 = Some (Inr (Some (ss1, watch1)), w1)"
    and ss: "ss = s # ss1"
    using Cons.prems r
    by (auto elim!: pbind_Some_cases split: option.splits prod.splits)
  have IH: "length ss1 = length rs" "\<forall>i < length rs. \<exists>j. 0 < j \<and> j \<le> snd (snd (snd (rs ! i))) \<and>
      ss1 ! i = sort (map (times_of (k + 1 + i)) [0..<j])"
    using Cons.IH [OF rest] by simp_all
  have "\<exists>j. 0 < j \<and> j \<le> snd (snd (snd ((r # rs) ! i))) \<and> ss ! i = sort (map (times_of (k + i)) [0..<j])"
    if "i < length (r # rs)" for i
  proof (cases i)
    case 0
    with latency_samples [OF first] r ss show ?thesis by auto
  next
    case (Suc i')
    with IH(2) that ss show ?thesis by auto
  qed
  with IH(1) ss show ?case by simp
qed

section \<open>The payload ceiling\<close>

datatype probe_report = Echoed_Intact | Truncated nat | Refused error | No_Reply

definition report_of :: "nat \<Rightarrow> (error + nat) option \<Rightarrow> probe_report" where
  "report_of len res = (case res of
     Some (Inr n) \<Rightarrow> if n = len then Echoed_Intact else Truncated n
   | Some (Inl e) \<Rightarrow> Refused e
   | None \<Rightarrow> No_Reply)"

text \<open>\<open>answer\<close> is what the probe of a size comes to: none when its thread has not answered in time,
  which ends the search.\<close>

primrec find_ceiling :: "(nat \<Rightarrow> (error + nat) option) \<Rightarrow> nat list \<Rightarrow> (nat \<times> probe_report) list" where
  "find_ceiling answer [] = []"
| "find_ceiling answer (len # rest) = (let rep = report_of len (answer len) in
     (len, rep) # (if rep = No_Reply then [] else find_ceiling answer rest))"

text \<open>At most one probe is left blocked, the last; all sizes before it are reported.\<close>

theorem ceiling_blocks_once:
  "\<exists>tried untried. sizes = tried @ untried \<and> map fst (find_ceiling answer sizes) = tried \<and>
     (untried \<noteq> [] \<longrightarrow> snd (last (find_ceiling answer sizes)) = No_Reply) \<and>
     (\<forall>x \<in> set (butlast (find_ceiling answer sizes)). snd x \<noteq> No_Reply)"
proof (induction sizes)
  case Nil
  then show ?case by simp
next
  case (Cons len rest)
  obtain tried untried where IH: "rest = tried @ untried" "map fst (find_ceiling answer rest) = tried"
    "untried \<noteq> [] \<longrightarrow> snd (last (find_ceiling answer rest)) = No_Reply"
    "\<forall>x \<in> set (butlast (find_ceiling answer rest)). snd x \<noteq> No_Reply"
    using Cons.IH by blast
  show ?case
  proof (cases "report_of len (answer len) = No_Reply")
    case True
    then show ?thesis by (intro exI [of _ "[len]"] exI [of _ rest]) (simp add: Let_def)
  next
    case False
    moreover have "rest = [] \<Longrightarrow> untried = []" using IH(1) by simp
    moreover have "find_ceiling answer rest = [] \<Longrightarrow> rest = []" by (cases rest) (simp_all add: Let_def)
    ultimately show ?thesis using IH
      by (intro exI [of _ "len # tried"] exI [of _ untried]) (auto simp: Let_def)
  qed
qed

end
