(* ===== verification/Raw_Floor.thy ===== *)
theory Raw_Floor
  imports Raw_Setup Bench_Client
begin

text \<open>
  A row of the raw floor in \<open>client_main\<close> of \<open>src/examples/bench.rs\<close>: a thousand round trips to
  warm up, then the timed ones.

  The row is a client of an interface: something that makes a round trip and, as long as the other
  side answers, gets a reply. The locale \<open>answering\<close> states that contract; the round trip of
  \<open>Raw_Binder\<close> against a service that answers promptly satisfies it.
\<close>

section \<open>The row\<close>

type_synonym 'w trip = "'w \<Rightarrow> (usize option outcome \<times> 'w) option"

text \<open>The warm-up goes on after a failure and remembers it.\<close>

primrec raw_warm :: "'w trip \<Rightarrow> nat \<Rightarrow> bool \<Rightarrow> 'w \<Rightarrow> (bool outcome \<times> 'w) option" where
  "raw_warm trip 0 ok w = Some (Inr ok, w)"
| "raw_warm trip (Suc n) ok w = (case trip w of
     None \<Rightarrow> None
   | Some (Inl p, w1) \<Rightarrow> Some (Inl p, w1)
   | Some (Inr r, w1) \<Rightarrow> raw_warm trip n (ok \<and> r \<noteq> None) w1)"

text \<open>The timed trips end with the first failure.\<close>

primrec raw_timed :: "'w trip \<Rightarrow> (nat \<Rightarrow> nat) \<Rightarrow> nat \<Rightarrow> nat list \<Rightarrow> 'w \<Rightarrow> (nat list outcome \<times> 'w) option" where
  "raw_timed trip elapsed 0 samples w = Some (Inr samples, w)"
| "raw_timed trip elapsed (Suc n) samples w = (case trip w of
     None \<Rightarrow> None
   | Some (Inl p, w1) \<Rightarrow> Some (Inl p, w1)
   | Some (Inr None, w1) \<Rightarrow> Some (Inr samples, w1)
   | Some (Inr (Some n'), w1) \<Rightarrow> raw_timed trip elapsed n (samples @ [elapsed (length samples)]) w1)"

text \<open>A row that is skipped has no samples; one whose first timed trip fails panics in \<open>summarize\<close>.\<close>

definition raw_floor_row :: "'w trip \<Rightarrow> (nat \<Rightarrow> nat) \<Rightarrow> nat \<Rightarrow> 'w \<Rightarrow>
    (nat list option outcome \<times> 'w) option" where
  "raw_floor_row trip elapsed rounds w = (case raw_warm trip 1000 True w of
     None \<Rightarrow> None
   | Some (Inl p, w1) \<Rightarrow> Some (Inl p, w1)
   | Some (Inr ok, w1) \<Rightarrow>
       if \<not> ok then Some (Inr None, w1)
       else (case raw_timed trip elapsed rounds [] w1 of
           None \<Rightarrow> None
         | Some (Inl p, w2) \<Rightarrow> Some (Inl p, w2)
         | Some (Inr samples, w2) \<Rightarrow> Some (map_sum id Some (summarize samples), w2)))"

section \<open>A service that answers\<close>

locale answering =
  fixes trip :: "'w trip" and good :: "'w \<Rightarrow> bool"
  assumes answers_trip: "good w \<Longrightarrow> \<exists>n w1. trip w = Some (Inr (Some n), w1) \<and> good w1"
begin

lemma warm_succeeds: "good w \<Longrightarrow> \<exists>w1. raw_warm trip n True w = Some (Inr True, w1) \<and> good w1"
proof (induction n arbitrary: w)
  case (Suc n)
  obtain k w1 where "trip w = Some (Inr (Some k), w1)" "good w1"
    using answers_trip [OF Suc.prems] by blast
  with Suc.IH [of w1] show ?case by simp
qed simp

lemma timed_succeeds:
  "good w \<Longrightarrow> \<exists>w1. raw_timed trip elapsed n (map elapsed [0..<k]) w =
     Some (Inr (map elapsed [0..<k + n]), w1) \<and> good w1"
proof (induction n arbitrary: w k)
  case (Suc n)
  obtain m w1 where "trip w = Some (Inr (Some m), w1)" "good w1"
    using answers_trip [OF Suc.prems] by blast
  with Suc.IH [of w1 "Suc k"] show ?case by simp
qed simp

lemma row_reports:
  assumes "good w" and "0 < rounds"
  shows "\<exists>w1. raw_floor_row trip elapsed rounds w =
    Some (Inr (Some (sort (map elapsed [0..<rounds]))), w1) \<and> good w1"
proof -
  obtain w1 where w1: "raw_warm trip 1000 True w = Some (Inr True, w1)" "good w1"
    using warm_succeeds [OF assms(1)] by blast
  obtain w2 where "raw_timed trip elapsed rounds [] w1 = Some (Inr (map elapsed [0..<rounds]), w2)" "good w2"
    using timed_succeeds [OF w1(2), of elapsed rounds 0] by auto
  with w1 assms(2) show ?thesis by (simp add: raw_floor_row_def summarize_def)
qed

lemma row_of_none_panics:
  "good w \<Longrightarrow> \<exists>w1. raw_floor_row trip elapsed 0 w = Some (Inl Slice_Out_Of_Range, w1)"
  using warm_succeeds [of w 1000] by (auto simp: raw_floor_row_def summarize_def)

end

section \<open>The raw protocol\<close>

text \<open>The driver answers the write of each request with the reply, and then the release of its
  buffer with anything.\<close>

definition prompt :: "ioc_fn \<Rightarrow> transaction_data \<Rightarrow> raw_world \<Rightarrow> bool" where
  "prompt op reply w \<longleftrightarrow> (\<forall>j. \<exists>a. answered w (raw_calls w + 2 * j)
     [streamed op [] [(BR_REPLY, enc_transaction reply)], a])"

lemma prompt_trip:
  assumes "ioctl_opcode op" and "prompt op reply w"
  shows "\<exists>w1. raw_round_trip op junk addr content w = Some (Inr (Some (data_size reply)), w1) \<and> prompt op reply w1"
proof -
  obtain a where a: "answered w (raw_calls w) (map (streamed op []) [] @
      [streamed op [] ([] @ [(BR_REPLY, enc_transaction reply)] @ []), a])"
    using assms(2) [unfolded prompt_def, rule_format, of 0] by auto
  let ?w1 = "after_writes [raw_request junk addr content, [(BC_FREE_BUFFER, Arg_Uintptr (data_buffer reply))]] w"
  have "raw_round_trip op junk addr content w = Some (Inr (Some (data_size reply)), ?w1)"
    using raw_trip_returns [OF assms(1) _ _ a] by simp
  moreover have "prompt op reply ?w1"
    unfolding prompt_def
  proof
    fix j
    show "\<exists>a. answered ?w1 (raw_calls ?w1 + 2 * j) [streamed op [] [(BR_REPLY, enc_transaction reply)], a]"
      using assms(2) [unfolded prompt_def, rule_format, of "Suc j"]
      by (simp add: answered_def after_writes_def add.assoc)
  qed
  ultimately show ?thesis by blast
qed

interpretation raw_linux: answering "raw_round_trip linux_ioc junk addr content" "prompt linux_ioc reply"
  for junk addr content reply
  by unfold_locales (use prompt_trip [OF linux.ioctl_opcode_axioms] in blast)

text \<open>Against a service that answers, a row of the raw floor reports one sample for every round.\<close>

theorem raw_floor_reports:
  assumes "prompt linux_ioc reply w" and "0 < rounds"
  shows "\<exists>w1. raw_floor_row (raw_round_trip linux_ioc junk addr content) elapsed rounds w =
    Some (Inr (Some (sort (map elapsed [0..<rounds]))), w1)"
  using raw_linux.row_reports [OF assms] by blast

text \<open>With \<open>--iters 0\<close> the row panics instead.\<close>

theorem raw_floor_of_none_panics:
  assumes "prompt linux_ioc reply w"
  shows "\<exists>w1. raw_floor_row (raw_round_trip linux_ioc junk addr content) elapsed 0 w =
    Some (Inl Slice_Out_Of_Range, w1)"
  using raw_linux.row_of_none_panics [OF assms] by blast

end
