(* ===== verification/Spec2Isabelle.thy ===== *)
theory Spec2Isabelle
  imports Pool_Setup Raw_Binder Handle_Values Device_Start Device_Tests Registry_Traffic Bench_Flow
    Pool_Sharing Two_Processes Basic_Main Lock_Files Raw_Setup Bench_Jobs Bench_Phases Raw_Floor
begin

text \<open>
  A model of \<open>binderbinder\<close>, a Rust library that speaks the protocol of the Linux binder
  driver: a process registers objects, sends them and file descriptors to other processes
  inside transactions, and holds references to objects of others, all counted by the kernel.

  \<^bold>\<open>The program\<close>

  A \<open>BinderDevice\<close> (\<open>src/src/device.rs\<close>) keeps the registry of local objects, their reference
  counts and the maps of remote references. Values of \<open>src/src/binder_object.rs\<close> are the
  handles of a client: creating, cloning and dropping them changes the counts of the device and
  sends commands to the kernel. A transaction is built by a \<open>PayloadBuilder\<close> and read by a
  \<open>PayloadReader\<close> (\<open>src/src/payload.rs\<close>). Looper threads and calls run the loop of
  \<open>binder_write_read\<close>, which parses what the driver returned and dispatches to the handlers.
  \<open>src/src/sys.rs\<close> has the structures and opcodes of the interface; \<open>src/src/fs.rs\<close> and
  \<open>src/src/test_pool.rs\<close> make and share device files; \<open>src/examples\<close> holds echo services and
  a benchmark that also speaks the protocol by hand.

  \<^bold>\<open>Theories\<close>

  \<^item> \<open>Binder_Prelude\<close>: machine integers, panics and profiles (a build with overflow checks and
    one that wraps), actions on a state, slices, little-endian codecs and their locale.
  \<^item> \<open>Binder_Sys\<close> (\<open>sys.rs\<close>): repr(C) layouts, structures and their encodings, type tags,
    commands and returns with their opcodes. The opcode function of rustix is a parameter; the
    locale \<open>ioctl_opcode\<close> says what is relied on and is interpreted on the encoding of Linux.
  \<^item> \<open>Object_Ref_State\<close> (\<open>RefCounts\<close>, \<open>ObjectRefState\<close>): the counts of one object, the
    mutex with poisoning, the published value; a refinement to counts without a bound, and what
    a published zero means under every interleaving.
  \<^item> \<open>Binder_Device\<close>: the device state and the operations on local objects; the commands that
    were sent are part of the state, as is what the kernel answers to each.
  \<^item> \<open>Local_Objects\<close>: every client that creates, clones, upgrades and drops handles of local
    objects, as a step relation; its invariants.
  \<^item> \<open>Remote_Refs\<close>: \<open>BinderRef\<close> and \<open>WeakBinderRef\<close> with their \<open>Arc\<close> counts, the maps that
    deduplicate them, death notifications; a step relation and the balance of what was sent.
  \<^item> \<open>Handle_Values\<close>: the handles as values: equality, order, hashing, conversions, and the
    futures that wait for an event (\<open>binder_object.rs\<close>).
  \<^item> \<open>Payload_Builder\<close>, \<open>Payload_Reader\<close>: both sides of a payload, the layout invariant, the
    round trip, and the destructor that drains a reader.
  \<^item> \<open>Driver\<close>: \<open>binder_write_read\<close> with every arm of its dispatch, nested replies included.
  \<^item> \<open>Transact\<close>: targets, local and remote calls, their retry loops, loopers, the context
    manager (\<open>device.rs\<close>, \<open>error.rs\<close>).
  \<^item> \<open>Device_Start\<close>: \<open>new\<close> and \<open>from_fd\<close>, as a function and as the interleaving of the thread
    that opens the device with the loopers it starts.
  \<^item> \<open>Device_Invariants\<close>, \<open>Driver_Invariants\<close>, \<open>Registry_Traffic\<close>: what every operation, every arm
    of the dispatch, every call and every looper keeps of the device.
  \<^item> \<open>Wire_Format\<close>: what is on the wire across these components: structures, codes, and the
    arguments of every command any call or looper sends.
  \<^item> \<open>Device_Files\<close>, \<open>Pool_Sharing\<close>, \<open>Lock_Files\<close>, \<open>Pool_Setup\<close>, \<open>Basic_Main\<close>: mounting,
    creating devices, the pool of test devices (\<open>fs.rs\<close>, \<open>test_pool.rs\<close>), processes that share
    it and the files they lock, and the tools that provision it or try it
    (\<open>setup_test_pool.rs\<close>, \<open>new_device.rs\<close>, \<open>basic.rs\<close>), over a file system that is a state.
  \<^item> \<open>Device_Tests\<close>: the unit tests of \<open>device.rs\<close> as programs over the model.
  \<^item> \<open>Bench_Echo\<close>, \<open>Remote_Echo\<close>, \<open>Raw_Binder\<close>, \<open>Raw_Setup\<close>, \<open>Raw_Floor\<close>: the echo services and
    clients of the examples, in one process and in two, the client and the service of the benchmark
    that use the driver without the library, what they open and close, and the rows measured
    with them.
  \<^item> \<open>Command_Line\<close>, \<open>Bench_Monitor\<close>, \<open>Bench_Client\<close>, \<open>Bench_Check\<close>, \<open>Bench_Flow\<close>,
    \<open>Bench_Jobs\<close>, \<open>Bench_Phases\<close>, \<open>Two_Processes\<close> (\<open>bench.rs\<close>): the options, the files under
    /proc and the watchdog, the methods of the client with their loops, the self check, what the
    loops count, alone and in several threads, the rows that are measured, and how the two
    processes start and end.

  \<^bold>\<open>How the code is modelled\<close>

  State is passed explicitly. An operation on the device is an action: a result or a panic, with
  the state after it. A program with calls to the kernel or to handlers is a function from a world
  to an option: none is a program that never returns. The loops of the source that may not end
  (alignment, the destructor of a reader, the parser, the retry loops, the loopers, the echo and
  the raw loops) are partial functions, so that returning is something proved and there is no fuel
  anywhere; the two inner loops of the raw protocol are total with a measure. Counts are 32-bit
  words, identifiers and cookies 64-bit words; positions in buffers are natural numbers with
  explicit overflow at 2 to the 64. Threads are interleavings of the atomic operations of the
  source: each operation under the mutex, each operation on a map.

  \<^bold>\<open>Parameters\<close>

  The kernel (what each call answers, the memory it maps, duplicated descriptors, extended
  errors), the handlers of the client, the file system, the opcode function, and the bytes of a
  union that were not written. Hypotheses on them are stated where they are used.

  \<^bold>\<open>What the lemmas show\<close>

  \<^item> Counting: the counts refine their specification, a published zero is genuine, a send in flight
    is guarded, an acquire takes over, a handle is counted exactly while it lives, and a failed
    send changes nothing.
  \<^item> Protocol: commands to the kernel balance, come in the order of the protocol, and carry the bytes
    their opcode declares; deaths are reported to the right references; the parser stays in
    step with the driver and ends.
  \<^item> Payloads: whatever is built is laid out correctly and read back as it was sent; a reader
    gives its buffer back once.
  \<^item> Composition: an echo of a message through a builder, a reader, a handler and a second builder
    is the message, in one process and between two; the self check of the benchmark passes; a
    service and a client of the raw protocol answer and free every transaction; a provisioned pool
    is ready for its users.
  \<^item> Starting and stopping: no looper touches a device before it is open, the unit tests of the
    device pass, processes that share a pool never get the same node, the threads of the benchmark
    lose no count, and the two processes of the benchmark never wait for each other for ever.
  \<^item> Limits of the code, as theorems: a rollback that cancels another guard, a two-way call that
    loses its transaction, a destructor and a looper that never end, an object at the cursor that
    is read as bytes, a service that is cleaned up while in use, an open that fails and leaves its
    loopers behind, a target of another device whose identifier is looked up here, backpressure
    that is never counted, locks that depend on the environment.

  \<^bold>\<open>Not modelled\<close>

  Opening, mapping and unmapping a device and starting a thread are answers of the system. Tracing,
  \<open>Debug\<close> implementations and accessors have no effect on the properties. A panic ends an
  operation; the destructors that unwinding would run are not modelled. Of the benchmark, the
  statistics in floating point, histograms, the meter and all printing are left out. What is
  left of the library are accessors, the constants of flags the code does not use, and the
  signatures of its traits.
\<close>

end
